(* ===== verification/Prelude.thy ===== *)
theory Prelude
  imports Main "HOL-Library.AList"
begin

text \<open>
  Shared vocabulary of the development. JavaScript's insertion-ordered collections are lists:
  a \<open>Set\<close> is a list without repetitions (\<open>Set_add\<close> appends a new member, \<open>Set_delete\<close>
  removes it), a \<open>Map\<close> is an association list with distinct keys (\<open>Map_set\<close> replaces the
  value of a known key in place and appends a new one, \<open>Map_delete\<close> removes it). Iterating
  a \<open>Set\<close> or a \<open>Map\<close> visits the entries in insertion order, which is the order of
  these lists. The collection \<open>js_simps\<close> holds the rewrite rules the component proofs use.
\<close>

named_theorems js_simps \<open>characteristic equations of the JavaScript collections\<close>

section \<open>Sets in insertion order\<close>

definition Set_add :: "'a \<Rightarrow> 'a list \<Rightarrow> 'a list" where
  "Set_add x xs = (if x \<in> set xs then xs else xs @ [x])"

definition Set_delete :: "'a \<Rightarrow> 'a list \<Rightarrow> 'a list" where
  "Set_delete x xs = filter (\<lambda>y. y \<noteq> x) xs"

lemma set_Set_add [simp, js_simps]: "set (Set_add x xs) = insert x (set xs)"
  by (auto simp: Set_add_def)

lemma set_Set_delete [simp, js_simps]: "set (Set_delete x xs) = set xs - {x}"
  by (auto simp: Set_delete_def)

lemma distinct_Set_add [simp, intro]: "distinct xs \<Longrightarrow> distinct (Set_add x xs)"
  by (simp add: Set_add_def)

lemma distinct_Set_delete [simp, intro]: "distinct xs \<Longrightarrow> distinct (Set_delete x xs)"
  by (simp add: Set_delete_def)

lemma Set_add_neq_Nil [simp]: "Set_add x xs \<noteq> []"
  by (auto simp: Set_add_def)

lemma Set_delete_notin [simp]: "x \<notin> set xs \<Longrightarrow> Set_delete x xs = xs"
  by (auto simp: Set_delete_def intro!: filter_True)

lemma Set_delete_Set_add: "x \<notin> set xs \<Longrightarrow> Set_delete x (Set_add x xs) = xs"
  by (auto simp: Set_delete_def Set_add_def intro!: filter_True)

lemma Set_add_twice [simp]: "Set_add x (Set_add x xs) = Set_add x xs"
  by (simp add: Set_add_def)

lemma length_Set_delete:
  "distinct xs \<Longrightarrow> length (Set_delete x xs) = length xs - (if x \<in> set xs then 1 else 0)"
  by (induction xs) (auto simp: Set_delete_def filter_id_conv intro: Suc_pred dest: length_pos_if_in_set)

text \<open>\<open>new Set(array)\<close>: the members of an array, each at its first occurrence.\<close>

definition Set_of_array :: "'a list \<Rightarrow> 'a list" where
  "Set_of_array xs = fold Set_add xs []"

lemma set_fold_Set_add: "set (fold Set_add xs acc) = set acc \<union> set xs"
  by (induction xs arbitrary: acc) auto

lemma distinct_fold_Set_add: "distinct acc \<Longrightarrow> distinct (fold Set_add xs acc)"
  by (induction xs arbitrary: acc) auto

lemma fold_Set_add_disjoint:
  "distinct xs \<Longrightarrow> set xs \<inter> set acc = {} \<Longrightarrow> fold Set_add xs acc = acc @ xs"
  by (induction xs arbitrary: acc) (auto simp: Set_add_def)

lemma set_Set_of_array [simp, js_simps]: "set (Set_of_array xs) = set xs"
  by (simp add: Set_of_array_def set_fold_Set_add)

lemma distinct_Set_of_array [simp]: "distinct (Set_of_array xs)"
  by (simp add: Set_of_array_def distinct_fold_Set_add)

lemma Set_of_array_distinct [simp]: "distinct xs \<Longrightarrow> Set_of_array xs = xs"
  by (simp add: Set_of_array_def fold_Set_add_disjoint)

section \<open>Maps in insertion order\<close>

abbreviation Map_get :: "('k \<times> 'v) list \<Rightarrow> 'k \<Rightarrow> 'v option" where
  "Map_get \<equiv> map_of"

abbreviation Map_has :: "('k \<times> 'v) list \<Rightarrow> 'k \<Rightarrow> bool" where
  "Map_has m k \<equiv> k \<in> fst ` set m"

abbreviation Map_set :: "'k \<Rightarrow> 'v \<Rightarrow> ('k \<times> 'v) list \<Rightarrow> ('k \<times> 'v) list" where
  "Map_set \<equiv> AList.update"

abbreviation Map_delete :: "'k \<Rightarrow> ('k \<times> 'v) list \<Rightarrow> ('k \<times> 'v) list" where
  "Map_delete \<equiv> AList.delete"

abbreviation Map_wf :: "('k \<times> 'v) list \<Rightarrow> bool" where
  "Map_wf m \<equiv> distinct (map fst m)"

lemma Map_get_set [simp, js_simps]:
  "Map_get (Map_set k v m) k' = (if k' = k then Some v else Map_get m k')"
  by (simp add: update_conv')

lemma Map_get_delete [simp, js_simps]:
  "Map_get (Map_delete k m) k' = (if k' = k then None else Map_get m k')"
  by (simp add: delete_conv')

lemma Map_wf_set [simp, intro]: "Map_wf m \<Longrightarrow> Map_wf (Map_set k v m)"
  by (rule distinct_update)

lemma Map_wf_delete [simp, intro]: "Map_wf m \<Longrightarrow> Map_wf (Map_delete k m)"
  by (rule distinct_delete)

lemma Map_get_in_set: "Map_wf m \<Longrightarrow> (k, v) \<in> set m \<longleftrightarrow> Map_get m k = Some v"
  by (rule map_of_eq_Some_iff [symmetric])

lemma set_Map_set:
  "Map_wf m \<Longrightarrow> set (Map_set k v m) = insert (k, v) {p \<in> set m. fst p \<noteq> k}"
proof (induction m)
  case Nil
  then show ?case by simp
next
  case (Cons p m)
  then show ?case by (cases p) (force simp: image_iff)
qed

lemma set_Map_delete: "set (Map_delete k m) = {p \<in> set m. fst p \<noteq> k}"
  by (auto simp: AList.delete_eq)

lemma Map_has_iff: "Map_has m k \<longleftrightarrow> Map_get m k \<noteq> None"
  by (simp add: map_of_eq_None_iff)

lemma Map_get_map_values: "Map_get (map (map_prod id g) m) x = map_option g (Map_get m x)"
  by (induction m) auto

lemma Map_keys_map_values: "map fst (map (map_prod id g) m) = map fst m"
  by (induction m) auto

lemma update_absent: "k \<notin> fst ` set m \<Longrightarrow> Map_set k v m = m @ [(k, v)]"
  by (induction m) auto

section \<open>Results that may be an exception\<close>

text \<open>
  A JavaScript computation that may throw returns \<open>Inl\<close> the exception or \<open>Inr\<close>
  its value.
\<close>

fun bind_sum :: "'e + 'a \<Rightarrow> ('a \<Rightarrow> 'e + 'b) \<Rightarrow> 'e + 'b" where
  "bind_sum (Inl e) f = Inl e"
| "bind_sum (Inr x) f = f x"

lemma bind_sum_Inr_iff: "bind_sum r f = Inr y \<longleftrightarrow> (\<exists>x. r = Inr x \<and> f x = Inr y)"
  by (cases r) auto

section \<open>First match in a list\<close>

text \<open>\<open>Array.prototype.findIndex\<close> gives \<open>-1\<close> where this gives \<open>None\<close>.\<close>

fun find_index :: "('a \<Rightarrow> bool) \<Rightarrow> 'a list \<Rightarrow> nat option" where
  "find_index p [] = None"
| "find_index p (x # xs) = (if p x then Some 0 else map_option Suc (find_index p xs))"

lemma find_index_None_iff: "find_index p xs = None \<longleftrightarrow> (\<forall>x\<in>set xs. \<not> p x)"
  by (induction xs) auto

lemma find_index_Some:
  "find_index p xs = Some i \<Longrightarrow> i < length xs \<and> p (xs ! i) \<and> (\<forall>j<i. \<not> p (xs ! j))"
proof (induction xs arbitrary: i)
  case Nil
  then show ?case by simp
next
  case (Cons x xs)
  show ?case
  proof (cases "p x")
    case True
    with Cons.prems show ?thesis by simp
  next
    case False
    with Cons.prems obtain j where j: "find_index p xs = Some j" "i = Suc j" by auto
    from Cons.IH [OF j(1)] j(2) False show ?thesis
      by (auto simp: nth_Cons split: nat.splits)
  qed
qed

lemma find_index_SomeI:
  assumes "j < length xs" "p (xs ! j)" "\<And>i. i < j \<Longrightarrow> \<not> p (xs ! i)"
  shows "find_index p xs = Some j"
proof (cases "find_index p xs")
  case None
  with assms(1,2) show ?thesis by (auto simp: find_index_None_iff)
next
  case (Some i)
  with find_index_Some [OF Some] assms have "i = j" by (metis linorder_neqE_nat)
  with Some show ?thesis by simp
qed

lemma find_eq_hd_filter:
  "List.find p xs = (case filter p xs of [] \<Rightarrow> None | x # _ \<Rightarrow> Some x)"
  by (induction xs) auto

end
