(* ===== verification/JsString.thy ===== *)
theory JsString
  imports Prelude
begin

text \<open>
  The string operations and regular expressions the scripts use. A string is a list of
  characters; a character stands for the code unit of the same number, so the model covers
  the code units below 256. Letter case is changed for ASCII letters, the only ones the
  scripts' patterns \<^verbatim>\<open>[a-z0-9]\<close> and \<^verbatim>\<open>[A-Z]\<close> select.
\<close>

section \<open>Character classes\<close>

abbreviation code :: "char \<Rightarrow> nat" where
  "code c \<equiv> of_char c"

text \<open>\<^verbatim>\<open>\s\<close>, and what \<open>trim\<close> removes: tab, LF, VT, FF, CR, space and the no-break space.\<close>

definition is_space :: "char \<Rightarrow> bool" where
  "is_space c \<longleftrightarrow> code c \<in> {9, 10, 11, 12, 13, 32, 160}"

definition is_upper_char :: "char \<Rightarrow> bool" where
  "is_upper_char c \<longleftrightarrow> 65 \<le> code c \<and> code c \<le> 90"

definition is_lower_char :: "char \<Rightarrow> bool" where
  "is_lower_char c \<longleftrightarrow> 97 \<le> code c \<and> code c \<le> 122"

definition is_digit_char :: "char \<Rightarrow> bool" where
  "is_digit_char c \<longleftrightarrow> 48 \<le> code c \<and> code c \<le> 57"

text \<open>\<^verbatim>\<open>.\<close> without the \<open>s\<close> flag: anything but a line terminator.\<close>

definition is_dot :: "char \<Rightarrow> bool" where
  "is_dot c \<longleftrightarrow> code c \<noteq> 10 \<and> code c \<noteq> 13"

definition toUpperCase :: "char \<Rightarrow> char" where
  "toUpperCase c = (if is_lower_char c then char_of (code c - 32) else c)"

definition toLowerCase :: "char \<Rightarrow> char" where
  "toLowerCase c = (if is_upper_char c then char_of (code c + 32) else c)"

lemmas char_class_defs = is_space_def is_upper_char_def is_lower_char_def is_digit_char_def is_dot_def

lemma code_toLowerCase: "is_upper_char c \<Longrightarrow> code (toLowerCase c) = code c + 32"
  by (simp add: toLowerCase_def is_upper_char_def of_char_of)

lemma toUpperCase_toLowerCase [simp]: "is_upper_char c \<Longrightarrow> toUpperCase (toLowerCase c) = c"
  by (simp add: toUpperCase_def code_toLowerCase is_lower_char_def is_upper_char_def)

lemma is_lower_toLowerCase [simp]: "is_upper_char c \<Longrightarrow> is_lower_char (toLowerCase c)"
  by (simp add: code_toLowerCase is_lower_char_def is_upper_char_def)

lemma toLowerCase_idem [simp]: "toLowerCase (toLowerCase c) = toLowerCase c"
proof (cases "is_upper_char c")
  case True
  then have "\<not> is_upper_char (toLowerCase c)"
    by (simp add: is_upper_char_def code_toLowerCase)
  then show ?thesis by (simp add: toLowerCase_def [of "toLowerCase c"])
next
  case False
  then show ?thesis by (simp add: toLowerCase_def)
qed

section \<open>trim, split and join\<close>

definition trimStart :: "string \<Rightarrow> string" where
  "trimStart s = dropWhile is_space s"

definition trimEnd :: "string \<Rightarrow> string" where
  "trimEnd s = rev (dropWhile is_space (rev s))"

definition trim :: "string \<Rightarrow> string" where
  "trim s = trimEnd (trimStart s)"

text \<open>\<open>s.split(c)\<close> for a separator of one character.\<close>

fun split_on :: "char \<Rightarrow> string \<Rightarrow> string list" where
  "split_on d [] = [[]]"
| "split_on d (c # cs) =
     (if c = d then [] # split_on d cs
      else (case split_on d cs of [] \<Rightarrow> [[c]] | w # ws \<Rightarrow> (c # w) # ws))"

text \<open>\<open>parts.join(c)\<close>.\<close>

fun join_with :: "char \<Rightarrow> string list \<Rightarrow> string" where
  "join_with d [] = []"
| "join_with d [w] = w"
| "join_with d (w # ws) = w @ d # join_with d ws"

text \<open>\<^verbatim>\<open>s.split(/\s+/)\<close>: every maximal run of white space separates.\<close>

function split_spaces :: "string \<Rightarrow> string list" where
  "split_spaces [] = [[]]"
| "split_spaces (c # cs) =
     (if is_space c then [] # split_spaces (dropWhile is_space cs)
      else (case split_spaces cs of [] \<Rightarrow> [[c]] | w # ws \<Rightarrow> (c # w) # ws))"
  by pat_completeness auto
termination
  by (relation "measure length") (auto simp: le_imp_less_Suc length_dropWhile_le)

text \<open>\<^verbatim>\<open>s.replace(/\s+/g, ' ')\<close>.\<close>

function collapse_spaces :: "string \<Rightarrow> string" where
  "collapse_spaces [] = []"
| "collapse_spaces (c # cs) =
     (if is_space c then CHR '' '' # collapse_spaces (dropWhile is_space cs)
      else c # collapse_spaces cs)"
  by pat_completeness auto
termination
  by (relation "measure length") (auto simp: le_imp_less_Suc length_dropWhile_le)

lemma split_on_neq_Nil [simp]: "split_on d s \<noteq> []"
  by (cases s) (auto split: list.splits)

lemma join_with_Cons: "ws \<noteq> [] \<Longrightarrow> join_with d (w # ws) = w @ d # join_with d ws"
  by (cases ws) auto

lemma join_split_on [simp]: "join_with d (split_on d s) = s"
proof (induction s)
  case (Cons c s)
  obtain w ws where sp: "split_on d s = w # ws" by (cases "split_on d s") auto
  show ?case
  proof (cases "c = d")
    case True
    with Cons.IH show ?thesis by (simp add: join_with_Cons)
  next
    case False
    with Cons.IH sp show ?thesis by (cases ws) auto
  qed
qed simp

lemma split_on_no_sep: "d \<notin> set w \<Longrightarrow> split_on d w = [w]"
  by (induction w) auto

lemma split_on_append:
  "d \<notin> set w \<Longrightarrow> split_on d (w @ d # s) = w # split_on d s"
  by (induction w) auto

lemma split_on_join:
  "ws \<noteq> [] \<Longrightarrow> \<forall>w\<in>set ws. d \<notin> set w \<Longrightarrow> split_on d (join_with d ws) = ws"
  by (induction d ws rule: join_with.induct) (auto simp: split_on_no_sep split_on_append)

lemma split_on_parts: "w \<in> set (split_on d s) \<Longrightarrow> d \<notin> set w"
  by (induction s arbitrary: w) (auto split: if_splits list.splits)

lemma dropWhile_space_Nil: "dropWhile is_space s = [] \<longleftrightarrow> (\<forall>c\<in>set s. is_space c)"
  by (simp add: dropWhile_eq_Nil_conv)

lemma trimEnd_Nil [simp]: "trimEnd [] = []"
  by (simp add: trimEnd_def)

lemma trimEnd_snoc [simp]: "trimEnd (s @ [c]) = (if is_space c then trimEnd s else s @ [c])"
  by (simp add: trimEnd_def)

lemma trimEnd_append: "\<not> (\<forall>c\<in>set t. is_space c) \<Longrightarrow> trimEnd (s @ t) = s @ trimEnd t"
  by (induction t rule: rev_induct) (auto simp flip: append_assoc)

lemma trimEnd_spaces: "\<forall>c\<in>set t. is_space c \<Longrightarrow> trimEnd (s @ t) = trimEnd s"
  by (induction t rule: rev_induct) (auto simp flip: append_assoc)

lemma trimEnd_last: "trimEnd s \<noteq> [] \<Longrightarrow> \<not> is_space (last (trimEnd s))"
  by (induction s rule: rev_induct) auto

lemma trimEnd_idem [simp]: "trimEnd (trimEnd s) = trimEnd s"
  by (induction s rule: rev_induct) auto

lemma trimEnd_prefix: "\<exists>t. s = trimEnd s @ t \<and> (\<forall>c\<in>set t. is_space c)"
proof (induction s rule: rev_induct)
  case (snoc c s)
  then obtain t where t: "s = trimEnd s @ t" "\<forall>c\<in>set t. is_space c" by blast
  show ?case
  proof (cases "is_space c")
    case True
    with t have "s @ [c] = trimEnd (s @ [c]) @ (t @ [c])" by simp
    with t True show ?thesis by (intro exI [of _ "t @ [c]"]) simp
  qed simp
qed simp

lemma trimStart_hd: "trimStart s \<noteq> [] \<Longrightarrow> \<not> is_space (hd (trimStart s))"
  by (simp add: trimStart_def hd_dropWhile)

lemma hd_trimEnd: "trimEnd s \<noteq> [] \<Longrightarrow> hd (trimEnd s) = hd s"
  using trimEnd_prefix [of s] by (metis hd_append2)

lemma trimEnd_Nil_iff: "trimEnd s = [] \<longleftrightarrow> (\<forall>c\<in>set s. is_space c)"
  by (simp add: trimEnd_def dropWhile_space_Nil)

lemma trim_hd: "trim s \<noteq> [] \<Longrightarrow> \<not> is_space (hd (trim s))"
  by (metis hd_trimEnd trimEnd_Nil trimStart_hd trim_def)

lemma trim_last: "trim s \<noteq> [] \<Longrightarrow> \<not> is_space (last (trim s))"
  by (simp add: trim_def trimEnd_last)

lemma trimStart_id: "s = [] \<or> \<not> is_space (hd s) \<Longrightarrow> trimStart s = s"
  by (cases s) (auto simp: trimStart_def)

lemma trimEnd_id: "s = [] \<or> \<not> is_space (last s) \<Longrightarrow> trimEnd s = s"
  by (cases s rule: rev_cases) auto

lemma trim_id: "s = [] \<or> \<not> is_space (hd s) \<and> \<not> is_space (last s) \<Longrightarrow> trim s = s"
  by (auto simp: trim_def trimStart_id trimEnd_id)

lemma trim_idem [simp]: "trim (trim s) = trim s"
  by (rule trim_id) (use trim_hd trim_last in blast)

lemma trim_no_space: "\<forall>c\<in>set s. \<not> is_space c \<Longrightarrow> trim s = s"
  by (rule trim_id) (auto dest: hd_in_set last_in_set)

lemma trim_padded:
  assumes "w \<noteq> []" "\<forall>c\<in>set w. \<not> is_space c" "\<forall>c\<in>set s1. is_space c" "\<forall>c\<in>set s2. is_space c"
  shows "trim (s1 @ w @ s2) = w"
proof -
  have "trimStart (s1 @ w @ s2) = w @ s2"
    using assms(1-3) by (cases w) (simp_all add: trimStart_def dropWhile_append2)
  moreover have "trimEnd (w @ s2) = trimEnd w" using assms(4) by (rule trimEnd_spaces)
  moreover have "trimEnd w = w" using assms(1,2) by (intro trimEnd_id) auto
  ultimately show ?thesis by (simp add: trim_def)
qed

section \<open>The words of a string\<close>

text \<open>\<^verbatim>\<open>s.trim().split(/\s+/).filter(w => w.length)\<close>.\<close>

definition words :: "string \<Rightarrow> string list" where
  "words s = filter (\<lambda>w. length w \<noteq> 0) (split_spaces (trim s))"

lemma split_spaces_neq_Nil [simp]: "split_spaces s \<noteq> []"
  by (cases s) (auto split: list.splits)

lemma split_spaces_no_space: "w \<in> set (split_spaces s) \<Longrightarrow> c \<in> set w \<Longrightarrow> \<not> is_space c"
  by (induction s arbitrary: w rule: split_spaces.induct)
    (fastforce split: if_splits list.splits)+

lemma concat_split_spaces: "concat (split_spaces s) = filter (\<lambda>c. \<not> is_space c) s"
proof (induction s rule: split_spaces.induct)
  case (2 c cs)
  have drop: "filter (\<lambda>c. \<not> is_space c) (dropWhile is_space cs) = filter (\<lambda>c. \<not> is_space c) cs" for cs
    by (induction cs) auto
  show ?case
  proof (cases "is_space c")
    case True
    with 2 show ?thesis by (simp add: drop)
  next
    case False
    with 2 show ?thesis by (cases "split_spaces cs") auto
  qed
qed simp

lemma filter_trim: "filter (\<lambda>c. \<not> is_space c) (trim s) = filter (\<lambda>c. \<not> is_space c) s"
proof -
  have e: "filter (\<lambda>c. \<not> is_space c) (trimEnd s) = filter (\<lambda>c. \<not> is_space c) s" for s
    by (induction s rule: rev_induct) auto
  have "filter (\<lambda>c. \<not> is_space c) (trimStart s) = filter (\<lambda>c. \<not> is_space c) s"
    by (induction s) (auto simp: trimStart_def)
  with e show ?thesis by (simp add: trim_def)
qed

lemma concat_filter_nonempty: "concat (filter (\<lambda>w. length w \<noteq> 0) ws) = concat ws"
  by (induction ws) auto

lemma concat_words: "concat (words s) = filter (\<lambda>c. \<not> is_space c) s"
  by (simp add: words_def concat_filter_nonempty [simplified] concat_split_spaces filter_trim)

lemma words_well_formed: "w \<in> set (words s) \<Longrightarrow> w \<noteq> [] \<and> (\<forall>c\<in>set w. \<not> is_space c)"
  by (auto simp: words_def dest: split_spaces_no_space)

lemma split_spaces_no_sep: "\<forall>c\<in>set w. \<not> is_space c \<Longrightarrow> split_spaces w = [w]"
  by (induction w) auto

lemma split_spaces_append:
  "\<forall>c\<in>set w. \<not> is_space c \<Longrightarrow> is_space d \<Longrightarrow>
     split_spaces (w @ d # s) = w # split_spaces (dropWhile is_space s)"
  by (induction w) auto

lemma split_spaces_join:
  "ws \<noteq> [] \<Longrightarrow> \<forall>w\<in>set ws. w \<noteq> [] \<and> (\<forall>c\<in>set w. \<not> is_space c) \<Longrightarrow> is_space d \<Longrightarrow>
     split_spaces (join_with d ws) = ws"
proof (induction d ws rule: join_with.induct)
  case (3 d w v ws)
  have "hd (join_with d (v # ws)) = hd v" "join_with d (v # ws) \<noteq> []"
    using "3.prems" by (cases ws; auto)+
  moreover have "\<not> is_space (hd v)" using "3.prems" by auto
  ultimately have "dropWhile is_space (join_with d (v # ws)) = join_with d (v # ws)"
    by (cases "join_with d (v # ws)") auto
  with 3 show ?case by (simp add: split_spaces_append)
qed (auto simp: split_spaces_no_sep)

lemma hd_split_spaces: "hd (split_spaces s) = takeWhile (\<lambda>c. \<not> is_space c) s"
  by (induction s rule: split_spaces.induct) (auto split: list.splits)

lemma last_dropWhile_space: "s \<noteq> [] \<Longrightarrow> \<not> is_space (last s) \<Longrightarrow>
    dropWhile is_space s \<noteq> [] \<and> last (dropWhile is_space s) = last s"
  by (induction s) (auto split: if_splits)

lemma tl_split_spaces: "s = [] \<or> \<not> is_space (last s) \<Longrightarrow> [] \<notin> set (tl (split_spaces s))"
proof (induction s rule: split_spaces.induct)
  case (2 c cs)
  show ?case
  proof (cases "is_space c")
    case True
    with "2.prems" have cs: "cs \<noteq> []" "\<not> is_space (last cs)" by (auto split: if_splits)
    define r where "r = dropWhile is_space cs"
    have r: "r \<noteq> []" "\<not> is_space (last r)" "\<not> is_space (hd r)"
      using last_dropWhile_space [OF cs] cs(2) hd_dropWhile [of is_space cs] by (auto simp: r_def)
    then have "hd (split_spaces r) \<noteq> []"
      by (cases r) (simp_all only: hd_split_spaces takeWhile.simps, simp_all)
    moreover have "[] \<notin> set (tl (split_spaces r))" using 2 True r by (simp add: r_def)
    ultimately have "[] \<notin> set (split_spaces r)"
      by (cases "split_spaces r") auto
    with True show ?thesis by (simp add: r_def)
  next
    case False
    with 2 have "[] \<notin> set (tl (split_spaces cs))" by (cases cs) auto
    with False show ?thesis by (cases "split_spaces cs") auto
  qed
qed simp

lemma words_trimmed:
  assumes "s \<noteq> []" "\<not> is_space (hd s)" "\<not> is_space (last s)"
  shows "words s = split_spaces s"
proof -
  have "[] \<notin> set (tl (split_spaces s))" using assms by (intro tl_split_spaces) simp
  moreover have "hd (split_spaces s) \<noteq> []"
    unfolding hd_split_spaces using assms(1,2) by (cases s) auto
  ultimately have "\<forall>w\<in>set (split_spaces s). length w \<noteq> 0"
    by (cases "split_spaces s") auto
  with assms show ?thesis by (simp add: words_def trim_id)
qed

lemma words_trim [simp]: "words (trim s) = words s"
  by (simp add: words_def)

lemma words_Nil [simp]: "words [] = []"
  by (simp add: words_def trim_def trimStart_def)

lemma join_words_ends:
  assumes "ws \<noteq> []" "\<forall>w\<in>set ws. w \<noteq> [] \<and> (\<forall>c\<in>set w. \<not> is_space c)"
  shows "join_with d ws \<noteq> []" "\<not> is_space (hd (join_with d ws))" "\<not> is_space (last (join_with d ws))"
  using assms
proof (atomize (full), induction d ws rule: join_with.induct)
  case (3 d w v ws)
  have "join_with d (v # ws) \<noteq> []" "\<not> is_space (last (join_with d (v # ws)))"
    using 3 by auto
  moreover have "\<not> is_space (hd w)" "w \<noteq> []" using "3.prems" by auto
  ultimately show ?case by simp
qed auto

lemma words_join:
  assumes "\<forall>w\<in>set ws. w \<noteq> [] \<and> (\<forall>c\<in>set w. \<not> is_space c)" "is_space d"
  shows "words (join_with d ws) = ws"
proof (cases "ws = []")
  case False
  with assms join_words_ends [OF False assms(1), of d] show ?thesis
    by (simp add: words_trimmed split_spaces_join)
qed simp

section \<open>Collapsing white space\<close>

lemma collapse_split: "collapse_spaces s = join_with (CHR '' '') (split_spaces s)"
proof (induction s rule: collapse_spaces.induct)
  case (2 c cs)
  show ?case
  proof (cases "is_space c")
    case True
    with 2 show ?thesis by (simp add: join_with_Cons)
  next
    case False
    obtain w ws where "split_spaces cs = w # ws" by (cases "split_spaces cs") auto
    with 2 False show ?thesis by (cases ws) auto
  qed
qed simp

lemma collapse_all_space: "\<forall>c\<in>set s. is_space c \<Longrightarrow> collapse_spaces s = (if s = [] then [] else '' '')"
  by (cases s) (simp_all add: dropWhile_space_Nil [THEN iffD2])

lemma collapse_append_space:
  "t = [] \<or> \<not> is_space (last t) \<Longrightarrow> collapse_spaces (t @ sp) = collapse_spaces t @ collapse_spaces sp"
proof (induction t rule: collapse_spaces.induct)
  case (2 c cs)
  show ?case
  proof (cases "is_space c")
    case True
    with "2.prems" have cs: "cs \<noteq> []" "\<not> is_space (last cs)" by (auto split: if_splits)
    from last_dropWhile_space [OF this] cs
    have "dropWhile is_space (cs @ sp) = dropWhile is_space cs @ sp"
      by (metis dropWhile_append1 dropWhile_eq_Nil_conv)
    with 2 True cs last_dropWhile_space [OF cs] show ?thesis by simp
  next
    case False
    with 2 show ?thesis by (cases "cs = []") auto
  qed
qed simp

lemma is_space_blank [simp]: "is_space (CHR '' '')"
  by (simp add: is_space_def)

lemma trim_collapse: "trim (collapse_spaces s) = collapse_spaces (trim s)"
proof -
  let ?m = "trim s" and ?sp = "takeWhile is_space s"
  obtain e where e: "trimStart s = ?m @ e" "\<forall>c\<in>set e. is_space c"
    using trimEnd_prefix [of "trimStart s"] by (auto simp: trim_def)
  have s: "s = ?sp @ ?m @ e"
    using e(1) takeWhile_dropWhile_id [of is_space s] by (simp add: trimStart_def)
  have pre: "\<forall>c\<in>set ?sp. is_space c" by (auto dest: set_takeWhileD)
  show ?thesis
  proof (cases "?m = []")
    case True
    with s pre e(2) have "\<forall>c\<in>set s. is_space c" by (metis append_Nil Un_iff set_append)
    then show ?thesis using True by (simp add: collapse_all_space trim_def trimStart_def)
  next
    case False
    note ends = trim_hd [OF False] trim_last [OF False]
    have c1: "collapse_spaces (?m @ e) = collapse_spaces ?m @ collapse_spaces e"
      by (rule collapse_append_space) (simp add: ends)
    have c2: "collapse_spaces s = (if ?sp = [] then [] else '' '') @ collapse_spaces (?m @ e)"
    proof (cases s)
      case (Cons c cs)
      show ?thesis
      proof (cases "is_space c")
        case True
        have "dropWhile is_space cs = ?m @ e"
          using e(1) Cons True by (simp add: trimStart_def)
        with Cons True show ?thesis by simp
      next
        case F: False
        then have "?sp = []" using Cons by simp
        then show ?thesis using s by simp
      qed
    qed (use False in \<open>simp add: trim_def trimStart_def\<close>)
    have cm: "collapse_spaces ?m \<noteq> []" "\<not> is_space (hd (collapse_spaces ?m))"
      "\<not> is_space (last (collapse_spaces ?m))"
    proof -
      have "collapse_spaces ?m = join_with (CHR '' '') (words s)"
        using words_trimmed [OF False ends] by (simp add: collapse_split)
      moreover have "words s \<noteq> []"
        using words_trimmed [OF False ends] by simp
      ultimately show "collapse_spaces ?m \<noteq> []" "\<not> is_space (hd (collapse_spaces ?m))"
        "\<not> is_space (last (collapse_spaces ?m))"
        using join_words_ends [of "words s" "CHR '' ''"] words_well_formed by auto
    qed
    have st: "trimStart (collapse_spaces s) = collapse_spaces ?m @ collapse_spaces e"
      using cm by (cases "collapse_spaces ?m") (auto simp: c1 c2 trimStart_def)
    have "\<forall>c\<in>set (collapse_spaces e). is_space c"
      using e(2) by (simp add: collapse_all_space)
    then have "trim (collapse_spaces s) = trimEnd (collapse_spaces ?m)"
      by (simp add: trim_def st trimEnd_spaces)
    with cm show ?thesis by (simp add: trimEnd_id)
  qed
qed

lemma trim_collapse_words: "trim (collapse_spaces s) = join_with (CHR '' '') (words s)"
proof (cases "trim s = []")
  case True
  then have "words s = []" using words_trim [of s] by simp
  with True show ?thesis by (simp add: trim_collapse)
next
  case False
  with trim_hd trim_last words_trimmed [of "trim s"] have "words s = split_spaces (trim s)" by simp
  then show ?thesis by (simp only: trim_collapse) (simp only: collapse_split)
qed

section \<open>camelize, capitalize and dasherize\<close>

definition is_separator :: "char \<Rightarrow> bool" where
  "is_separator c \<longleftrightarrow> c = CHR ''_'' \<or> c = CHR ''-''"

text \<open>
  \<^verbatim>\<open>value.replace(/(?:[_-])([a-z0-9])/g, (_, char) => char.toUpperCase())\<close>: scanning from the
  left, a separator followed by a letter or digit is replaced by that character in upper case,
  and the scan goes on after it.
\<close>

fun camelize :: "string \<Rightarrow> string" where
  "camelize [] = []"
| "camelize [c] = [c]"
| "camelize (c # d # cs) =
     (if is_separator c \<and> (is_lower_char d \<or> is_digit_char d) then toUpperCase d # camelize cs
      else c # camelize (d # cs))"

fun capitalize :: "string \<Rightarrow> string" where
  "capitalize [] = []"
| "capitalize (c # cs) = toUpperCase c # cs"

text \<open>\<^verbatim>\<open>value.replace(/([A-Z])/g, (_, char) => "-" + char.toLowerCase())\<close>.\<close>

fun dasherize :: "string \<Rightarrow> string" where
  "dasherize [] = []"
| "dasherize (c # cs) =
     (if is_upper_char c then CHR ''-'' # toLowerCase c # dasherize cs else c # dasherize cs)"

lemma dasherize_append: "dasherize (s @ t) = dasherize s @ dasherize t"
  by (induction s) auto

lemma upper_not_separator: "is_upper_char c \<Longrightarrow> \<not> is_separator c"
  by (auto simp: is_upper_char_def is_separator_def)

lemma camelize_not_separator: "\<not> is_separator c \<Longrightarrow> camelize (c # cs) = c # camelize cs"
  by (cases cs) auto

lemma camelize_dasherize_append:
  "\<forall>c\<in>set s. \<not> is_separator c \<Longrightarrow> camelize (dasherize s @ t) = s @ camelize t"
proof (induction s)
  case (Cons c s)
  then show ?case
    by (cases "is_upper_char c") (simp_all add: camelize_not_separator is_separator_def)
qed simp

lemma camelize_dasherize: "\<forall>c\<in>set s. \<not> is_separator c \<Longrightarrow> camelize (dasherize s) = s"
  using camelize_dasherize_append [of s "[]"] by simp

text \<open>Attribute names are compared without regard to case in HTML documents.\<close>

definition asciiLower :: "string \<Rightarrow> string" where
  "asciiLower s = map toLowerCase s"

lemma asciiLower_idem [simp]: "asciiLower (asciiLower s) = asciiLower s"
  by (simp add: asciiLower_def)

lemma asciiLower_append [simp]: "asciiLower (s @ t) = asciiLower s @ asciiLower t"
  by (simp add: asciiLower_def)

lemma asciiLower_dasherize: "asciiLower (dasherize s) = dasherize s \<longleftrightarrow> True"
proof (induction s)
  case (Cons c s)
  have "toLowerCase (CHR ''-'') = CHR ''-''" by (simp add: toLowerCase_def is_upper_char_def)
  with Cons show ?case by (simp add: asciiLower_def) (simp add: toLowerCase_def)
qed (simp add: asciiLower_def)

end
