(* ===== verification/Dom.thy ===== *)
theory Dom
  imports JsString
begin

text \<open>
  The part of the document object model the scripts use. A document is a tree of elements and
  the trees that are not (or no longer) attached to it; an element is known by a number that no
  other element has. The names of attributes are kept in lower case, as in an HTML document,
  and the functions that take a name put it in lower case first.
\<close>

section \<open>Elements and documents\<close>

datatype node = Node (nid: nat) (ntag: string) (nattrs: "(string \<times> string) list") (nkids: "node list")

record document =
  root :: node
  detached :: "node list"

text \<open>An element and its descendants in document order.\<close>

fun nodes :: "node \<Rightarrow> node list" where
  "nodes (Node i t a ks) = Node i t a ks # concat (map nodes ks)"

definition ids :: "node \<Rightarrow> nat list" where
  "ids n = map nid (nodes n)"

definition trees :: "document \<Rightarrow> node list" where
  "trees doc = root doc # detached doc"

definition all_nodes :: "document \<Rightarrow> node list" where
  "all_nodes doc = concat (map nodes (trees doc))"

definition document_wf :: "document \<Rightarrow> bool" where
  "document_wf doc \<longleftrightarrow> distinct (map nid (all_nodes doc))"

definition get_node :: "document \<Rightarrow> nat \<Rightarrow> node option" where
  "get_node doc i = List.find (\<lambda>n. nid n = i) (all_nodes doc)"

text \<open>The element itself, its parent, and so on up to the root of its tree.\<close>

fun path_to :: "nat \<Rightarrow> node \<Rightarrow> node list" where
  "path_to j (Node i t a ks) =
     (if i = j then [Node i t a ks]
      else (case concat (map (path_to j) ks) of [] \<Rightarrow> [] | p # ps \<Rightarrow> (p # ps) @ [Node i t a ks]))"

definition inclusive_ancestors :: "document \<Rightarrow> nat \<Rightarrow> node list" where
  "inclusive_ancestors doc i = concat (map (path_to i) (trees doc))"

section \<open>Attributes and selectors\<close>

definition node_attribute :: "node \<Rightarrow> string \<Rightarrow> string option" where
  "node_attribute n name = Map_get (nattrs n) (asciiLower name)"

definition getAttribute :: "document \<Rightarrow> nat \<Rightarrow> string \<Rightarrow> string option" where
  "getAttribute doc i name =
     (case get_node doc i of None \<Rightarrow> None | Some n \<Rightarrow> node_attribute n name)"

definition hasAttribute :: "document \<Rightarrow> nat \<Rightarrow> string \<Rightarrow> bool" where
  "hasAttribute doc i name \<longleftrightarrow> getAttribute doc i name \<noteq> None"

definition attributeNames :: "document \<Rightarrow> nat \<Rightarrow> string list" where
  "attributeNames doc i = (case get_node doc i of None \<Rightarrow> [] | Some n \<Rightarrow> map fst (nattrs n))"

definition tagName :: "document \<Rightarrow> nat \<Rightarrow> string" where
  "tagName doc i = (case get_node doc i of None \<Rightarrow> [] | Some n \<Rightarrow> ntag n)"

fun update_node :: "nat \<Rightarrow> (node \<Rightarrow> node) \<Rightarrow> node \<Rightarrow> node" where
  "update_node j f (Node i t a ks) =
     (if i = j then f (Node i t a ks) else Node i t a (map (update_node j f) ks))"

definition update_document :: "nat \<Rightarrow> (node \<Rightarrow> node) \<Rightarrow> document \<Rightarrow> document" where
  "update_document i f doc =
     doc\<lparr>root := update_node i f (root doc), detached := map (update_node i f) (detached doc)\<rparr>"

definition with_attrs :: "((string \<times> string) list \<Rightarrow> (string \<times> string) list) \<Rightarrow> node \<Rightarrow> node" where
  "with_attrs f n = Node (nid n) (ntag n) (f (nattrs n)) (nkids n)"

definition setAttribute :: "nat \<Rightarrow> string \<Rightarrow> string \<Rightarrow> document \<Rightarrow> document" where
  "setAttribute i name v = update_document i (with_attrs (Map_set (asciiLower name) v))"

definition removeAttribute :: "nat \<Rightarrow> string \<Rightarrow> document \<Rightarrow> document" where
  "removeAttribute i name = update_document i (with_attrs (Map_delete (asciiLower name)))"

text \<open>
  The selectors the scripts build: \<^verbatim>\<open>[name]\<close> and \<^verbatim>\<open>[name~="word"]\<close>. The second one
  asks for one of the words of the value, which CSS separates by ASCII white space.
\<close>

datatype selector = Has_attribute string | Has_word string string

definition css_space :: "char \<Rightarrow> bool" where
  "css_space c \<longleftrightarrow> code c \<in> {9, 10, 12, 13, 32}"

fun css_split :: "string \<Rightarrow> string list" where
  "css_split [] = [[]]"
| "css_split (c # cs) =
     (if css_space c then [] # css_split cs
      else (case css_split cs of [] \<Rightarrow> [[c]] | w # ws \<Rightarrow> (c # w) # ws))"

definition css_words :: "string \<Rightarrow> string list" where
  "css_words s = filter (\<lambda>w. w \<noteq> []) (css_split s)"

fun node_matches :: "selector \<Rightarrow> node \<Rightarrow> bool" where
  "node_matches (Has_attribute name) n = (node_attribute n name \<noteq> None)"
| "node_matches (Has_word name w) n =
     (case node_attribute n name of None \<Rightarrow> False | Some v \<Rightarrow> w \<in> set (css_words v))"

definition matches :: "document \<Rightarrow> nat \<Rightarrow> selector \<Rightarrow> bool" where
  "matches doc i sel = (case get_node doc i of None \<Rightarrow> False | Some n \<Rightarrow> node_matches sel n)"

definition querySelectorAll :: "document \<Rightarrow> nat \<Rightarrow> selector \<Rightarrow> nat list" where
  "querySelectorAll doc i sel =
     (case get_node doc i of
        None \<Rightarrow> []
      | Some n \<Rightarrow> filter (\<lambda>j. matches doc j sel) (tl (ids n)))"

definition closest :: "document \<Rightarrow> nat \<Rightarrow> selector \<Rightarrow> nat option" where
  "closest doc i sel = map_option nid (List.find (node_matches sel) (inclusive_ancestors doc i))"

definition contains :: "document \<Rightarrow> nat \<Rightarrow> nat \<Rightarrow> bool" where
  "contains doc i j = (case get_node doc i of None \<Rightarrow> False | Some n \<Rightarrow> j \<in> set (ids n))"

definition isConnected :: "document \<Rightarrow> nat \<Rightarrow> bool" where
  "isConnected doc i \<longleftrightarrow> i \<in> set (ids (root doc))"

section \<open>Lemmas\<close>

lemma nodes_self [simp]: "n \<in> set (nodes n)"
  by (cases n) simp

lemma ids_self [simp]: "nid n \<in> set (ids n)"
  by (simp add: ids_def)

lemma nodes_neq_Nil [simp]: "nodes n \<noteq> []"
  by (cases n) simp

lemma hd_nodes [simp]: "hd (nodes n) = n"
  by (cases n) simp

lemma nodes_trans: "n \<in> set (nodes m) \<Longrightarrow> k \<in> set (nodes n) \<Longrightarrow> k \<in> set (nodes m)"
  by (induction m rule: nodes.induct) auto

lemma get_node_SomeD: "get_node doc i = Some n \<Longrightarrow> n \<in> set (all_nodes doc) \<and> nid n = i"
  by (auto simp: get_node_def find_Some_iff)

lemma get_node_iff:
  assumes "document_wf doc"
  shows "get_node doc i = Some n \<longleftrightarrow> n \<in> set (all_nodes doc) \<and> nid n = i"
proof
  assume n: "n \<in> set (all_nodes doc) \<and> nid n = i"
  then obtain m where m: "get_node doc i = Some m"
    by (cases "get_node doc i") (auto simp: get_node_def find_None_iff)
  with n get_node_SomeD [OF m] assms have "m = n"
    by (auto simp: document_wf_def distinct_map inj_on_def)
  with m show "get_node doc i = Some n" by simp
qed (rule get_node_SomeD)

lemma get_node_in_tree:
  assumes "document_wf doc" "t \<in> set (trees doc)" "n \<in> set (nodes t)"
  shows "get_node doc (nid n) = Some n"
  using assms by (auto simp: get_node_iff all_nodes_def)

lemma get_node_below:
  assumes "document_wf doc" "get_node doc i = Some n" "m \<in> set (nodes n)"
  shows "get_node doc (nid m) = Some m"
  using get_node_SomeD [OF assms(2)] assms(1,3) nodes_trans
  by (fastforce simp: get_node_iff [OF assms(1)] all_nodes_def)

lemma contains_refl: "get_node doc i = Some n \<Longrightarrow> contains doc i i"
  using get_node_SomeD [of doc i n] by (auto simp: contains_def)

lemma distinct_map_nodesD:
  "distinct (map nid (concat (map nodes ks))) \<Longrightarrow> k \<in> set ks \<Longrightarrow> distinct (map nid (nodes k))"
  by (induction ks) auto

lemma distinct_subtree:
  "n \<in> set (nodes m) \<Longrightarrow> distinct (map nid (nodes m)) \<Longrightarrow> distinct (map nid (nodes n))"
  by (induction m rule: nodes.induct) (auto dest: distinct_map_nodesD)

lemma distinct_ids:
  assumes "document_wf doc" "get_node doc i = Some n"
  shows "distinct (map nid (nodes n))"
proof -
  obtain t where "t \<in> set (trees doc)" "n \<in> set (nodes t)"
    using get_node_SomeD [OF assms(2)] by (auto simp: all_nodes_def)
  with assms(1) show ?thesis
    by (auto simp: document_wf_def all_nodes_def intro: distinct_subtree distinct_map_nodesD)
qed

lemma hasAttribute_matches: "hasAttribute doc i name = matches doc i (Has_attribute name)"
  by (auto simp: hasAttribute_def getAttribute_def matches_def split: option.splits)

lemma set_querySelectorAll:
  assumes "document_wf doc"
  shows "set (querySelectorAll doc i sel) = {j. j \<noteq> i \<and> contains doc i j \<and> matches doc j sel}"
proof (cases "get_node doc i")
  case (Some n)
  have "distinct (map nid (nodes n))" by (rule distinct_ids [OF assms Some])
  then show ?thesis
    using get_node_SomeD [OF Some]
    by (cases n) (auto simp: querySelectorAll_def Some contains_def ids_def)
qed (simp add: querySelectorAll_def contains_def)

lemma querySelectorAll_matches: "j \<in> set (querySelectorAll doc i sel) \<Longrightarrow> matches doc j sel"
  by (auto simp: querySelectorAll_def split: option.splits)

section \<open>Changing an attribute\<close>

definition node_attrs :: "node \<Rightarrow> nat \<times> (string \<times> string) list" where
  "node_attrs n = (nid n, nattrs n)"

lemma getAttribute_alt:
  "getAttribute doc i name =
     (case map_of (map node_attrs (all_nodes doc)) i of None \<Rightarrow> None
      | Some as \<Rightarrow> Map_get as (asciiLower name))"
proof -
  have "map_of (map node_attrs ns) i = map_option nattrs (List.find (\<lambda>n. nid n = i) ns)" for ns
    by (induction ns) (auto simp: node_attrs_def)
  then show ?thesis
    by (simp add: getAttribute_def get_node_def node_attribute_def split: option.split)
qed

lemma update_node_unchanged: "i \<notin> set (ids n) \<Longrightarrow> update_node i f n = n"
proof (induction n rule: nodes.induct)
  case (1 j t a ks)
  then have "\<forall>k\<in>set ks. update_node i f k = k" by (auto simp: ids_def)
  then show ?case using "1.prems" by (simp add: ids_def map_idI)
qed

definition change_attrs ::
    "nat \<Rightarrow> ((string \<times> string) list \<Rightarrow> (string \<times> string) list) \<Rightarrow> node \<Rightarrow> nat \<times> (string \<times> string) list" where
  "change_attrs i f n = (nid n, if nid n = i then f (nattrs n) else nattrs n)"

lemma node_attrs_update:
  assumes "distinct (map nid (nodes n))"
  shows "map node_attrs (nodes (update_node i (with_attrs f) n)) = map (change_attrs i f) (nodes n)"
  using assms
proof (induction n rule: nodes.induct)
  case (1 j t a ks)
  show ?case
  proof (cases "j = i")
    case True
    then have "\<forall>n\<in>set (concat (map nodes ks)). nid n \<noteq> i" using "1.prems" by auto
    then have "map node_attrs (concat (map nodes ks)) = map (change_attrs i f) (concat (map nodes ks))"
      by (intro map_cong) (auto simp: node_attrs_def change_attrs_def)
    moreover have "node_attrs (with_attrs f (Node j t a ks)) = change_attrs i f (Node j t a ks)"
      using True by (simp add: node_attrs_def change_attrs_def with_attrs_def)
    ultimately show ?thesis using True by (simp add: with_attrs_def)
  next
    case False
    have "map (\<lambda>k. map node_attrs (nodes (update_node i (with_attrs f) k))) ks =
        map (\<lambda>k. map (change_attrs i f) (nodes k)) ks"
      using 1 by (auto dest: distinct_map_nodesD)
    with False show ?thesis
      by (simp add: map_concat comp_def cong: map_cong) (simp add: node_attrs_def change_attrs_def)
  qed
qed

lemma all_nodes_update:
  assumes "document_wf doc"
  shows "map node_attrs (all_nodes (update_document i (with_attrs f) doc)) =
     map (change_attrs i f) (all_nodes doc)"
proof -
  have "map (\<lambda>k. map node_attrs (nodes (update_node i (with_attrs f) k))) (trees doc) =
      map (\<lambda>k. map (change_attrs i f) (nodes k)) (trees doc)"
    using assms by (auto simp: document_wf_def all_nodes_def intro!: node_attrs_update dest: distinct_map_nodesD)
  moreover have "trees (update_document i (with_attrs f) doc) = map (update_node i (with_attrs f)) (trees doc)"
    by (simp add: trees_def update_document_def)
  ultimately show ?thesis by (simp add: all_nodes_def map_concat comp_def cong: map_cong)
qed

lemma getAttribute_update:
  assumes "document_wf doc"
  shows "getAttribute (update_document i (with_attrs f) doc) j name =
     (case map_of (map node_attrs (all_nodes doc)) j of None \<Rightarrow> None
      | Some as \<Rightarrow> Map_get (if j = i then f as else as) (asciiLower name))"
proof -
  have "map_of (map (change_attrs i f) ns) j =
      map_option (\<lambda>as. if j = i then f as else as) (map_of (map node_attrs ns) j)" for ns
    by (induction ns) (auto simp: change_attrs_def node_attrs_def)
  then show ?thesis
    unfolding getAttribute_alt all_nodes_update [OF assms] by (simp split: option.split)
qed

lemma get_node_map_of: "get_node doc i \<noteq> None \<longleftrightarrow> map_of (map node_attrs (all_nodes doc)) i \<noteq> None"
  by (auto simp: get_node_def find_None_iff map_of_eq_None_iff node_attrs_def image_iff)

lemma getAttribute_setAttribute:
  assumes "document_wf doc" "get_node doc i \<noteq> None"
  shows "getAttribute (setAttribute i name v doc) j name' =
     (if j = i \<and> asciiLower name' = asciiLower name then Some v else getAttribute doc j name')"
  using assms(2) unfolding setAttribute_def getAttribute_update [OF assms(1)] get_node_map_of
  by (auto simp: getAttribute_alt split: option.split)

lemma getAttribute_removeAttribute:
  assumes "document_wf doc"
  shows "getAttribute (removeAttribute i name doc) j name' =
     (if j = i \<and> asciiLower name' = asciiLower name then None else getAttribute doc j name')"
  unfolding removeAttribute_def getAttribute_update [OF assms]
  by (auto simp: getAttribute_alt split: option.split)

lemma ids_update [simp]: "ids (update_node i (with_attrs f) n) = ids n"
proof (induction n rule: nodes.induct)
  case (1 j t a ks)
  then show ?case
    by (auto simp: ids_def with_attrs_def map_concat comp_def intro!: arg_cong [where f = concat])
qed

lemma update_document_wf:
  "document_wf (update_document i (with_attrs f) doc) = document_wf doc"
proof -
  have ids: "ids = (\<lambda>n. map nid (nodes n))" by (rule ext) (simp add: ids_def)
  have all: "map nid (all_nodes doc) = concat (map ids (trees doc))" for doc
    by (simp add: all_nodes_def map_concat ids comp_def)
  have "map ids (trees (update_document i (with_attrs f) doc)) = map ids (trees doc)"
    by (simp add: trees_def update_document_def)
  then show ?thesis unfolding document_wf_def all by (simp only:)
qed

lemma isConnected_update [simp]:
  "isConnected (update_document i (with_attrs f) doc) e = isConnected doc e"
  by (simp add: isConnected_def update_document_def)

lemma nid_update [simp]: "nid (update_node i (with_attrs f) n) = nid n"
  by (cases n) (simp add: with_attrs_def)

lemma isConnected_get_node: "isConnected doc e \<Longrightarrow> get_node doc e \<noteq> None"
  by (auto simp: isConnected_def ids_def get_node_def find_None_iff all_nodes_def trees_def)

lemma getAttribute_absent:
  assumes "document_wf doc" "get_node doc e = None"
  shows "getAttribute (setAttribute e name v doc) x n = getAttribute doc x n"
proof -
  have none: "map_of (map node_attrs (all_nodes doc)) e = None"
    using get_node_map_of assms(2) by metis
  show ?thesis
    unfolding setAttribute_def getAttribute_update [OF assms(1)] getAttribute_alt [of doc]
    using none by (cases "x = e") (simp_all split: option.split)
qed

end
