(* ===== verification/Scope.thy ===== *)
theory Scope
  imports Dom
begin

text \<open>
  The classes \<open>Scope\<close>, \<open>TargetSet\<close>, \<open>ClassMap\<close>, \<open>DataMap\<close> and \<open>Guide\<close> of
  \<^verbatim>\<open>src/gui/web/assets/scripts/stimulus.js\<close> (lines 1379-1643): what a controller reaches
  from its element. A \<open>Guide\<close> warns once per element and key; its state (and the log it
  writes to) is threaded through the queries that may find a deprecated target.
\<close>

section \<open>Schema and scopes\<close>

record schema =
  controllerAttribute :: string
  actionAttribute :: string
  targetAttribute :: string

definition defaultSchema :: schema where
  "defaultSchema = \<lparr>controllerAttribute = ''data-controller'', actionAttribute = ''data-action'',
     targetAttribute = ''data-target''\<rparr>"

text \<open>A scope is the one object the \<open>ScopeObserver\<close> makes for an element and an identifier.\<close>

record scope =
  scope_element :: nat
  scope_identifier :: string

definition attributeValueContainsToken :: "string \<Rightarrow> string \<Rightarrow> selector" where
  "attributeValueContainsToken attributeName token = Has_word attributeName token"

definition Scope_controllerSelector :: "schema \<Rightarrow> scope \<Rightarrow> selector" where
  "Scope_controllerSelector sch sc =
     attributeValueContainsToken (controllerAttribute sch) (scope_identifier sc)"

definition Scope_containsElement :: "schema \<Rightarrow> document \<Rightarrow> scope \<Rightarrow> nat \<Rightarrow> bool" where
  "Scope_containsElement sch doc sc e \<longleftrightarrow>
     closest doc e (Scope_controllerSelector sch sc) = Some (scope_element sc)"

definition Scope_queryElements :: "document \<Rightarrow> scope \<Rightarrow> selector \<Rightarrow> nat list" where
  "Scope_queryElements doc sc sel = querySelectorAll doc (scope_element sc) sel"

definition Scope_findElement :: "schema \<Rightarrow> document \<Rightarrow> scope \<Rightarrow> selector \<Rightarrow> nat option" where
  "Scope_findElement sch doc sc sel =
     (if matches doc (scope_element sc) sel then Some (scope_element sc)
      else List.find (Scope_containsElement sch doc sc) (Scope_queryElements doc sc sel))"

definition Scope_findAllElements :: "schema \<Rightarrow> document \<Rightarrow> scope \<Rightarrow> selector \<Rightarrow> nat list" where
  "Scope_findAllElements sch doc sc sel =
     (if matches doc (scope_element sc) sel then [scope_element sc] else []) @
     filter (Scope_containsElement sch doc sc) (Scope_queryElements doc sc sel)"

definition head_option :: "'a list \<Rightarrow> 'a option" where
  "head_option xs = (case xs of [] \<Rightarrow> None | x # _ \<Rightarrow> Some x)"

lemma head_option_simps [simp]: "head_option [] = None" "head_option (x # xs) = Some x"
  by (simp_all add: head_option_def)

lemma head_option_append:
  "head_option (xs @ ys) = (case head_option xs of None \<Rightarrow> head_option ys | Some x \<Rightarrow> Some x)"
  by (cases xs) simp_all

lemma findElement_head: "Scope_findElement sch doc sc sel = head_option (Scope_findAllElements sch doc sc sel)"
  by (simp add: Scope_findElement_def Scope_findAllElements_def find_eq_hd_filter head_option_def)

section \<open>The class Guide\<close>

record guide =
  warnedKeysByObject :: "(nat \<times> string list) list"
  warnings :: "(nat \<times> string \<times> string) list"

definition Guide_new :: guide where
  "Guide_new = \<lparr>warnedKeysByObject = [], warnings = []\<rparr>"

text \<open>The log also keeps the key of each warning.\<close>

definition Guide_warn :: "nat \<Rightarrow> string \<Rightarrow> string \<Rightarrow> guide \<Rightarrow> guide" where
  "Guide_warn object key message g =
     (let (g, warnedKeys) =
            (case Map_get (warnedKeysByObject g) object of
               None \<Rightarrow> (g\<lparr>warnedKeysByObject := Map_set object [] (warnedKeysByObject g)\<rparr>, [])
             | Some warnedKeys \<Rightarrow> (g, warnedKeys))
      in if key \<notin> set warnedKeys then
           g\<lparr>warnedKeysByObject := Map_set object (Set_add key warnedKeys) (warnedKeysByObject g),
             warnings := warnings g @ [(object, key, message)]\<rparr>
         else g)"

definition warned :: "guide \<Rightarrow> nat \<Rightarrow> string \<Rightarrow> bool" where
  "warned g object key \<longleftrightarrow>
     (case Map_get (warnedKeysByObject g) object of None \<Rightarrow> False | Some ks \<Rightarrow> key \<in> set ks)"

definition guide_ok :: "guide \<Rightarrow> bool" where
  "guide_ok g \<longleftrightarrow> distinct (map (\<lambda>(e, key, _). (e, key)) (warnings g)) \<and>
     (\<forall>e key. warned g e key \<longleftrightarrow> (e, key) \<in> set (map (\<lambda>(e, key, _). (e, key)) (warnings g)))"

lemma guide_ok_new [simp]: "guide_ok Guide_new"
  by (simp add: guide_ok_def Guide_new_def warned_def)

lemma Guide_warn_ok:
  assumes "guide_ok g"
  shows "guide_ok (Guide_warn e key message g)"
proof -
  let ?g = "Guide_warn e key message g"
  have w: "warned ?g e' k \<longleftrightarrow> warned g e' k \<or> (e', k) = (e, key)" for e' k
    by (auto simp: Guide_warn_def warned_def Let_def split: option.splits if_splits)
  have l: "warnings ?g = warnings g @ (if warned g e key then [] else [(e, key, message)])"
    by (auto simp: Guide_warn_def warned_def Let_def split: option.splits)
  show ?thesis
    using assms unfolding guide_ok_def w l by simp blast
qed

section \<open>The class TargetSet\<close>

definition TargetSet_getSelectorForTargetName :: "scope \<Rightarrow> string \<Rightarrow> selector" where
  "TargetSet_getSelectorForTargetName sc targetName =
     (let attributeName = ''data-'' @ scope_identifier sc @ ''-target''
      in attributeValueContainsToken attributeName targetName)"

definition TargetSet_getLegacySelectorForTargetName :: "schema \<Rightarrow> scope \<Rightarrow> string \<Rightarrow> selector" where
  "TargetSet_getLegacySelectorForTargetName sch sc targetName =
     (let targetDescriptor = scope_identifier sc @ ''.'' @ targetName
      in attributeValueContainsToken (targetAttribute sch) targetDescriptor)"

definition TargetSet_findTarget :: "schema \<Rightarrow> document \<Rightarrow> scope \<Rightarrow> string \<Rightarrow> nat option" where
  "TargetSet_findTarget sch doc sc targetName =
     Scope_findElement sch doc sc (TargetSet_getSelectorForTargetName sc targetName)"

definition TargetSet_findAllTargets :: "schema \<Rightarrow> document \<Rightarrow> scope \<Rightarrow> string \<Rightarrow> nat list" where
  "TargetSet_findAllTargets sch doc sc targetName =
     Scope_findAllElements sch doc sc (TargetSet_getSelectorForTargetName sc targetName)"

definition deprecation :: "schema \<Rightarrow> scope \<Rightarrow> string \<Rightarrow> string" where
  "deprecation sch sc targetName =
     ''Please replace '' @ targetAttribute sch @ ''=\"'' @ scope_identifier sc @ ''.'' @ targetName @
     ''\" with data-'' @ scope_identifier sc @ ''-target=\"'' @ targetName @ ''\". '' @
     ''The '' @ targetAttribute sch @
     '' attribute is deprecated and will be removed in a future version of Stimulus.''"

definition TargetSet_deprecate ::
    "schema \<Rightarrow> scope \<Rightarrow> nat option \<Rightarrow> string \<Rightarrow> guide \<Rightarrow> guide \<times> nat option" where
  "TargetSet_deprecate sch sc e targetName g =
     (case e of
        None \<Rightarrow> (g, None)
      | Some element \<Rightarrow>
          (Guide_warn element (''target:'' @ targetName) (deprecation sch sc targetName) g, Some element))"

definition TargetSet_findLegacyTarget ::
    "schema \<Rightarrow> document \<Rightarrow> scope \<Rightarrow> string \<Rightarrow> guide \<Rightarrow> guide \<times> nat option" where
  "TargetSet_findLegacyTarget sch doc sc targetName g =
     TargetSet_deprecate sch sc
       (Scope_findElement sch doc sc (TargetSet_getLegacySelectorForTargetName sch sc targetName)) targetName g"

fun deprecate_all :: "schema \<Rightarrow> scope \<Rightarrow> string \<Rightarrow> nat list \<Rightarrow> guide \<Rightarrow> guide \<times> nat list" where
  "deprecate_all sch sc targetName [] g = (g, [])"
| "deprecate_all sch sc targetName (e # es) g =
     (let (g, _) = TargetSet_deprecate sch sc (Some e) targetName g;
          (g, es) = deprecate_all sch sc targetName es g
      in (g, e # es))"

definition TargetSet_findAllLegacyTargets ::
    "schema \<Rightarrow> document \<Rightarrow> scope \<Rightarrow> string \<Rightarrow> guide \<Rightarrow> guide \<times> nat list" where
  "TargetSet_findAllLegacyTargets sch doc sc targetName g =
     deprecate_all sch sc targetName
       (Scope_findAllElements sch doc sc (TargetSet_getLegacySelectorForTargetName sch sc targetName)) g"

text \<open>\<open>find\<close> looks for a legacy target only when there is no other one, and stops at the first hit.\<close>

fun find_from :: "schema \<Rightarrow> document \<Rightarrow> scope \<Rightarrow> nat option \<Rightarrow> string list \<Rightarrow> guide \<Rightarrow> guide \<times> nat option" where
  "find_from sch doc sc target [] g = (g, target)"
| "find_from sch doc sc target (name # names) g =
     (case target of
        Some e \<Rightarrow> find_from sch doc sc (Some e) names g
      | None \<Rightarrow>
          (case TargetSet_findTarget sch doc sc name of
             Some e \<Rightarrow> find_from sch doc sc (Some e) names g
           | None \<Rightarrow>
               (let (g, target) = TargetSet_findLegacyTarget sch doc sc name g
                in find_from sch doc sc target names g)))"

definition TargetSet_find :: "schema \<Rightarrow> document \<Rightarrow> scope \<Rightarrow> string list \<Rightarrow> guide \<Rightarrow> guide \<times> nat option" where
  "TargetSet_find sch doc sc targetNames g = find_from sch doc sc None targetNames g"

fun find_all_from :: "schema \<Rightarrow> document \<Rightarrow> scope \<Rightarrow> nat list \<Rightarrow> string list \<Rightarrow> guide \<Rightarrow> guide \<times> nat list" where
  "find_all_from sch doc sc targets [] g = (g, targets)"
| "find_all_from sch doc sc targets (name # names) g =
     (let (g, legacy) = TargetSet_findAllLegacyTargets sch doc sc name g
      in find_all_from sch doc sc (targets @ TargetSet_findAllTargets sch doc sc name @ legacy) names g)"

definition TargetSet_findAll :: "schema \<Rightarrow> document \<Rightarrow> scope \<Rightarrow> string list \<Rightarrow> guide \<Rightarrow> guide \<times> nat list" where
  "TargetSet_findAll sch doc sc targetNames g = find_all_from sch doc sc [] targetNames g"

definition TargetSet_has :: "schema \<Rightarrow> document \<Rightarrow> scope \<Rightarrow> string \<Rightarrow> guide \<Rightarrow> guide \<times> bool" where
  "TargetSet_has sch doc sc targetName g =
     (let (g, target) = TargetSet_find sch doc sc [targetName] g in (g, target \<noteq> None))"

text \<open>What the queries find, apart from the warnings.\<close>

definition targets_named :: "schema \<Rightarrow> document \<Rightarrow> scope \<Rightarrow> string \<Rightarrow> nat list" where
  "targets_named sch doc sc name =
     Scope_findAllElements sch doc sc (TargetSet_getSelectorForTargetName sc name) @
     Scope_findAllElements sch doc sc (TargetSet_getLegacySelectorForTargetName sch sc name)"

lemma deprecate_all_snd [simp]: "snd (deprecate_all sch sc name es g) = es"
  by (induction es arbitrary: g) (auto simp: Let_def split_beta)

lemma find_all_from_snd:
  "snd (find_all_from sch doc sc targets names g) = targets @ concat (map (targets_named sch doc sc) names)"
  by (induction names arbitrary: targets g)
    (simp_all add: Let_def split_beta TargetSet_findAllTargets_def TargetSet_findAllLegacyTargets_def
      targets_named_def)

lemma find_from_Some [simp]: "find_from sch doc sc (Some e) names g = (g, Some e)"
  by (induction names) simp_all

lemma find_from_snd:
  "snd (find_from sch doc sc None names g) = head_option (concat (map (targets_named sch doc sc) names))"
proof (induction names arbitrary: g)
  case (Cons name names)
  let ?new = "Scope_findAllElements sch doc sc (TargetSet_getSelectorForTargetName sc name)"
  let ?legacy = "Scope_findAllElements sch doc sc (TargetSet_getLegacySelectorForTargetName sch sc name)"
  have n: "TargetSet_findTarget sch doc sc name = head_option ?new"
    by (simp add: TargetSet_findTarget_def findElement_head)
  show ?case
  proof (cases ?new)
    case Nil
    then have "targets_named sch doc sc name = ?legacy" by (simp add: targets_named_def)
    with n Nil Cons.IH show ?thesis
      by (cases ?legacy)
        (simp_all add: TargetSet_findLegacyTarget_def TargetSet_deprecate_def findElement_head)
  qed (use n in \<open>simp add: targets_named_def\<close>)
qed simp

lemma deprecate_ok: "guide_ok g \<Longrightarrow> guide_ok (fst (TargetSet_deprecate sch sc e name g))"
  by (simp add: TargetSet_deprecate_def Guide_warn_ok split: option.split)

lemma deprecate_all_ok: "guide_ok g \<Longrightarrow> guide_ok (fst (deprecate_all sch sc name es g))"
  by (induction es arbitrary: g) (simp_all add: Let_def split_beta deprecate_ok)

lemma find_from_ok: "guide_ok g \<Longrightarrow> guide_ok (fst (find_from sch doc sc target names g))"
proof (induction names arbitrary: target g)
  case (Cons name names)
  then show ?case
    by (cases target; cases "TargetSet_findTarget sch doc sc name")
      (simp_all add: split_beta Let_def TargetSet_findLegacyTarget_def deprecate_ok)
qed simp

lemma find_all_from_ok: "guide_ok g \<Longrightarrow> guide_ok (fst (find_all_from sch doc sc targets names g))"
  by (induction names arbitrary: targets g)
    (simp_all add: split_beta Let_def TargetSet_findAllLegacyTargets_def deprecate_all_ok)

section \<open>The classes DataMap and ClassMap\<close>

definition DataMap_getAttributeNameForKey :: "scope \<Rightarrow> string \<Rightarrow> string" where
  "DataMap_getAttributeNameForKey sc key = ''data-'' @ scope_identifier sc @ ''-'' @ dasherize key"

definition DataMap_get :: "document \<Rightarrow> scope \<Rightarrow> string \<Rightarrow> string option" where
  "DataMap_get doc sc key =
     (let name = DataMap_getAttributeNameForKey sc key in getAttribute doc (scope_element sc) name)"

definition DataMap_set :: "scope \<Rightarrow> string \<Rightarrow> string \<Rightarrow> document \<Rightarrow> document \<times> string option" where
  "DataMap_set sc key v doc =
     (let name = DataMap_getAttributeNameForKey sc key;
          doc = setAttribute (scope_element sc) name v doc
      in (doc, DataMap_get doc sc key))"

definition DataMap_has :: "document \<Rightarrow> scope \<Rightarrow> string \<Rightarrow> bool" where
  "DataMap_has doc sc key =
     (let name = DataMap_getAttributeNameForKey sc key in hasAttribute doc (scope_element sc) name)"

definition DataMap_delete :: "scope \<Rightarrow> string \<Rightarrow> document \<Rightarrow> document \<times> bool" where
  "DataMap_delete sc key doc =
     (if DataMap_has doc sc key then
        (let name = DataMap_getAttributeNameForKey sc key
         in (removeAttribute (scope_element sc) name doc, True))
      else (doc, False))"

definition ClassMap_getDataKey :: "string \<Rightarrow> string" where
  "ClassMap_getDataKey name = name @ ''-class''"

definition ClassMap_has :: "document \<Rightarrow> scope \<Rightarrow> string \<Rightarrow> bool" where
  "ClassMap_has doc sc name = DataMap_has doc sc (ClassMap_getDataKey name)"

definition ClassMap_get :: "document \<Rightarrow> scope \<Rightarrow> string \<Rightarrow> string option" where
  "ClassMap_get doc sc name = DataMap_get doc sc (ClassMap_getDataKey name)"

definition ClassMap_getAttributeName :: "scope \<Rightarrow> string \<Rightarrow> string" where
  "ClassMap_getAttributeName sc name = DataMap_getAttributeNameForKey sc (ClassMap_getDataKey name)"

end
