(* ===== verification/Json.thy ===== *)
theory Json
  imports JsString
begin

text \<open>
  JavaScript values as the page scripts use them: JSON values, \<open>undefined\<close>, property access
  (which throws on \<open>undefined\<close> and \<open>null\<close>), the order of an object's own keys, conversion
  to a string as in a template literal, \<open>JSON.stringify\<close>, \<open>parseInt\<close> and
  \<open>decodeURIComponent\<close>. Numbers are integers or \<open>NaN\<close>, the only ones that occur;
  an integer stands for a double that holds it exactly, so its size is below \<open>2 ^ 53\<close>.
\<close>

section \<open>Values\<close>

datatype js_num = NaN | Num int

datatype json =
    JNull
  | JBool bool
  | JNum js_num
  | JStr string
  | JArr "json list"
  | JObj "(string \<times> json) list"

datatype jsval = Undefined | JV json

section \<open>Numbers and strings\<close>

definition digit_char :: "nat \<Rightarrow> char" where
  "digit_char n = (if n < 10 then char_of (48 + n) else char_of (87 + n))"

fun show_nat :: "nat \<Rightarrow> string" where
  "show_nat n = (if n < 10 then [digit_char n] else show_nat (n div 10) @ [digit_char (n mod 10)])"

declare show_nat.simps [simp del]

definition show_int :: "int \<Rightarrow> string" where
  "show_int i = (if i < 0 then CHR ''-'' # show_nat (nat (- i)) else show_nat (nat i))"

fun show_num :: "js_num \<Rightarrow> string" where
  "show_num NaN = ''NaN''"
| "show_num (Num i) = show_int i"

definition digit_value :: "char \<Rightarrow> nat option" where
  "digit_value c =
     (if is_digit_char c then Some (code c - 48)
      else if is_lower_char c then Some (code c - 87)
      else if is_upper_char c then Some (code c - 55)
      else None)"

text \<open>The longest prefix of digits of a radix, as a number; \<open>None\<close> when there is no digit.\<close>

fun read_digits :: "nat \<Rightarrow> nat option \<Rightarrow> string \<Rightarrow> nat option" where
  "read_digits r acc [] = acc"
| "read_digits r acc (c # cs) =
     (case digit_value c of
        None \<Rightarrow> acc
      | Some d \<Rightarrow>
          (if d < r then read_digits r (Some ((case acc of None \<Rightarrow> 0 | Some a \<Rightarrow> a) * r + d)) cs
           else acc))"

definition parse_magnitude :: "string \<Rightarrow> nat option" where
  "parse_magnitude s =
     (if take 2 s = ''0x'' \<or> take 2 s = ''0X'' then read_digits 16 None (drop 2 s)
      else read_digits 10 None s)"

definition parseInt :: "string \<Rightarrow> js_num" where
  "parseInt s =
     (let t = trimStart s;
          neg = (case t of c # _ \<Rightarrow> c = CHR ''-'' | [] \<Rightarrow> False);
          body = (case t of c # cs \<Rightarrow> (if c = CHR ''-'' \<or> c = CHR ''+'' then cs else t) | [] \<Rightarrow> t)
      in case parse_magnitude body of
           None \<Rightarrow> NaN
         | Some n \<Rightarrow> Num (if neg then - int n else int n))"

section \<open>Property access and own keys\<close>

text \<open>
  \<open>v.name\<close>. The names the scripts read (\<open>Msg\<close>, \<open>Type\<close>, \<open>Header\<close>, ...) are no
  properties of strings, numbers or arrays.
\<close>

fun get_prop :: "jsval \<Rightarrow> string \<Rightarrow> string + jsval" where
  "get_prop Undefined p = Inl (''TypeError: Cannot read properties of undefined (reading '' @ [CHR 0x27] @ p @ [CHR 0x27] @ '')'')"
| "get_prop (JV JNull) p = Inl (''TypeError: Cannot read properties of null (reading '' @ [CHR 0x27] @ p @ [CHR 0x27] @ '')'')"
| "get_prop (JV (JObj kvs)) p =
     Inr (case Map_get kvs p of None \<Rightarrow> Undefined | Some v \<Rightarrow> JV v)"
| "get_prop (JV v) p = Inr Undefined"

text \<open>
  \<open>o[k] = v\<close> on an object literal. Assigning to \<^verbatim>\<open>__proto__\<close> goes to the setter every
  object inherits, and adds no own property.
\<close>

definition set_prop :: "string \<Rightarrow> 'v \<Rightarrow> (string \<times> 'v) list \<Rightarrow> (string \<times> 'v) list" where
  "set_prop k v kvs = (if k = ''__proto__'' then kvs else Map_set k v kvs)"

text \<open>
  The order of an object's own keys: first the array indices, ascending, then the other keys
  in insertion order.
\<close>

definition index_of_key :: "string \<Rightarrow> nat option" where
  "index_of_key k =
     (case read_digits 10 None k of
        None \<Rightarrow> None
      | Some n \<Rightarrow> (if show_nat n = k \<and> int n < 4294967295 then Some n else None))"

definition own_entries :: "(string \<times> 'v) list \<Rightarrow> (string \<times> 'v) list" where
  "own_entries kvs =
     sort_key (\<lambda>kv. the (index_of_key (fst kv))) (filter (\<lambda>kv. index_of_key (fst kv) \<noteq> None) kvs) @
     filter (\<lambda>kv. index_of_key (fst kv) = None) kvs"

lemma mset_own_entries: "set (own_entries kvs) = set kvs"
  by (auto simp: own_entries_def)

lemma own_entries_no_index:
  "\<forall>kv\<in>set kvs. index_of_key (fst kv) = None \<Longrightarrow> own_entries kvs = kvs"
  by (simp add: own_entries_def)

lemma distinct_own_entries: "distinct (map fst kvs) \<Longrightarrow> distinct (map fst (own_entries kvs))"
  by (auto simp: own_entries_def distinct_map inj_on_def)

text \<open>
  \<open>Object.entries(v)\<close>, and the keys a \<open>for (k in v)\<close> loop visits. A string has its
  characters, an array its elements under their indices.
\<close>

fun object_entries :: "json \<Rightarrow> string + (string \<times> json) list" where
  "object_entries JNull = Inl ''TypeError: Cannot convert undefined or null to object''"
| "object_entries (JObj kvs) = Inr (own_entries kvs)"
| "object_entries (JArr vs) = Inr (zip (map show_nat [0..<length vs]) vs)"
| "object_entries (JStr s) = Inr (zip (map show_nat [0..<length s]) (map (\<lambda>c. JStr [c]) s))"
| "object_entries v = Inr []"

definition for_in_keys :: "json \<Rightarrow> string list" where
  "for_in_keys v = (case object_entries v of Inl _ \<Rightarrow> [] | Inr kvs \<Rightarrow> map fst kvs)"

section \<open>Conversion to a string\<close>

text \<open>\<open>String(v)\<close>, also what a template literal inserts.\<close>

fun json_to_string :: "json \<Rightarrow> string" and json_elem_to_string :: "json \<Rightarrow> string" where
  "json_to_string JNull = ''null''"
| "json_to_string (JBool b) = (if b then ''true'' else ''false'')"
| "json_to_string (JNum n) = show_num n"
| "json_to_string (JStr s) = s"
| "json_to_string (JArr vs) = join_with (CHR '','') (map json_elem_to_string vs)"
| "json_to_string (JObj kvs) = ''[object Object]''"
| "json_elem_to_string v = (case v of JNull \<Rightarrow> [] | _ \<Rightarrow> json_to_string v)"

fun to_string :: "jsval \<Rightarrow> string" where
  "to_string Undefined = ''undefined''"
| "to_string (JV v) = json_to_string v"

section \<open>Loose equality\<close>

text \<open>
  \<open>v == s\<close> for a string or \<open>undefined\<close> on the right. Against a string, a number or a Boolean
  compares as a number (a string of digits, or white space for 0), an object or array by its
  string. \<open>undefined\<close> equals \<open>undefined\<close> and \<open>null\<close> only.
\<close>

definition string_to_number :: "string \<Rightarrow> js_num" where
  "string_to_number s =
     (let t = trim s
      in if t = [] then Num 0
         else if list_all is_digit_char t then parseInt t
         else if list_all is_digit_char (tl t) \<and> tl t \<noteq> [] \<and> (hd t = CHR ''-'' \<or> hd t = CHR ''+'')
           then parseInt t
         else NaN)"

fun loose_eq :: "jsval \<Rightarrow> string option \<Rightarrow> bool" where
  "loose_eq Undefined s = (s = None)"
| "loose_eq (JV JNull) s = (s = None)"
| "loose_eq (JV v) None = False"
| "loose_eq (JV (JNum n)) (Some s) = (n \<noteq> NaN \<and> n = string_to_number s)"
| "loose_eq (JV (JBool b)) (Some s) = (Num (if b then 1 else 0) = string_to_number s)"
| "loose_eq (JV v) (Some s) = (json_to_string v = s)"

section \<open>JSON.stringify\<close>

definition hex4 :: "nat \<Rightarrow> string" where
  "hex4 n = [digit_char (n div 4096 mod 16), digit_char (n div 256 mod 16),
     digit_char (n div 16 mod 16), digit_char (n mod 16)]"

definition escape_char :: "char \<Rightarrow> string" where
  "escape_char c =
     (if c = CHR 0x22 then [CHR 0x5C, CHR 0x22]
      else if c = CHR 0x5C then [CHR 0x5C, CHR 0x5C]
      else if c = CHR 0x08 then [CHR 0x5C, CHR ''b'']
      else if c = CHR 0x09 then [CHR 0x5C, CHR ''t'']
      else if c = CHR 0x0A then [CHR 0x5C, CHR ''n'']
      else if c = CHR 0x0C then [CHR 0x5C, CHR ''f'']
      else if c = CHR 0x0D then [CHR 0x5C, CHR ''r'']
      else if code c < 32 then [CHR 0x5C, CHR ''u''] @ hex4 (code c)
      else [c])"

definition quote :: "string \<Rightarrow> string" where
  "quote s = [CHR 0x22] @ concat (map escape_char s) @ [CHR 0x22]"

fun stringify :: "json \<Rightarrow> string" where
  "stringify JNull = ''null''"
| "stringify (JBool b) = (if b then ''true'' else ''false'')"
| "stringify (JNum n) = (case n of NaN \<Rightarrow> ''null'' | Num i \<Rightarrow> show_int i)"
| "stringify (JStr s) = quote s"
| "stringify (JArr vs) = ''['' @ join_with (CHR '','') (map stringify vs) @ '']''"
| "stringify (JObj kvs) =
     ''{'' @ join_with (CHR '','')
       (map (\<lambda>kv. quote (fst kv) @ '':'' @ snd kv) (own_entries (map (map_prod id stringify) kvs))) @ ''}''"

text \<open>\<open>JSON.stringify(v, null, 2)\<close>: one entry per line, indented by two spaces per level.\<close>

definition newline :: "nat \<Rightarrow> string" where
  "newline n = CHR 0x0A # replicate n (CHR '' '')"

fun join_str :: "string \<Rightarrow> string list \<Rightarrow> string" where
  "join_str d [] = []"
| "join_str d [w] = w"
| "join_str d (w # ws) = w @ d @ join_str d ws"

fun stringify_pretty :: "nat \<Rightarrow> json \<Rightarrow> string" where
  "stringify_pretty n (JArr vs) =
     (if vs = [] then ''[]''
      else ''['' @ newline (n + 2) @ join_str ('','' @ newline (n + 2)) (map (stringify_pretty (n + 2)) vs) @
           newline n @ '']'')"
| "stringify_pretty n (JObj kvs) =
     (if kvs = [] then ''{}''
      else ''{'' @ newline (n + 2) @
           join_str ('','' @ newline (n + 2))
             (map (\<lambda>kv. quote (fst kv) @ '': '' @ snd kv)
                (own_entries (map (map_prod id (stringify_pretty (n + 2))) kvs))) @
           newline n @ ''}'')"
| "stringify_pretty n v = stringify v"

section \<open>A quoted string can be read back\<close>

lemma digit_value_digit_char: "n < 16 \<Longrightarrow> digit_value (digit_char n) = Some n"
  by (auto simp: digit_value_def digit_char_def is_digit_char_def is_lower_char_def of_char_of)

lemma digit_char_inj: "m < 16 \<Longrightarrow> n < 16 \<Longrightarrow> digit_char m = digit_char n \<longleftrightarrow> m = n"
  by (metis digit_value_digit_char option.inject)

lemma hex4_inj:
  assumes "hex4 m @ x = hex4 n @ y" "m < 256" "n < 256"
  shows "m = n \<and> x = y"
proof -
  from assms(1) have "m div 16 mod 16 = n div 16 mod 16" "m mod 16 = n mod 16" "x = y"
    by (auto simp: hex4_def digit_char_inj)
  moreover have "m div 16 mod 16 = m div 16" "n div 16 mod 16 = n div 16" using assms(2,3) by auto
  ultimately show ?thesis by (metis mult_div_mod_eq)
qed

lemma escape_char_inj:
  assumes "escape_char c @ x = escape_char d @ y"
  shows "c = d \<and> x = y"
proof -
  have b: "code c < 256" "code d < 256" by (simp_all add: of_char_def)
  show ?thesis
    using assms hex4_inj [of "code c" x "code d" y] 
    by (auto simp: escape_char_def split: if_splits)
qed

lemma escape_char_quote: "escape_char c @ x \<noteq> CHR 0x22 # y"
  by (auto simp: escape_char_def)

lemma escape_string_inj:
  "concat (map escape_char s) @ CHR 0x22 # x = concat (map escape_char t) @ CHR 0x22 # y \<Longrightarrow> s = t \<and> x = y"
proof (induction s arbitrary: t)
  case Nil
  then show ?case by (cases t) (auto simp: escape_char_quote [symmetric] dest: escape_char_quote [THEN notE, OF sym])
next
  case (Cons c s)
  then show ?case
    by (cases t) (auto simp: escape_char_quote dest: escape_char_inj)
qed

lemma quote_inj: "quote s @ x = quote t @ y \<longleftrightarrow> s = t \<and> x = y"
  using escape_string_inj [of s x t y] by (auto simp: quote_def)

lemma quote_eq: "quote s = quote t \<longleftrightarrow> s = t"
  using quote_inj [of s "[]" t "[]"] by simp

section \<open>A shown number can be read back\<close>

lemma show_nat_digits: "\<forall>c\<in>set (show_nat n). is_digit_char c"
proof (induction n rule: show_nat.induct)
  case (1 n)
  have d: "is_digit_char (digit_char k)" if "k < 10" for k
    using that by (simp add: digit_char_def is_digit_char_def)
  show ?case using 1 d by (subst show_nat.simps) auto
qed

lemma show_nat_nonempty [simp]: "show_nat n \<noteq> []"
  by (subst show_nat.simps) simp

lemma read_show_nat:
  "read_digits 10 acc (show_nat n @ rest) =
     read_digits 10 (Some ((case acc of None \<Rightarrow> 0 | Some a \<Rightarrow> a) * 10 ^ length (show_nat n) + n)) rest"
proof (induction n arbitrary: acc rest rule: show_nat.induct)
  case (1 n)
  have d: "digit_value (digit_char (n mod 10)) = Some (n mod 10)" by (rule digit_value_digit_char) simp
  show ?case
  proof (cases "n < 10")
    case True
    with d have "show_nat n = [digit_char n]" "digit_value (digit_char n) = Some n" by (simp_all add: show_nat.simps)
    with True show ?thesis by simp
  next
    case False
    then have s: "show_nat n = show_nat (n div 10) @ [digit_char (n mod 10)]" by (simp add: show_nat.simps)
    show ?thesis
      unfolding s append_assoc "1.IH" [OF False] using d by (simp add: algebra_simps)
  qed
qed

lemma parse_magnitude_show:
  assumes "rest = [] \<or> digit_value (hd rest) = None"
  shows "parse_magnitude (show_nat n @ rest) = Some n"
proof -
  have r: "read_digits 10 (Some n) rest = Some n" using assms by (cases rest) auto
  obtain c cs where c: "show_nat n = c # cs" by (cases "show_nat n") auto
  have "\<not> (take 2 (show_nat n @ rest) = ''0x'' \<or> take 2 (show_nat n @ rest) = ''0X'')"
  proof (cases cs)
    case Nil
    then show ?thesis using assms c by (cases rest) (auto simp: digit_value_def char_class_defs)
  next
    case (Cons d ds)
    then have "is_digit_char d" using show_nat_digits [of n] c by simp
    then show ?thesis using Cons c by (auto simp: is_digit_char_def)
  qed
  then show ?thesis using read_show_nat [of None n rest] r by (simp add: parse_magnitude_def)
qed

end
