(* ===== verification/Blessings.thy ===== *)
theory Blessings
  imports Scope Json
begin

text \<open>
  What the properties of a controller class stand for, in
  \<^verbatim>\<open>src/gui/web/assets/scripts/stimulus.js\<close> (lines 2051-2188): value descriptors with the names of
  their attributes, and the getters and names of class and target properties.
\<close>

section \<open>Values\<close>

datatype value_type = Array_type | Boolean_type | Number_type | Object_type | String_type

datatype type_constant = Array_constant | Boolean_constant | Number_constant | Object_constant
  | String_constant | Other_constant string

definition parseValueTypeConstant :: "type_constant \<Rightarrow> string + value_type" where
  "parseValueTypeConstant c =
     (case c of
        Array_constant \<Rightarrow> Inr Array_type
      | Boolean_constant \<Rightarrow> Inr Boolean_type
      | Number_constant \<Rightarrow> Inr Number_type
      | Object_constant \<Rightarrow> Inr Object_type
      | String_constant \<Rightarrow> Inr String_type
      | Other_constant s \<Rightarrow> Inl (''Unknown value type constant \"'' @ s @ ''\"''))"

definition defaultValuesByType :: "value_type \<Rightarrow> json" where
  "defaultValuesByType t =
     (case t of
        Array_type \<Rightarrow> JArr []
      | Boolean_type \<Rightarrow> JBool False
      | Number_type \<Rightarrow> JNum (Num 0)
      | Object_type \<Rightarrow> JObj []
      | String_type \<Rightarrow> JStr [])"

record value_descriptor =
  v_type :: value_type
  v_key :: string
  v_name :: string

definition defaultValue :: "value_descriptor \<Rightarrow> json" where
  "defaultValue vd = defaultValuesByType (v_type vd)"

definition valueDescriptorForTokenAndType :: "string \<Rightarrow> value_type \<Rightarrow> value_descriptor" where
  "valueDescriptorForTokenAndType token t =
     (let key = dasherize token @ ''-value''
      in \<lparr>v_type = t, v_key = key, v_name = camelize key\<rparr>)"

definition parseValueDefinitionPair :: "string \<times> type_constant \<Rightarrow> string + value_descriptor" where
  "parseValueDefinitionPair p =
     (let (token, typeConstant) = p
      in bind_sum (parseValueTypeConstant typeConstant) (\<lambda>t. Inr (valueDescriptorForTokenAndType token t)))"

text \<open>The map from attribute names to descriptors; a later declaration of the same name wins.\<close>

fun valueDescriptorMap_from ::
    "scope \<Rightarrow> (string \<times> value_descriptor) list \<Rightarrow> (string \<times> type_constant) list \<Rightarrow>
       string + (string \<times> value_descriptor) list" where
  "valueDescriptorMap_from sc result [] = Inr result"
| "valueDescriptorMap_from sc result (p # ps) =
     bind_sum (parseValueDefinitionPair p) (\<lambda>vd.
       valueDescriptorMap_from sc
         (Map_set (DataMap_getAttributeNameForKey sc (v_key vd)) vd result) ps)"

definition valueDescriptorMap ::
    "scope \<Rightarrow> (string \<times> type_constant) list \<Rightarrow> string + (string \<times> value_descriptor) list" where
  "valueDescriptorMap sc ps = valueDescriptorMap_from sc [] ps"

section \<open>The names of the properties\<close>

definition class_property_names :: "string \<Rightarrow> string list" where
  "class_property_names key =
     (let name = key @ ''Class'' in [name, ''has'' @ capitalize name])"

definition target_property_names :: "string \<Rightarrow> string list" where
  "target_property_names name =
     [name @ ''Target'', name @ ''Targets'', ''has'' @ capitalize name @ ''Target'']"

definition value_property_names :: "value_descriptor \<Rightarrow> string list" where
  "value_property_names vd = [v_name vd, ''has'' @ capitalize (v_name vd)]"

section \<open>The getters of classes and targets\<close>

definition get_class :: "document \<Rightarrow> scope \<Rightarrow> string \<Rightarrow> string + string" where
  "get_class doc sc key =
     (if ClassMap_has doc sc key then
        (case ClassMap_get doc sc key of Some v \<Rightarrow> Inr v | None \<Rightarrow> Inl [])
      else Inl (''Missing attribute \"'' @ ClassMap_getAttributeName sc key @ ''\"''))"

definition get_target :: "schema \<Rightarrow> document \<Rightarrow> scope \<Rightarrow> string \<Rightarrow> guide \<Rightarrow> guide \<times> (string + nat)" where
  "get_target sch doc sc name g =
     (let (g, target) = TargetSet_find sch doc sc [name] g
      in case target of
           Some e \<Rightarrow> (g, Inr e)
         | None \<Rightarrow> (g, Inl (''Missing target element \"'' @ scope_identifier sc @ ''.'' @ name @ ''\"'')))"

definition get_targets :: "schema \<Rightarrow> document \<Rightarrow> scope \<Rightarrow> string \<Rightarrow> guide \<Rightarrow> guide \<times> nat list" where
  "get_targets sch doc sc name g = TargetSet_findAll sch doc sc [name] g"

section \<open>Naming\<close>

lemma value_name:
  assumes "\<forall>c\<in>set token. \<not> is_separator c"
  shows "v_name (valueDescriptorForTokenAndType token t) = token @ ''Value''"
proof -
  have "camelize ''-value'' = ''Value''"
    by code_simp
  then show ?thesis
    using camelize_dasherize_append [OF assms, of "''-value''"]
    by (simp add: valueDescriptorForTokenAndType_def Let_def)
qed

end
