(* ===== verification/Json_Parse.thy ===== *)
theory Json_Parse
  imports Json
begin

text \<open>
  \<open>JSON.parse\<close> and \<open>parseFloat\<close> of the language, which the readers of values use. A text is
  first cut into json_tokens, then a machine with a stack of unfinished arrays and objects reads the
  json_tokens, one at a time. The result of a valid text with a number that is not an exact integer, or
  with a code unit above 255, is \<open>Beyond\<close>, with a value of the same
  shape: the true one is not in the model.
\<close>

section \<open>Tokens\<close>

datatype json_token = Punct char | Literal json | Text_token string | Far_number | Far_text

definition is_json_space :: "char \<Rightarrow> bool" where
  "is_json_space c \<longleftrightarrow> code c \<in> {9, 10, 13, 32}"

definition is_punct :: "char \<Rightarrow> bool" where
  "is_punct c \<longleftrightarrow> c \<in> set ''[]{},:''"

definition is_number_char :: "char \<Rightarrow> bool" where
  "is_number_char c \<longleftrightarrow> is_digit_char c \<or> c \<in> set ''+-.eE''"

definition exact_number :: "bool \<Rightarrow> string \<Rightarrow> js_num option" where
  "exact_number neg digits =
     (case read_digits 10 None digits of
        None \<Rightarrow> None
      | Some n \<Rightarrow> (if int n < 9007199254740992 then Some (Num (if neg then - int n else int n)) else None))"

definition is_exponent :: "string \<Rightarrow> bool" where
  "is_exponent s \<longleftrightarrow> s = [] \<or>
     ((hd s = CHR ''e'' \<or> hd s = CHR ''E'') \<and>
      (let t = tl s;
           t = (if t \<noteq> [] \<and> (hd t = CHR ''+'' \<or> hd t = CHR ''-'') then tl t else t)
       in t \<noteq> [] \<and> list_all is_digit_char t))"

text \<open>A run of number characters as a number of JSON; \<open>None\<close> when it is none.\<close>

definition number_token :: "string \<Rightarrow> json_token option" where
  "number_token s =
     (let neg = (s \<noteq> [] \<and> hd s = CHR ''-'');
          body = (if neg then tl s else s);
          whole = takeWhile is_digit_char body;
          rest = dropWhile is_digit_char body
      in if whole = [] \<or> (hd whole = CHR ''0'' \<and> tl whole \<noteq> []) then None
         else if rest = [] then
           (case exact_number neg whole of None \<Rightarrow> Some Far_number | Some n \<Rightarrow> Some (Literal (JNum n)))
         else if hd rest = CHR ''.'' then
           (if takeWhile is_digit_char (tl rest) \<noteq> [] \<and> is_exponent (dropWhile is_digit_char (tl rest))
            then Some Far_number else None)
         else if is_exponent rest then Some Far_number else None)"

definition word_token :: "string \<Rightarrow> json_token option" where
  "word_token s =
     (if s = ''null'' then Some (Literal JNull)
      else if s = ''true'' then Some (Literal (JBool True))
      else if s = ''false'' then Some (Literal (JBool False))
      else None)"

definition hex_value :: "string \<Rightarrow> nat option" where
  "hex_value ds =
     (if list_all (\<lambda>c. case digit_value c of None \<Rightarrow> False | Some d \<Rightarrow> d < 16) ds
      then read_digits 16 None ds else None)"

definition simple_escape :: "char \<Rightarrow> char option" where
  "simple_escape c =
     map_of [(CHR 0x22, CHR 0x22), (CHR 0x5C, CHR 0x5C), (CHR ''/'', CHR ''/''), (CHR ''b'', CHR 0x08),
       (CHR ''f'', CHR 0x0C), (CHR ''n'', CHR 0x0A), (CHR ''r'', CHR 0x0D), (CHR ''t'', CHR 0x09)] c"

definition cons_text :: "char option \<Rightarrow> (string option \<times> string) option \<Rightarrow> (string option \<times> string) option" where
  "cons_text c r =
     (case r of None \<Rightarrow> None
      | Some (t, rest) \<Rightarrow>
          Some (case c of None \<Rightarrow> None | Some c \<Rightarrow> (case t of None \<Rightarrow> None | Some t \<Rightarrow> Some (c # t)), rest))"

text \<open>
  A string after its opening quote, with what follows the closing one. The text is \<open>None\<close> when
  it has a code unit the model has no character for.
\<close>

fun read_text :: "string \<Rightarrow> (string option \<times> string) option" where
  "read_text [] = None"
| "read_text (c # cs) =
     (if c = CHR 0x22 then Some (Some [], cs)
      else if code c < 32 then None
      else if c = CHR 0x5C then
        (case cs of
           [] \<Rightarrow> None
         | e # cs' \<Rightarrow>
             (if e = CHR ''u'' then
                (case cs' of
                   h1 # h2 # h3 # h4 # cs'' \<Rightarrow>
                     (case hex_value [h1, h2, h3, h4] of
                        None \<Rightarrow> None
                      | Some n \<Rightarrow> cons_text (if n < 256 then Some (char_of n) else None) (read_text cs''))
                 | _ \<Rightarrow> None)
              else (case simple_escape e of
                      None \<Rightarrow> None
                    | Some x \<Rightarrow> cons_text (Some x) (read_text cs'))))
      else cons_text (Some c) (read_text cs))"

declare read_text.simps [simp del]

lemma cons_text_Some: "cons_text c r = Some (t, rest) \<Longrightarrow> \<exists>t'. r = Some (t', rest)"
  by (auto simp: cons_text_def split: option.splits)

lemma read_text_shorter: "read_text s = Some (t, rest) \<Longrightarrow> length rest < length s"
proof (induction s arbitrary: t rule: length_induct)
  case (1 s)
  then have ih: "read_text r = Some (x, rest) \<Longrightarrow> length r < length s \<Longrightarrow> length rest < length r" for r x
    by blast
  show ?case
  proof (cases s)
    case (Cons c cs)
    show ?thesis
      using "1.prems" unfolding Cons read_text.simps
      by (auto split: if_splits list.splits option.splits dest!: cons_text_Some dest: ih simp: Cons
        intro: less_SucI)
  qed (use "1.prems" in \<open>simp add: read_text.simps\<close>)
qed

function json_tokens :: "string \<Rightarrow> json_token list option" where
  "json_tokens [] = Some []"
| "json_tokens (c # cs) =
     (if is_json_space c then json_tokens cs
      else if is_punct c then map_option (Cons (Punct c)) (json_tokens cs)
      else if c = CHR 0x22 then
        (case read_text cs of
           None \<Rightarrow> None
         | Some (t, rest) \<Rightarrow>
             map_option (Cons (case t of None \<Rightarrow> Far_text | Some t \<Rightarrow> Text_token t)) (json_tokens rest))
      else if is_digit_char c \<or> c = CHR ''-'' then
        (case number_token (c # takeWhile is_number_char cs) of
           None \<Rightarrow> None
         | Some t \<Rightarrow> map_option (Cons t) (json_tokens (dropWhile is_number_char cs)))
      else
        (case word_token (c # takeWhile is_lower_char cs) of
           None \<Rightarrow> None
         | Some t \<Rightarrow> map_option (Cons t) (json_tokens (dropWhile is_lower_char cs))))"
  by pat_completeness auto
termination
  by (relation "measure length")
    (auto dest!: read_text_shorter simp: le_imp_less_Suc length_dropWhile_le)

declare json_tokens.simps(2) [simp del]

section \<open>The machine\<close>

datatype frame = Elements "json list" | Members "(string \<times> json) list" string

datatype parser =
    Value_wanted "frame list"
  | First_element "frame list"
  | First_member "frame list"
  | Member_wanted "(string \<times> json) list" "frame list"
  | Colon_wanted "(string \<times> json) list" string "frame list"
  | After_value json "frame list"

text \<open>Where the model has no value, the machine goes on with one that is thrown away.\<close>

fun begin_value :: "frame list \<Rightarrow> json_token \<Rightarrow> parser option" where
  "begin_value fs (Punct c) =
     (if c = CHR ''['' then Some (First_element fs)
      else if c = CHR ''{'' then Some (First_member fs)
      else None)"
| "begin_value fs (Literal v) = Some (After_value v fs)"
| "begin_value fs (Text_token s) = Some (After_value (JStr s) fs)"
| "begin_value fs Far_number = Some (After_value JNull fs)"
| "begin_value fs Far_text = Some (After_value JNull fs)"

fun begin_member :: "(string \<times> json) list \<Rightarrow> frame list \<Rightarrow> json_token \<Rightarrow> parser option" where
  "begin_member kvs fs (Text_token k) = Some (Colon_wanted kvs k fs)"
| "begin_member kvs fs Far_text = Some (Colon_wanted kvs [] fs)"
| "begin_member kvs fs _ = None"

fun after_value :: "json \<Rightarrow> frame list \<Rightarrow> char \<Rightarrow> parser option" where
  "after_value v [] c = None"
| "after_value v (Elements vs # fs) c =
     (if c = CHR '','' then Some (Value_wanted (Elements (vs @ [v]) # fs))
      else if c = CHR '']'' then Some (After_value (JArr (vs @ [v])) fs)
      else None)"
| "after_value v (Members kvs k # fs) c =
     (if c = CHR '','' then Some (Member_wanted (Map_set k v kvs) fs)
      else if c = CHR ''}'' then Some (After_value (JObj (Map_set k v kvs)) fs)
      else None)"

fun parser_step :: "parser \<Rightarrow> json_token \<Rightarrow> parser option" where
  "parser_step (Value_wanted fs) t = begin_value fs t"
| "parser_step (First_element fs) t =
     (if t = Punct (CHR '']'') then Some (After_value (JArr []) fs) else begin_value (Elements [] # fs) t)"
| "parser_step (First_member fs) t =
     (if t = Punct (CHR ''}'') then Some (After_value (JObj []) fs) else begin_member [] fs t)"
| "parser_step (Member_wanted kvs fs) t = begin_member kvs fs t"
| "parser_step (Colon_wanted kvs k fs) t =
     (if t = Punct (CHR '':'') then Some (Value_wanted (Members kvs k # fs)) else None)"
| "parser_step (After_value v fs) t = (case t of Punct c \<Rightarrow> after_value v fs c | _ \<Rightarrow> None)"

fun parser_run :: "parser \<Rightarrow> json_token list \<Rightarrow> json option" where
  "parser_run p [] = (case p of After_value v [] \<Rightarrow> Some v | _ \<Rightarrow> None)"
| "parser_run p (t # ts) = (case parser_step p t of None \<Rightarrow> None | Some p \<Rightarrow> parser_run p ts)"

datatype parsed = Parsed json | Rejected | Beyond json

definition JSON_parse :: "string \<Rightarrow> parsed" where
  "JSON_parse s =
     (case json_tokens s of
        None \<Rightarrow> Rejected
      | Some ts \<Rightarrow>
          (case parser_run (Value_wanted []) ts of
             None \<Rightarrow> Rejected
           | Some v \<Rightarrow> (if Far_number \<in> set ts \<or> Far_text \<in> set ts then Beyond v else Parsed v)))"

section \<open>parseFloat\<close>

text \<open>\<open>None\<close> stands for a number that is not an exact integer, or an infinity.\<close>

definition has_fraction :: "string \<Rightarrow> bool" where
  "has_fraction s \<longleftrightarrow>
     (let digit_after = (\<lambda>t. t \<noteq> [] \<and> is_digit_char (hd t));
          exponent = (\<lambda>t. t \<noteq> [] \<and> (hd t = CHR ''e'' \<or> hd t = CHR ''E'') \<and>
            (digit_after (tl t) \<or> (tl t \<noteq> [] \<and> (hd (tl t) = CHR ''+'' \<or> hd (tl t) = CHR ''-'') \<and> digit_after (tl (tl t)))))
      in exponent s \<or> (s \<noteq> [] \<and> hd s = CHR ''.'' \<and> (digit_after (tl s) \<or> exponent (tl s))))"

definition parseFloat :: "string \<Rightarrow> js_num option" where
  "parseFloat s =
     (let t = trimStart s;
          neg = (t \<noteq> [] \<and> hd t = CHR ''-'');
          body = (if t \<noteq> [] \<and> (hd t = CHR ''-'' \<or> hd t = CHR ''+'') then tl t else t);
          whole = takeWhile is_digit_char body;
          rest = dropWhile is_digit_char body
      in if take 8 body = ''Infinity'' then None
         else if whole = [] then
           (if rest \<noteq> [] \<and> hd rest = CHR ''.'' \<and> tl rest \<noteq> [] \<and> is_digit_char (hd (tl rest)) then None else Some NaN)
         else if has_fraction rest then None
         else exact_number neg whole)"

section \<open>A text written by stringify is read back\<close>

text \<open>
  What is left of a value when it is written and read: an object has its own keys in their order,
  and \<open>NaN\<close> inside a value is written as \<open>null\<close>.
\<close>

fun stored :: "json \<Rightarrow> json" where
  "stored (JNum n) = (case n of NaN \<Rightarrow> JNull | Num i \<Rightarrow> JNum (Num i))"
| "stored (JArr vs) = JArr (map stored vs)"
| "stored (JObj kvs) = JObj (own_entries (map (map_prod id stored) kvs))"
| "stored v = v"

text \<open>A value that can exist: numbers are exact, the keys of an object are distinct.\<close>

fun proper :: "json \<Rightarrow> bool" where
  "proper (JNum n) \<longleftrightarrow> (case n of NaN \<Rightarrow> True | Num i \<Rightarrow> \<bar>i\<bar> < 9007199254740992)"
| "proper (JArr vs) \<longleftrightarrow> list_all proper vs"
| "proper (JObj kvs) \<longleftrightarrow> distinct (map fst kvs) \<and> list_all (proper \<circ> snd) kvs"
| "proper v \<longleftrightarrow> True"

fun comma_separated :: "json_token list list \<Rightarrow> json_token list" where
  "comma_separated [] = []"
| "comma_separated [ts] = ts"
| "comma_separated (ts # tss) = ts @ Punct (CHR '','') # comma_separated tss"

fun value_tokens :: "json \<Rightarrow> json_token list" where
  "value_tokens JNull = [Literal JNull]"
| "value_tokens (JBool b) = [Literal (JBool b)]"
| "value_tokens (JNum n) = [Literal (case n of NaN \<Rightarrow> JNull | Num i \<Rightarrow> JNum (Num i))]"
| "value_tokens (JStr s) = [Text_token s]"
| "value_tokens (JArr vs) = Punct (CHR ''['') # comma_separated (map value_tokens vs) @ [Punct (CHR '']'')]"
| "value_tokens (JObj kvs) =
     Punct (CHR ''{'') # comma_separated
       (map (\<lambda>kv. Text_token (fst kv) # Punct (CHR '':'') # snd kv) (own_entries (map (map_prod id value_tokens) kvs)))
       @ [Punct (CHR ''}'')]"

subsection \<open>Strings\<close>

lemma hex_value_hex4: "n < 256 \<Longrightarrow> hex_value (hex4 n) = Some n"
  by (simp add: hex_value_def hex4_def digit_value_digit_char)

lemma read_text_escape: "read_text (escape_char c @ x) = cons_text (Some c) (read_text x)"
proof -
  have u: "read_text (CHR 0x5C # CHR ''u'' # hex4 (code c) @ x) = cons_text (Some c) (read_text x)"
    using hex_value_hex4 [of "code c"]
    by (subst read_text.simps) (simp add: hex4_def)
  show ?thesis
    using u by (simp add: escape_char_def simple_escape_def read_text.simps)
qed

lemma read_text_quoted: "read_text (concat (map escape_char s) @ CHR 0x22 # x) = Some (Some s, x)"
  by (induction s) (simp_all add: read_text_escape read_text.simps(2) [of "CHR 0x22"] cons_text_def)

lemma json_tokens_quote: "json_tokens (quote s @ x) = map_option (Cons (Text_token s)) (json_tokens x)"
  by (simp add: quote_def json_tokens.simps(2) is_json_space_def is_punct_def read_text_quoted)

subsection \<open>Numbers and words\<close>

definition ends :: "string \<Rightarrow> bool" where
  "ends x \<longleftrightarrow> x = [] \<or> is_punct (hd x)"

lemma punct_classes:
  assumes "is_punct c"
  shows "\<not> is_number_char c" "\<not> is_lower_char c" "\<not> is_json_space c"
  using assms by (auto simp: is_punct_def is_number_char_def is_lower_char_def is_digit_char_def is_json_space_def)

lemma json_tokens_punct: "is_punct c \<Longrightarrow> json_tokens (c # x) = map_option (Cons (Punct c)) (json_tokens x)"
  by (simp add: json_tokens.simps(2) punct_classes)

lemma take_drop_ends:
  assumes "ends x" "\<forall>c\<in>set s. p c" "\<And>c. is_punct c \<Longrightarrow> \<not> p c"
  shows "takeWhile p (s @ x) = s" "dropWhile p (s @ x) = x"
  using assms by (cases x; simp add: ends_def takeWhile_append2 dropWhile_append2)+

lemma json_tokens_run:
  assumes e: "ends x" and t: "number_token (c # s) = Some t" and c: "is_digit_char c \<or> c = CHR ''-''"
    and s: "\<forall>c\<in>set s. is_digit_char c"
  shows "json_tokens (c # s @ x) = map_option (Cons t) (json_tokens x)"
proof -
  have n: "\<forall>c\<in>set s. is_number_char c"
    using s by (simp add: is_number_char_def)
  have "\<not> is_json_space c" "\<not> is_punct c" "c \<noteq> CHR 0x22"
    using c by (auto simp: is_json_space_def is_punct_def is_digit_char_def)
  with c t show ?thesis
    by (simp add: json_tokens.simps(2) take_drop_ends [OF e n] punct_classes)
qed

lemma json_tokens_word:
  assumes e: "ends x" and t: "word_token (c # s) = Some t"
  shows "json_tokens (c # s @ x) = map_option (Cons t) (json_tokens x)"
proof -
  have s: "\<forall>c\<in>set s. is_lower_char c" "c \<in> set ''ntf''"
    using t by (auto simp: word_token_def is_lower_char_def split: if_splits)
  then have "\<not> is_json_space c" "\<not> is_punct c" "c \<noteq> CHR 0x22" "\<not> is_digit_char c" "c \<noteq> CHR ''-''"
    by (auto simp: is_json_space_def is_punct_def is_digit_char_def)
  with t show ?thesis
    by (simp add: json_tokens.simps(2) take_drop_ends [OF e s(1)] punct_classes)
qed

lemma show_nat_no_zero: "show_nat n = CHR ''0'' # s \<Longrightarrow> s = []"
proof (induction n arbitrary: s rule: show_nat.induct)
  case (1 n)
  show ?case
  proof (cases "n < 10")
    case True
    then show ?thesis
      using "1.prems" by (simp add: show_nat.simps [of n])
  next
    case False
    then obtain t where t: "show_nat (n div 10) = CHR ''0'' # t"
      using "1.prems" by (cases "show_nat (n div 10)") (auto simp: show_nat.simps [of n])
    with "1.IH" [OF False] have "show_nat (n div 10) = ''0''"
      by blast
    with read_show_nat [of None "n div 10" "[]"] have "n div 10 = 0"
      by (simp add: digit_value_def is_digit_char_def)
    with False show ?thesis
      by simp
  qed
qed

lemma exact_number_show:
  "int n < 9007199254740992 \<Longrightarrow> exact_number neg (show_nat n) = Some (Num (if neg then - int n else int n))"
  using read_show_nat [of None n "[]"] by (simp add: exact_number_def)

lemma number_token_show:
  assumes "int n < 9007199254740992"
  shows "number_token (show_nat n) = Some (Literal (JNum (Num (int n))))"
    "number_token (CHR ''-'' # show_nat n) = Some (Literal (JNum (Num (- int n))))"
proof -
  have d: "takeWhile is_digit_char (show_nat n) = show_nat n" "dropWhile is_digit_char (show_nat n) = []"
    using show_nat_digits by (simp_all add: takeWhile_eq_all_conv dropWhile_eq_Nil_conv)
  have z: "\<not> (hd (show_nat n) = CHR ''0'' \<and> tl (show_nat n) \<noteq> [])"
    using show_nat_no_zero [of n "tl (show_nat n)"] by (cases "show_nat n") auto
  have m: "hd (show_nat n) \<noteq> CHR ''-''"
    using show_nat_digits [of n] by (cases "show_nat n") (auto simp: is_digit_char_def)
  show "number_token (show_nat n) = Some (Literal (JNum (Num (int n))))"
    "number_token (CHR ''-'' # show_nat n) = Some (Literal (JNum (Num (- int n))))"
    using z m by (auto simp: number_token_def d exact_number_show [OF assms])
qed

lemma json_tokens_show_int:
  assumes "ends x" "\<bar>i\<bar> < 9007199254740992"
  shows "json_tokens (show_int i @ x) = map_option (Cons (Literal (JNum (Num i)))) (json_tokens x)"
proof (cases "i < 0")
  case True
  then show ?thesis
    using json_tokens_run [OF assms(1) number_token_show(2) [of "nat (- i)"]] assms(2) show_nat_digits
    by (simp add: show_int_def)
next
  case False
  obtain c s where cs: "show_nat (nat i) = c # s"
    by (cases "show_nat (nat i)") auto
  with show_nat_digits [of "nat i"] False assms(2) show ?thesis
    using json_tokens_run [OF assms(1), of c s] number_token_show(1) [of "nat i"]
    by (simp add: show_int_def)
qed

subsection \<open>Values\<close>

lemma json_tokens_join:
  assumes "\<forall>w\<in>set ws. \<forall>x. ends x \<longrightarrow> json_tokens (f w @ x) = map_option (append (g w)) (json_tokens x)" "ends x"
  shows "json_tokens (join_with (CHR '','') (map f ws) @ x) = map_option (append (comma_separated (map g ws))) (json_tokens x)"
  using assms(1)
proof (induction ws rule: induct_list012)
  case (2 w)
  then show ?case
    using assms(2) by simp
next
  case (3 w w' ws)
  have "is_punct (CHR '','')"
    by (simp add: is_punct_def)
  with 3 show ?case
    by (simp add: ends_def json_tokens_punct option.map_comp comp_def)
qed (cases "json_tokens x"; simp)

lemma insort_key_map: "insort_key p (h a) (map h xs) = map h (insort_key (\<lambda>x. p (h x)) a xs)"
  by (induction xs) auto

lemma sort_key_map: "sort_key p (map h xs) = map h (sort_key (\<lambda>x. p (h x)) xs)"
  by (induction xs) (simp_all add: insort_key_map)

lemma own_entries_map: "own_entries (map (map_prod id f) kvs) = map (map_prod id f) (own_entries kvs)"
  by (simp add: own_entries_def sort_key_map filter_map comp_def)

lemma json_tokens_stringify:
  assumes "proper v" "ends x"
  shows "json_tokens (stringify v @ x) = map_option (append (value_tokens v)) (json_tokens x)"
  using assms
proof (induction v arbitrary: x)
  case JNull
  then show ?case
    using json_tokens_word [of x "CHR ''n''" "''ull''"] by (simp add: word_token_def)
next
  case (JBool b)
  then show ?case
    using json_tokens_word [of x "CHR ''t''" "''rue''"] json_tokens_word [of x "CHR ''f''" "''alse''"]
    by (simp add: word_token_def)
next
  case (JNum n)
  then show ?case
    using json_tokens_word [of x "CHR ''n''" "''ull''"]
    by (cases n) (simp_all add: word_token_def json_tokens_show_int)
next
  case (JStr s)
  then show ?case
    by (simp add: json_tokens_quote)
next
  case (JArr vs)
  have p: "is_punct (CHR ''['')" "is_punct (CHR '']'')"
    by (simp_all add: is_punct_def)
  have "json_tokens (join_with (CHR '','') (map stringify vs) @ CHR '']'' # x) =
      map_option (append (comma_separated (map value_tokens vs))) (json_tokens (CHR '']'' # x))"
    using JArr.IH JArr.prems(1) p by (intro json_tokens_join) (auto simp: ends_def list_all_iff)
  then show ?case
    by (simp add: json_tokens_punct p option.map_comp comp_def)
next
  case (JObj kvs)
  have p: "is_punct (CHR ''{'')" "is_punct (CHR ''}'')" "is_punct (CHR '':'')"
    by (simp_all add: is_punct_def)
  have "json_tokens (join_with (CHR '','') (map (\<lambda>kv. quote (fst kv) @ '':'' @ stringify (snd kv)) (own_entries kvs)) @ CHR ''}'' # x) =
      map_option (append (comma_separated
        (map (\<lambda>kv. Text_token (fst kv) # Punct (CHR '':'') # value_tokens (snd kv)) (own_entries kvs)))) (json_tokens (CHR ''}'' # x))"
  proof (intro json_tokens_join ballI allI impI)
    fix kv y
    assume kv: "kv \<in> set (own_entries kvs)" and y: "ends y"
    then have "json_tokens (stringify (snd kv) @ y) = map_option (append (value_tokens (snd kv))) (json_tokens y)"
      using JObj.prems(1) by (intro JObj.IH [of kv]) (auto simp: mset_own_entries list_all_iff snds.simps)
    then show "json_tokens ((quote (fst kv) @ '':'' @ stringify (snd kv)) @ y) =
        map_option (append (Text_token (fst kv) # Punct (CHR '':'') # value_tokens (snd kv))) (json_tokens y)"
      by (cases "json_tokens y") (simp_all add: json_tokens_quote json_tokens_punct p option.map_comp comp_def)
  qed (simp add: ends_def p)
  then show ?case
    by (simp add: json_tokens_punct p option.map_comp comp_def own_entries_map)
qed

section \<open>The machine reads the tokens of a value\<close>

lemma value_tokens_hd:
  "\<exists>t ts. value_tokens v = t # ts \<and> t \<noteq> Punct (CHR '']'')"
  by (cases v) auto

lemma run_elements:
  assumes "\<forall>v\<in>set vs. \<forall>fs ts. parser_run (Value_wanted fs) (value_tokens v @ ts) = parser_run (After_value (stored v) fs) ts"
    and "vs \<noteq> []"
  shows "parser_run (Value_wanted (Elements us # fs)) (comma_separated (map value_tokens vs) @ Punct (CHR '']'') # ts) =
    parser_run (After_value (JArr (us @ map stored vs)) fs) ts"
  using assms by (induction vs arbitrary: us rule: induct_list012) simp_all

lemma run_members:
  assumes "\<forall>kv\<in>set kvs. \<forall>fs ts. parser_run (Value_wanted fs) (value_tokens (snd kv) @ ts) = parser_run (After_value (stored (snd kv)) fs) ts"
    and "kvs \<noteq> []" "distinct (map fst us @ map fst kvs)"
  shows "parser_run (Member_wanted us fs)
      (comma_separated (map (\<lambda>kv. Text_token (fst kv) # Punct (CHR '':'') # value_tokens (snd kv)) kvs) @ Punct (CHR ''}'') # ts) =
    parser_run (After_value (JObj (us @ map (map_prod id stored) kvs)) fs) ts"
  using assms
proof (induction kvs arbitrary: us rule: induct_list012)
  case (2 kv)
  then show ?case
    by (cases kv) (simp add: update_absent)
next
  case (3 kv kv' kvs)
  have "parser_run (Member_wanted (us @ [(fst kv, stored (snd kv))]) fs)
      (comma_separated (map (\<lambda>kv. Text_token (fst kv) # Punct (CHR '':'') # value_tokens (snd kv)) (kv' # kvs)) @
        Punct (CHR ''}'') # ts) =
    parser_run (After_value (JObj ((us @ [(fst kv, stored (snd kv))]) @ map (map_prod id stored) (kv' # kvs))) fs) ts"
    using "3.prems" by (intro "3.IH"(2)) auto
  with "3.prems" show ?case
    by (cases kv) (simp add: update_absent id_def)
qed simp

lemma run_value:
  assumes "proper v"
  shows "parser_run (Value_wanted fs) (value_tokens v @ ts) = parser_run (After_value (stored v) fs) ts"
  using assms
proof (induction v arbitrary: fs ts)
  case (JArr vs)
  show ?case
  proof (cases vs)
    case (Cons w ws)
    obtain t us where t: "value_tokens w = t # us" "t \<noteq> Punct (CHR '']'')"
      using value_tokens_hd by blast
    have "parser_run (First_element fs) (comma_separated (map value_tokens vs) @ Punct (CHR '']'') # ts) =
        parser_run (Value_wanted (Elements [] # fs)) (comma_separated (map value_tokens vs) @ Punct (CHR '']'') # ts)"
      using t by (cases ws) (simp_all add: Cons)
    with run_elements [of vs "[]" fs ts] JArr Cons show ?thesis
      by (simp add: list_all_iff)
  qed simp
next
  case (JObj kvs)
  show ?case
  proof (cases "own_entries kvs")
    case (Cons kv kvs')
    let ?ts = "comma_separated (map (\<lambda>kv. Text_token (fst kv) # Punct (CHR '':'') # value_tokens (snd kv)) (own_entries kvs)) @ Punct (CHR ''}'') # ts"
    have "parser_run (First_member fs) ?ts = parser_run (Member_wanted [] fs) ?ts"
      by (cases kvs') (simp_all add: Cons)
    also have "\<dots> = parser_run (After_value (JObj (map (map_prod id stored) (own_entries kvs))) fs) ts"
    proof (rule run_members [where us = "[]", simplified])
      show "\<forall>kv\<in>set (own_entries kvs). \<forall>fs ts.
          parser_run (Value_wanted fs) (value_tokens (snd kv) @ ts) = parser_run (After_value (stored (snd kv)) fs) ts"
        using JObj by (auto simp: mset_own_entries list_all_iff snds.simps)
      show "distinct (map fst (own_entries kvs))"
        using JObj.prems by (simp add: distinct_own_entries)
    qed (simp add: Cons)
    finally show ?thesis
      by (simp add: own_entries_map comp_def)
  qed (simp add: own_entries_map)
qed (auto split: js_num.splits)

lemma set_comma_separated: "set (comma_separated tss) \<subseteq> insert (Punct (CHR '','')) (\<Union> (set ` set tss))"
  by (induction tss rule: comma_separated.induct) auto

lemma value_tokens_exact: "t \<in> set (value_tokens v) \<Longrightarrow> t \<noteq> Far_number \<and> t \<noteq> Far_text"
proof (induction v)
  case (JArr vs)
  then show ?case
    using set_comma_separated [of "map value_tokens vs"] by auto
next
  case (JObj kvs)
  then show ?case
    using set_comma_separated [of "map (\<lambda>kv. Text_token (fst kv) # Punct (CHR '':'') # value_tokens (snd kv)) (own_entries kvs)"]
    by (fastforce simp: own_entries_map comp_def mset_own_entries snds.simps)
qed auto

lemma JSON_parse_stringify: "proper v \<Longrightarrow> JSON_parse (stringify v) = Parsed (stored v)"
  using json_tokens_stringify [of v "[]"] run_value [of v "[]" "[]"]
  using value_tokens_exact [of _ v] by (auto simp: JSON_parse_def ends_def)

section \<open>What is read is proper\<close>

fun proper_token :: "json_token \<Rightarrow> bool" where
  "proper_token (Literal v) \<longleftrightarrow> proper v"
| "proper_token t \<longleftrightarrow> True"

lemma exact_number_proper: "exact_number neg s = Some n \<Longrightarrow> proper (JNum n)"
  by (auto simp: exact_number_def split: option.splits if_splits)

lemma parseFloat_proper: "parseFloat s = Some n \<Longrightarrow> proper (JNum n)"
  by (auto simp: parseFloat_def Let_def dest: exact_number_proper split: if_splits)

lemma number_token_proper: "number_token s = Some t \<Longrightarrow> proper_token t"
  by (auto simp: number_token_def Let_def simp del: proper.simps dest: exact_number_proper split: if_splits option.splits)

lemma word_token_proper: "word_token s = Some t \<Longrightarrow> proper_token t"
  by (auto simp: word_token_def split: if_splits)

lemma json_tokens_proper: "json_tokens s = Some ts \<Longrightarrow> list_all proper_token ts"
proof (induction s arbitrary: ts rule: json_tokens.induct)
  case (2 c cs)
  then show ?case
    by (auto simp: json_tokens.simps(2) split: if_splits option.splits
        dest: number_token_proper word_token_proper)
qed simp

fun proper_frame :: "frame \<Rightarrow> bool" where
  "proper_frame (Elements vs) \<longleftrightarrow> list_all proper vs"
| "proper_frame (Members kvs k) \<longleftrightarrow> proper (JObj kvs)"

fun proper_parser :: "parser \<Rightarrow> bool" where
  "proper_parser (Value_wanted fs) \<longleftrightarrow> list_all proper_frame fs"
| "proper_parser (First_element fs) \<longleftrightarrow> list_all proper_frame fs"
| "proper_parser (First_member fs) \<longleftrightarrow> list_all proper_frame fs"
| "proper_parser (Member_wanted kvs fs) \<longleftrightarrow> proper (JObj kvs) \<and> list_all proper_frame fs"
| "proper_parser (Colon_wanted kvs k fs) \<longleftrightarrow> proper (JObj kvs) \<and> list_all proper_frame fs"
| "proper_parser (After_value v fs) \<longleftrightarrow> proper v \<and> list_all proper_frame fs"

lemma proper_Map_set: "proper (JObj kvs) \<Longrightarrow> proper v \<Longrightarrow> proper (JObj (Map_set k v kvs))"
  by (auto simp: list_all_iff set_Map_set)

lemma begin_value_proper:
  "begin_value fs t = Some p \<Longrightarrow> proper_token t \<Longrightarrow> list_all proper_frame fs \<Longrightarrow> proper_parser p"
  by (cases t) (auto split: if_splits)

lemma begin_member_proper:
  "begin_member kvs fs t = Some p \<Longrightarrow> proper (JObj kvs) \<Longrightarrow> list_all proper_frame fs \<Longrightarrow> proper_parser p"
  by (cases t) auto

lemma after_value_proper:
  assumes "after_value v fs c = Some p" "proper v" "list_all proper_frame fs"
  shows "proper_parser p"
proof (cases fs)
  case (Cons f fs')
  then show ?thesis
    using assms by (cases f) (auto simp del: proper.simps(3) simp: proper_Map_set split: if_splits)
qed (use assms in simp)

lemma parser_step_proper:
  assumes "parser_step p t = Some p'" "proper_parser p" "proper_token t"
  shows "proper_parser p'"
  using assms
proof (cases p)
  case (First_member fs)
  then show ?thesis
    using assms begin_member_proper [of "[]" fs t p'] by (auto split: if_splits)
qed (auto simp del: proper.simps(3) split: if_splits json_token.splits
    intro: begin_value_proper begin_member_proper after_value_proper)

lemma parser_run_proper:
  "parser_run p ts = Some v \<Longrightarrow> proper_parser p \<Longrightarrow> list_all proper_token ts \<Longrightarrow> proper v"
  by (induction ts arbitrary: p)
    (auto split: parser.splits list.splits option.splits dest: parser_step_proper)

lemma JSON_parse_proper: "JSON_parse s = Parsed v \<Longrightarrow> proper v"
  by (auto simp: JSON_parse_def split: option.splits if_splits dest: json_tokens_proper parser_run_proper)

lemma parseFloat_show_num: "proper (JNum n) \<Longrightarrow> parseFloat (show_num n) = Some n"
proof (cases n)
  case NaN
  have "parseFloat (show_num NaN) = Some NaN" by code_simp
  with NaN show ?thesis by simp
next
  case (Num i)
  assume p: "proper (JNum n)"
  obtain c s where cs: "show_nat (nat \<bar>i\<bar>) = c # s"
    by (cases "show_nat (nat \<bar>i\<bar>)") auto
  have d: "\<forall>d\<in>set (c # s). is_digit_char d"
    using show_nat_digits [of "nat \<bar>i\<bar>"] by (simp only: cs)
  then have c: "\<not> is_space c" "c \<noteq> CHR ''-''" "c \<noteq> CHR ''+''" "c \<noteq> CHR ''I''"
    by (auto simp: is_space_def is_digit_char_def)
  have w: "takeWhile is_digit_char (c # s) = c # s" "dropWhile is_digit_char (c # s) = []"
    using d by (simp_all add: takeWhile_eq_all_conv dropWhile_eq_Nil_conv)
  have "exact_number neg (c # s) = Some (Num (if neg then - \<bar>i\<bar> else \<bar>i\<bar>))" for neg
    using exact_number_show [of "nat \<bar>i\<bar>" neg] p by (simp add: cs Num)
  moreover have "\<not> is_space (CHR ''-'')" "\<not> has_fraction []"
    by code_simp+
  ultimately show ?thesis
    using c w cs by (cases "i < 0") (simp_all add: Num show_int_def parseFloat_def trimStart_def)
qed

end
