(* ===== verification/Values.thy ===== *)
theory Values
  imports Blessings Json_Parse
begin

text \<open>
  The values of a controller, in \<^verbatim>\<open>src/gui/web/assets/scripts/stimulus.js\<close> (lines 2116-2142,
  2178-2230): a value is kept as text in a data attribute, written by a writer and read by a reader
  of its declared type.
\<close>

section \<open>Readers and writers\<close>

text \<open>
  What reading gives: a value, an exception, or a value that holds a number which is no exact integer or
  a code unit above 255 (\<^const>\<open>Beyond\<close>). The model has a value of the same shape for it.
\<close>

datatype reading = Reads json | Throws string | Reads_beyond json

definition read_array :: "string \<Rightarrow> reading" where
  "read_array s =
     (case JSON_parse s of
        Rejected \<Rightarrow> Throws ''SyntaxError''
      | Parsed v \<Rightarrow> (case v of JArr _ \<Rightarrow> Reads v | _ \<Rightarrow> Throws ''TypeError: Expected array'')
      | Beyond v \<Rightarrow> (case v of JArr _ \<Rightarrow> Reads_beyond v | _ \<Rightarrow> Throws ''TypeError: Expected array''))"

definition read_boolean :: "string \<Rightarrow> reading" where
  "read_boolean s = Reads (JBool (\<not> (s = ''0'' \<or> s = ''false'')))"

definition read_number :: "string \<Rightarrow> reading" where
  "read_number s = (case parseFloat s of Some n \<Rightarrow> Reads (JNum n) | None \<Rightarrow> Reads_beyond (JNum NaN))"

definition read_object :: "string \<Rightarrow> reading" where
  "read_object s =
     (case JSON_parse s of
        Rejected \<Rightarrow> Throws ''SyntaxError''
      | Parsed v \<Rightarrow> (case v of JObj _ \<Rightarrow> Reads v | _ \<Rightarrow> Throws ''TypeError: Expected object'')
      | Beyond v \<Rightarrow> (case v of JObj _ \<Rightarrow> Reads_beyond v | _ \<Rightarrow> Throws ''TypeError: Expected object''))"

definition read_string :: "string \<Rightarrow> reading" where
  "read_string s = Reads (JStr s)"

definition readers :: "value_type \<Rightarrow> string \<Rightarrow> reading" where
  "readers t =
     (case t of
        Array_type \<Rightarrow> read_array
      | Boolean_type \<Rightarrow> read_boolean
      | Number_type \<Rightarrow> read_number
      | Object_type \<Rightarrow> read_object
      | String_type \<Rightarrow> read_string)"

definition writeJSON :: "json \<Rightarrow> string" where
  "writeJSON v = stringify v"

definition writeString :: "json \<Rightarrow> string" where
  "writeString v = json_to_string v"

text \<open>The types without a writer of their own have the default one.\<close>

definition writers :: "value_type \<Rightarrow> json \<Rightarrow> string" where
  "writers t = (case t of Array_type \<Rightarrow> writeJSON | Object_type \<Rightarrow> writeJSON | _ \<Rightarrow> writeString)"

section \<open>The properties of a value\<close>

definition get_value :: "document \<Rightarrow> scope \<Rightarrow> value_descriptor \<Rightarrow> reading" where
  "get_value doc sc vd =
     (case DataMap_get doc sc (v_key vd) of
        Some s \<Rightarrow> readers (v_type vd) s
      | None \<Rightarrow> Reads (defaultValue vd))"

definition set_value :: "scope \<Rightarrow> value_descriptor \<Rightarrow> jsval \<Rightarrow> document \<Rightarrow> document" where
  "set_value sc vd v doc =
     (case v of
        Undefined \<Rightarrow> fst (DataMap_delete sc (v_key vd) doc)
      | JV v \<Rightarrow> fst (DataMap_set sc (v_key vd) (writers (v_type vd) v) doc))"

definition has_value :: "document \<Rightarrow> scope \<Rightarrow> value_descriptor \<Rightarrow> bool" where
  "has_value doc sc vd = DataMap_has doc sc (v_key vd)"

section \<open>Types of values\<close>

fun has_type :: "json \<Rightarrow> value_type \<Rightarrow> bool" where
  "has_type (JArr _) t \<longleftrightarrow> t = Array_type"
| "has_type (JBool _) t \<longleftrightarrow> t = Boolean_type"
| "has_type (JNum _) t \<longleftrightarrow> t = Number_type"
| "has_type (JObj _) t \<longleftrightarrow> t = Object_type"
| "has_type (JStr _) t \<longleftrightarrow> t = String_type"
| "has_type JNull t \<longleftrightarrow> False"

text \<open>What is read after a value has been written.\<close>

definition kept_as :: "json \<Rightarrow> json" where
  "kept_as v = (case v of JArr _ \<Rightarrow> stored v | JObj _ \<Rightarrow> stored v | _ \<Rightarrow> v)"

lemma reader_type: "readers t s = Reads v \<Longrightarrow> has_type v t \<and> proper v"
  by (auto simp: readers_def read_array_def read_boolean_def read_number_def read_object_def read_string_def
      split: value_type.splits parsed.splits json.splits option.splits
      dest: JSON_parse_proper parseFloat_proper)

lemma reader_beyond: "readers t s = Reads_beyond v \<Longrightarrow> has_type v t \<and> t \<in> {Array_type, Number_type, Object_type}"
  by (auto simp: readers_def read_array_def read_boolean_def read_number_def read_object_def read_string_def
      split: value_type.splits parsed.splits json.splits option.splits)

lemma reader_throws:
  "readers t s = Throws e \<Longrightarrow>
     t = Array_type \<and> e \<in> {''SyntaxError'', ''TypeError: Expected array''} \<or>
     t = Object_type \<and> e \<in> {''SyntaxError'', ''TypeError: Expected object''}"
  by (auto simp: readers_def read_array_def read_boolean_def read_number_def read_object_def read_string_def
      split: value_type.splits parsed.splits json.splits option.splits)

lemma read_written: "has_type v t \<Longrightarrow> proper v \<Longrightarrow> readers t (writers t v) = Reads (kept_as v)"
  using JSON_parse_stringify [of v]
  by (cases v)
    (auto simp: readers_def writers_def writeJSON_def writeString_def read_array_def read_boolean_def
      read_number_def read_object_def read_string_def kept_as_def parseFloat_show_num)

lemma get_set_value:
  assumes "document_wf doc" "get_node doc (scope_element sc) \<noteq> None"
  shows "DataMap_get (set_value sc vd v doc) sc (v_key vd) =
      (case v of Undefined \<Rightarrow> None | JV v \<Rightarrow> Some (writers (v_type vd) v))"
  using assms
  by (cases v)
    (auto simp: set_value_def DataMap_get_def DataMap_set_def DataMap_delete_def DataMap_has_def hasAttribute_def
      getAttribute_setAttribute getAttribute_removeAttribute Let_def)

lemma default_typed: "has_type (defaultValue vd) (v_type vd) \<and> proper (defaultValue vd)"
  by (cases "v_type vd") (simp_all add: defaultValue_def defaultValuesByType_def)

end
