(* ===== verification/Inheritance.thy ===== *)
theory Inheritance
  imports Values
begin

text \<open>
  How a controller class gets the properties it declares, in
  \<^verbatim>\<open>src/gui/web/assets/scripts/stimulus.js\<close> (lines 1210-1346, 2046-2115): classes with their
  static declarations, the blessings that turn declarations into properties, and the class
  \<open>bless\<close> puts in front of the declared one, whose prototype shadows it.
\<close>

section \<open>Classes\<close>

text \<open>
  A property of a prototype is a value or a pair of accessors. The members stand for the functions:
  the getters and setters the blessings make, and the functions a class has itself, by name.
\<close>

datatype member =
    Class_get string | Class_has string
  | Target_get string | Targets_get string | Target_has string
  | Value_map_get "(string \<times> type_constant) list"
  | Value_get value_descriptor | Value_set value_descriptor | Value_has value_descriptor
  | Own_member string

datatype property = Data member | Accessor "member option" "member option"

text \<open>
  A static property is an array (of names), an object (of types), or something that is neither and
  has no keys, like \<open>null\<close>.
\<close>

datatype static_value = Static_array "string list" | Static_object "(string \<times> type_constant) list" | Static_other

text \<open>
  A constructor: its own static properties, the own properties of its prototype, and the
  constructor it extends.
\<close>

datatype constructor_fn =
  Constructor (own_static: "string \<Rightarrow> static_value option") (own_property: "string \<Rightarrow> property option")
    (prototype_of: "constructor_fn option")

text \<open>\<open>constructor[name]\<close> is inherited from the constructor it extends, as is \<open>this.name\<close>.\<close>

fun get_static :: "constructor_fn \<Rightarrow> string \<Rightarrow> static_value option" where
  "get_static (Constructor s m p) name =
     (case s name of Some v \<Rightarrow> Some v | None \<Rightarrow> (case p of None \<Rightarrow> None | Some c \<Rightarrow> get_static c name))"

fun find_property :: "constructor_fn \<Rightarrow> string \<Rightarrow> property option" where
  "find_property (Constructor s m p) name =
     (case m name of Some v \<Rightarrow> Some v | None \<Rightarrow> (case p of None \<Rightarrow> None | Some c \<Rightarrow> find_property c name))"

section \<open>Inherited declarations\<close>

fun ancestors_up :: "constructor_fn \<Rightarrow> constructor_fn list" where
  "ancestors_up (Constructor s m p) =
     Constructor s m p # (case p of None \<Rightarrow> [] | Some c \<Rightarrow> ancestors_up c)"

definition getAncestorsForConstructor :: "constructor_fn \<Rightarrow> constructor_fn list" where
  "getAncestorsForConstructor c = rev (ancestors_up c)"

definition getOwnStaticArrayValues :: "constructor_fn \<Rightarrow> string \<Rightarrow> string list" where
  "getOwnStaticArrayValues c propertyName =
     (case get_static c propertyName of Some (Static_array xs) \<Rightarrow> xs | _ \<Rightarrow> [])"

text \<open>The keys of an object with their values; those of an array are its indices.\<close>

fun static_pairs :: "static_value \<Rightarrow> (string \<times> type_constant) list" where
  "static_pairs (Static_object kvs) = own_entries kvs"
| "static_pairs (Static_array xs) = zip (map show_nat [0..<length xs]) (map Other_constant xs)"
| "static_pairs Static_other = []"

definition getOwnStaticObjectPairs :: "constructor_fn \<Rightarrow> string \<Rightarrow> (string \<times> type_constant) list" where
  "getOwnStaticObjectPairs c propertyName =
     (case get_static c propertyName of None \<Rightarrow> [] | Some v \<Rightarrow> static_pairs v)"

definition readInheritableStaticArrayValues :: "constructor_fn \<Rightarrow> string \<Rightarrow> string list" where
  "readInheritableStaticArrayValues c propertyName =
     foldl (\<lambda>values c. foldl (\<lambda>values name. Set_add name values) values (getOwnStaticArrayValues c propertyName))
       [] (getAncestorsForConstructor c)"

definition readInheritableStaticObjectPairs :: "constructor_fn \<Rightarrow> string \<Rightarrow> (string \<times> type_constant) list" where
  "readInheritableStaticObjectPairs c propertyName =
     foldl (\<lambda>pairs c. pairs @ getOwnStaticObjectPairs c propertyName) [] (getAncestorsForConstructor c)"

section \<open>The blessings\<close>

text \<open>A property descriptor as the blessings make it, and objects of them.\<close>

record accessor =
  acc_get :: "member option"
  acc_set :: "member option"

type_synonym properties = "(string \<times> accessor) list"

abbreviation getter :: "member \<Rightarrow> accessor" where
  "getter m \<equiv> \<lparr>acc_get = Some m, acc_set = None\<rparr>"

definition Object_assign :: "(string \<times> 'v) list \<Rightarrow> (string \<times> 'v) list \<Rightarrow> (string \<times> 'v) list" where
  "Object_assign target source = foldl (\<lambda>target (k, v). Map_set k v target) target (own_entries source)"

definition propertiesForClassDefinition :: "string \<Rightarrow> properties" where
  "propertiesForClassDefinition key =
     (let name = key @ ''Class''
      in [(name, getter (Class_get key)), (''has'' @ capitalize name, getter (Class_has key))])"

definition ClassPropertiesBlessing :: "constructor_fn \<Rightarrow> properties" where
  "ClassPropertiesBlessing c =
     foldl (\<lambda>properties classDefinition. Object_assign properties (propertiesForClassDefinition classDefinition))
       [] (readInheritableStaticArrayValues c ''classes'')"

definition propertiesForTargetDefinition :: "string \<Rightarrow> properties" where
  "propertiesForTargetDefinition name =
     [(name @ ''Target'', getter (Target_get name)), (name @ ''Targets'', getter (Targets_get name)),
      (''has'' @ capitalize name @ ''Target'', getter (Target_has name))]"

definition TargetPropertiesBlessing :: "constructor_fn \<Rightarrow> properties" where
  "TargetPropertiesBlessing c =
     foldl (\<lambda>properties targetDefinition. Object_assign properties (propertiesForTargetDefinition targetDefinition))
       [] (readInheritableStaticArrayValues c ''targets'')"

definition propertiesForValueDefinitionPair :: "string \<times> type_constant \<Rightarrow> string + properties" where
  "propertiesForValueDefinitionPair valueDefinitionPair =
     bind_sum (parseValueDefinitionPair valueDefinitionPair) (\<lambda>definition.
       Inr [(v_name definition, \<lparr>acc_get = Some (Value_get definition), acc_set = Some (Value_set definition)\<rparr>),
            (''has'' @ capitalize (v_name definition), getter (Value_has definition))])"

definition ValuePropertiesBlessing :: "constructor_fn \<Rightarrow> string + properties" where
  "ValuePropertiesBlessing c =
     (let valueDefinitionPairs = readInheritableStaticObjectPairs c ''values'';
          propertyDescriptorMap = [(''valueDescriptorMap'', getter (Value_map_get valueDefinitionPairs))]
      in foldl (\<lambda>properties valueDefinitionPair.
           bind_sum properties (\<lambda>properties.
             bind_sum (propertiesForValueDefinitionPair valueDefinitionPair) (\<lambda>ps.
               Inr (Object_assign properties ps))))
         (Inr propertyDescriptorMap) valueDefinitionPairs)"

text \<open>A blessing is a function; the static array names it.\<close>

definition run_blessing :: "string \<Rightarrow> constructor_fn \<Rightarrow> string + properties" where
  "run_blessing blessing c =
     (if blessing = ''ClassPropertiesBlessing'' then Inr (ClassPropertiesBlessing c)
      else if blessing = ''TargetPropertiesBlessing'' then Inr (TargetPropertiesBlessing c)
      else if blessing = ''ValuePropertiesBlessing'' then ValuePropertiesBlessing c
      else Inl ''TypeError: blessing is not a function'')"

section \<open>Blessing a class\<close>

definition assign_accessor :: "accessor \<Rightarrow> accessor \<Rightarrow> accessor" where
  "assign_accessor d d' =
     \<lparr>acc_get = (case acc_get d' of None \<Rightarrow> acc_get d | Some g \<Rightarrow> Some g),
      acc_set = (case acc_set d' of None \<Rightarrow> acc_set d | Some s \<Rightarrow> Some s)\<rparr>"

definition merge_property :: "properties \<Rightarrow> string \<times> accessor \<Rightarrow> properties" where
  "merge_property blessedProperties kd =
     (let (key, d) = kd;
          descriptor = (case Map_get blessedProperties key of None \<Rightarrow> \<lparr>acc_get = None, acc_set = None\<rparr> | Some d \<Rightarrow> d)
      in Map_set key (assign_accessor descriptor d) blessedProperties)"

definition getBlessedProperties :: "constructor_fn \<Rightarrow> string + properties" where
  "getBlessedProperties c =
     foldl (\<lambda>blessedProperties blessing.
         bind_sum blessedProperties (\<lambda>blessedProperties.
           bind_sum (run_blessing blessing c) (\<lambda>properties.
             Inr (foldl merge_property blessedProperties (own_entries properties)))))
       (Inr []) (readInheritableStaticArrayValues c ''blessings'')"

definition getOwnKeys :: "properties \<Rightarrow> string list" where
  "getOwnKeys properties = map fst (own_entries properties)"

definition getShadowedDescriptor ::
    "(string \<Rightarrow> property option) \<Rightarrow> properties \<Rightarrow> string \<Rightarrow> accessor option" where
  "getShadowedDescriptor prototype properties key =
     (case prototype key of
        Some (Data m) \<Rightarrow> None
      | Some (Accessor g s) \<Rightarrow>
          map_option (\<lambda>d. \<lparr>acc_get = (case g of None \<Rightarrow> acc_get d | Some g \<Rightarrow> Some g),
            acc_set = (case s of None \<Rightarrow> acc_set d | Some s \<Rightarrow> Some s)\<rparr>) (Map_get properties key)
      | None \<Rightarrow> Map_get properties key)"

definition getShadowProperties :: "(string \<Rightarrow> property option) \<Rightarrow> properties \<Rightarrow> properties" where
  "getShadowProperties prototype properties =
     foldl (\<lambda>shadowProperties key.
         (case getShadowedDescriptor prototype properties key of
            None \<Rightarrow> shadowProperties
          | Some descriptor \<Rightarrow> Object_assign shadowProperties [(key, descriptor)]))
       [] (getOwnKeys properties)"

text \<open>
  \<open>extend\<close> makes a class without declarations of its own; its prototype has the constructor.
\<close>

definition extend_class :: "constructor_fn \<Rightarrow> constructor_fn" where
  "extend_class c =
     Constructor (\<lambda>_. None) (\<lambda>name. if name = ''constructor'' then Some (Data (Own_member ''extended'')) else None) (Some c)"

definition defineProperties :: "constructor_fn \<Rightarrow> properties \<Rightarrow> constructor_fn" where
  "defineProperties c ps =
     Constructor (own_static c)
       (\<lambda>name. case Map_get ps name of Some d \<Rightarrow> Some (Accessor (acc_get d) (acc_set d)) | None \<Rightarrow> own_property c name)
       (prototype_of c)"

definition shadow :: "constructor_fn \<Rightarrow> properties \<Rightarrow> constructor_fn" where
  "shadow c properties =
     (let shadowConstructor = extend_class c;
          shadowProperties = getShadowProperties (own_property c) properties
      in defineProperties shadowConstructor shadowProperties)"

definition bless :: "constructor_fn \<Rightarrow> string + constructor_fn" where
  "bless c = bind_sum (getBlessedProperties c) (\<lambda>properties. Inr (shadow c properties))"

text \<open>The class \<open>Controller\<close> every controller extends.\<close>

definition Controller_class :: constructor_fn where
  "Controller_class =
     Constructor
       (map_of [(''blessings'', Static_array [''ClassPropertiesBlessing'', ''TargetPropertiesBlessing'', ''ValuePropertiesBlessing'']),
          (''targets'', Static_array []), (''values'', Static_object [])])
       (map_of ([(name, Accessor (Some (Own_member name)) None).
            name \<leftarrow> [''application'', ''scope'', ''element'', ''identifier'', ''targets'', ''classes'', ''data'']] @
          [(name, Data (Own_member name)). name \<leftarrow> [''constructor'', ''initialize'', ''connect'', ''disconnect'']]))
       None"

section \<open>What a class inherits\<close>

lemma foldl_Set_add: "foldl (\<lambda>values name. Set_add name values) acc xs = fold Set_add xs acc"
  by (simp add: foldl_conv_fold)

lemma inherited_arrays:
  "set (readInheritableStaticArrayValues c p) = (\<Union>a\<in>set (ancestors_up c). set (getOwnStaticArrayValues a p))"
  "distinct (readInheritableStaticArrayValues c p)"
proof -
  have "set (foldl (\<lambda>vs c. fold Set_add (getOwnStaticArrayValues c p) vs) acc cs) =
      set acc \<union> (\<Union>a\<in>set cs. set (getOwnStaticArrayValues a p)) \<and>
    (distinct acc \<longrightarrow> distinct (foldl (\<lambda>vs c. fold Set_add (getOwnStaticArrayValues c p) vs) acc cs))"
    for acc and cs :: "constructor_fn list"
    by (induction cs arbitrary: acc) (auto simp: set_fold_Set_add distinct_fold_Set_add)
  then show "set (readInheritableStaticArrayValues c p) = (\<Union>a\<in>set (ancestors_up c). set (getOwnStaticArrayValues a p))"
    "distinct (readInheritableStaticArrayValues c p)"
    by (simp_all add: readInheritableStaticArrayValues_def getAncestorsForConstructor_def foldl_Set_add)
qed

lemma inherited_pairs:
  "readInheritableStaticObjectPairs c p =
     concat (map (\<lambda>a. getOwnStaticObjectPairs a p) (rev (ancestors_up c)))"
proof -
  have "foldl (\<lambda>pairs c. pairs @ getOwnStaticObjectPairs c p) acc cs =
      acc @ concat (map (\<lambda>a. getOwnStaticObjectPairs a p) cs)" for acc and cs :: "constructor_fn list"
    by (induction cs arbitrary: acc) auto
  then show ?thesis by (simp add: readInheritableStaticObjectPairs_def getAncestorsForConstructor_def)
qed

text \<open>The names a class or one of its ancestors lists itself, and the type of the nearest declaration.\<close>

definition declares :: "constructor_fn \<Rightarrow> string \<Rightarrow> string \<Rightarrow> bool" where
  "declares a p name \<longleftrightarrow> (case own_static a p of Some (Static_array xs) \<Rightarrow> name \<in> set xs | _ \<Rightarrow> False)"

fun nearest_declaration :: "constructor_fn \<Rightarrow> string \<Rightarrow> string \<Rightarrow> type_constant option" where
  "nearest_declaration (Constructor s m q) p key =
     (case (case s p of None \<Rightarrow> None | Some v \<Rightarrow> map_of (rev (static_pairs v)) key) of
        Some t \<Rightarrow> Some t
      | None \<Rightarrow> (case q of None \<Rightarrow> None | Some c \<Rightarrow> nearest_declaration c p key))"

lemma get_static_own:
  "get_static c p = Some v \<Longrightarrow> \<exists>a\<in>set (ancestors_up c). own_static a p = Some v"
  by (induction c p rule: get_static.induct) (auto split: option.splits)

lemma own_get_static: "own_static a p = Some v \<Longrightarrow> get_static a p = Some v"
  by (cases a) simp

lemma ancestors_up_trans: "a \<in> set (ancestors_up b) \<Longrightarrow> b \<in> set (ancestors_up c) \<Longrightarrow> a \<in> set (ancestors_up c)"
  by (induction c rule: ancestors_up.induct) (auto split: option.splits)

lemma inherited_names:
  "name \<in> set (readInheritableStaticArrayValues c p) \<longleftrightarrow> (\<exists>a\<in>set (ancestors_up c). declares a p name)"
proof -
  have "name \<in> set (getOwnStaticArrayValues a p) \<longleftrightarrow>
      (\<exists>xs. get_static a p = Some (Static_array xs) \<and> name \<in> set xs)" for a
    by (cases "get_static a p") (auto simp: getOwnStaticArrayValues_def split: static_value.splits)
  moreover have "declares a p name \<longleftrightarrow> (\<exists>xs. own_static a p = Some (Static_array xs) \<and> name \<in> set xs)" for a
    by (auto simp: declares_def split: option.splits static_value.splits)
  moreover have "(\<exists>a\<in>set (ancestors_up c). get_static a p = Some v) \<longleftrightarrow> (\<exists>a\<in>set (ancestors_up c). own_static a p = Some v)" for v
    by (metis get_static_own own_get_static ancestors_up_trans)
  ultimately show ?thesis
    unfolding inherited_arrays(1) UN_iff by blast
qed

lemma pairs_up:
  "readInheritableStaticObjectPairs (Constructor s m q) p =
     (case q of None \<Rightarrow> [] | Some c \<Rightarrow> readInheritableStaticObjectPairs c p) @
     getOwnStaticObjectPairs (Constructor s m q) p"
  by (simp add: inherited_pairs split: option.split)

lemma inherited_last:
  "map_of (rev (readInheritableStaticObjectPairs c p)) key = nearest_declaration c p key \<and>
   (map_of (rev (getOwnStaticObjectPairs c p)) key = Some t \<longrightarrow> nearest_declaration c p key = Some t)"
proof (induction c arbitrary: t)
  case (Constructor s m q)
  show ?case
  proof (cases q)
    case None
    then show ?thesis
      by (auto simp: pairs_up getOwnStaticObjectPairs_def split: option.splits)
  next
    case (Some c)
    have ih: "map_of (rev (readInheritableStaticObjectPairs c p)) key = nearest_declaration c p key"
      "map_of (rev (getOwnStaticObjectPairs c p)) key = Some t \<Longrightarrow> nearest_declaration c p key = Some t" for t
      using Constructor.IH [of c] Some by auto
    have "getOwnStaticObjectPairs (Constructor s m q) p =
        (case s p of None \<Rightarrow> getOwnStaticObjectPairs c p | Some v \<Rightarrow> static_pairs v)"
      by (simp add: getOwnStaticObjectPairs_def Some split: option.split)
    then show ?thesis
      by (auto simp: pairs_up Some ih map_add_def split: option.splits)
  qed
qed

end
