(* ===== verification/Blessed_Class.thy ===== *)
theory Blessed_Class
  imports Inheritance
begin

text \<open>
  What is found on a blessed class: the properties each blessing makes, told apart by the ends of
  their names, how they are merged, and what the class's own properties shadow.
\<close>

section \<open>Looking up what has been assigned\<close>

lemma Map_get_own_entries: "Map_wf s \<Longrightarrow> Map_get (own_entries s) k = Map_get s k"
  by (rule fun_cong [of "map_of (own_entries s)"])
    (simp add: map_of_inject_set distinct_own_entries mset_own_entries)

lemma foldl_Map_set_get:
  "Map_get (foldl (\<lambda>t (k, v). Map_set k v t) t xs) k =
     (case Map_get (rev xs) k of Some v \<Rightarrow> Some v | None \<Rightarrow> Map_get t k)"
  by (induction xs arbitrary: t) (auto simp: map_add_def split: option.splits)

lemma Map_get_rev: "Map_wf s \<Longrightarrow> Map_get (rev s) k = Map_get s k"
  by (metis map_of_inject_set distinct_rev rev_map set_rev)

lemma Object_assign_get:
  "Map_wf s \<Longrightarrow> Map_get (Object_assign t s) k = (case Map_get s k of Some v \<Rightarrow> Some v | None \<Rightarrow> Map_get t k)"
  by (simp add: Object_assign_def foldl_Map_set_get Map_get_rev distinct_own_entries Map_get_own_entries)

lemma Object_assign_wf: "Map_wf t \<Longrightarrow> Map_wf (Object_assign t s)"
proof -
  have "Map_wf (foldl (\<lambda>t (k, v). Map_set k v t) t xs)" if "Map_wf t" for t :: "(string \<times> 'a) list" and xs
    using that by (induction xs arbitrary: t) auto
  then show "Map_wf t \<Longrightarrow> Map_wf (Object_assign t s)" by (simp add: Object_assign_def)
qed

text \<open>Objects assigned one after the other: the last that has the key wins.\<close>

abbreviation assign_all :: "('d \<Rightarrow> (string \<times> 'v) list) \<Rightarrow> (string \<times> 'v) list \<Rightarrow> 'd list \<Rightarrow> (string \<times> 'v) list" where
  "assign_all f t ds \<equiv> foldl (\<lambda>t d. Object_assign t (f d)) t ds"

lemma assign_all_get:
  assumes "\<And>d. Map_wf (f d)"
  shows "Map_get (assign_all f t ds) k =
    (case List.find (\<lambda>d. Map_get (f d) k \<noteq> None) (rev ds) of Some d \<Rightarrow> Map_get (f d) k | None \<Rightarrow> Map_get t k)"
proof (induction ds rule: rev_induct)
  case (snoc d ds)
  then show ?case
    using assms by (auto simp: Object_assign_get split: option.split)
qed simp

lemma assign_all_wf: "Map_wf t \<Longrightarrow> Map_wf (assign_all f t ds)"
  by (induction ds arbitrary: t) (simp_all add: Object_assign_wf)

lemma assign_all_absent:
  assumes "\<And>d. Map_wf (f d)" "\<forall>d\<in>set ds. Map_get (f d) k = None"
  shows "Map_get (assign_all f t ds) k = Map_get t k"
proof -
  have "List.find (\<lambda>d. Map_get (f d) k \<noteq> None) (rev ds) = None"
    using assms(2) by (simp add: find_None_iff)
  then show ?thesis by (simp only: assign_all_get [OF assms(1)] option.case)
qed

lemma assign_all_unique:
  assumes "\<And>d. Map_wf (f d)" "d \<in> set ds" "Map_get (f d) k = Some v"
    "\<forall>d'\<in>set ds. Map_get (f d') k \<noteq> None \<longrightarrow> d' = d"
  shows "Map_get (assign_all f t ds) k = Some v"
proof (cases "List.find (\<lambda>d. Map_get (f d) k \<noteq> None) (rev ds)")
  case None
  then show ?thesis using assms(2,3) by (auto simp: find_None_iff)
next
  case (Some d')
  then have "d' \<in> set (rev ds)" "Map_get (f d') k \<noteq> None"
    using find_Some_iff [THEN iffD1, OF Some] nth_mem [of _ "rev ds"] by fastforce+
  with assms(4) have "d' = d" by simp
  with Some assms(3) show ?thesis by (simp only: assign_all_get [OF assms(1)] option.case)
qed

section \<open>Names of properties\<close>

lemma length_capitalize [simp]: "length (capitalize s) = length s"
  by (cases s) auto

lemma capitalize_append: "s \<noteq> [] \<Longrightarrow> capitalize (s @ t) = capitalize s @ t"
  by (cases s) auto

lemma capitalize_Class: "capitalize (key @ ''Class'') = capitalize key @ ''Class''"
proof (cases key)
  case Nil
  have "capitalize ''Class'' = ''Class''" by code_simp
  then show ?thesis by (simp add: Nil)
qed simp

lemma camelize_value: "camelize (x @ ''-value'') = camelize x @ ''Value''"
proof (induction x rule: camelize.induct)
  case 1
  show ?case by code_simp
next
  case (2 c)
  have "camelize ''-value'' = ''Value''" "\<not> is_lower_char (CHR ''-'')" "\<not> is_digit_char (CHR ''-'')"
    by code_simp+
  then show ?case by (simp add: camelize.simps(3) [of c "CHR ''-''"] del: camelize.simps(3))
next
  case (3 c d cs)
  then show ?case by (cases "is_separator c \<and> (is_lower_char d \<or> is_digit_char d)") auto
qed

text \<open>The name of a value without separators: the words of its attribute, all but the first with a capital.\<close>

definition value_word :: "string \<Rightarrow> string" where
  "value_word token = camelize (dasherize token)"

lemma v_name_word: "v_name (valueDescriptorForTokenAndType token t) = value_word token @ ''Value''"
  by (simp add: valueDescriptorForTokenAndType_def Let_def camelize_value value_word_def)

lemma value_word_plain: "list_all (\<lambda>c. \<not> is_separator c) token \<Longrightarrow> value_word token = token"
  by (simp add: value_word_def camelize_dasherize list_all_iff)

lemma value_name_end: "\<exists>y. y \<noteq> [] \<and> v_name (valueDescriptorForTokenAndType token t) = y @ ''alue''"
  by (intro exI [of _ "value_word token @ ''V''"]) (simp add: v_name_word)

section \<open>What a blessing makes\<close>

lemma class_properties_get:
  "Map_get (propertiesForClassDefinition key) k =
     (if k = key @ ''Class'' then Some (getter (Class_get key))
      else if k = ''has'' @ capitalize key @ ''Class'' then Some (getter (Class_has key)) else None)"
  by (simp add: propertiesForClassDefinition_def Let_def capitalize_Class)

lemma target_properties_get:
  "Map_get (propertiesForTargetDefinition name) k =
     (if k = name @ ''Target'' then Some (getter (Target_get name))
      else if k = name @ ''Targets'' then Some (getter (Targets_get name))
      else if k = ''has'' @ capitalize name @ ''Target'' then Some (getter (Target_has name)) else None)"
  by (simp add: propertiesForTargetDefinition_def)

lemma length_neq: "length xs \<noteq> length ys \<Longrightarrow> xs \<noteq> ys"
  by blast

lemma class_properties_wf: "Map_wf (propertiesForClassDefinition key)"
  by (auto simp: propertiesForClassDefinition_def Let_def capitalize_Class intro!: length_neq)

lemma target_properties_wf: "Map_wf (propertiesForTargetDefinition name)"
  by (auto simp: propertiesForTargetDefinition_def dest: arg_cong [of _ _ rev] intro!: length_neq)

lemma value_properties_Inr:
  "propertiesForValueDefinitionPair (token, c) = Inr ps \<longleftrightarrow>
     (\<exists>t. parseValueTypeConstant c = Inr t \<and>
        ps = [(v_name (valueDescriptorForTokenAndType token t),
                \<lparr>acc_get = Some (Value_get (valueDescriptorForTokenAndType token t)),
                 acc_set = Some (Value_set (valueDescriptorForTokenAndType token t))\<rparr>),
              (''has'' @ capitalize (v_name (valueDescriptorForTokenAndType token t)),
                getter (Value_has (valueDescriptorForTokenAndType token t)))])"
  by (auto simp: propertiesForValueDefinitionPair_def parseValueDefinitionPair_def bind_sum_Inr_iff)

lemma value_properties_wf: "propertiesForValueDefinitionPair p = Inr ps \<Longrightarrow> Map_wf ps"
  by (cases p) (auto simp: value_properties_Inr intro!: length_neq)

text \<open>The last characters tell the properties of the blessings apart.\<close>

lemma ends_apart:
  "x @ ''Class'' \<noteq> y @ ''Target''" "x @ ''Class'' \<noteq> y @ ''Targets''" "x @ ''alue'' \<noteq> y @ ''Target''"
  "x @ ''alue'' \<noteq> y @ ''Targets''" "x @ ''alue'' \<noteq> y @ ''Class''" "x @ ''alue'' \<noteq> ''valueDescriptorMap''"
  "x @ ''Target'' \<noteq> ''valueDescriptorMap''" "x @ ''Targets'' \<noteq> ''valueDescriptorMap''"
  "x @ ''Target'' \<noteq> y @ ''Targets''" "x @ ''Class'' \<noteq> ''valueDescriptorMap''" "x @ ''Class'' \<noteq> ''constructor''"
  "x @ ''Target'' \<noteq> ''constructor''" "x @ ''Targets'' \<noteq> ''constructor''" "x @ ''alue'' \<noteq> ''constructor''"
  by (auto dest: arg_cong [of _ _ rev])

definition value_properties :: "string \<times> type_constant \<Rightarrow> properties" where
  "value_properties p = (case propertiesForValueDefinitionPair p of Inr ps \<Rightarrow> ps | Inl _ \<Rightarrow> [])"

definition known_type :: "type_constant \<Rightarrow> bool" where
  "known_type t \<longleftrightarrow> (case t of Other_constant _ \<Rightarrow> False | _ \<Rightarrow> True)"

lemma value_properties_known:
  "known_type (snd p) \<Longrightarrow> propertiesForValueDefinitionPair p = Inr (value_properties p)"
  by (cases p; cases "snd p")
    (simp_all add: known_type_def value_properties_def propertiesForValueDefinitionPair_def parseValueDefinitionPair_def
      parseValueTypeConstant_def)

lemma value_properties_unknown:
  "\<not> known_type (snd p) \<Longrightarrow>
     \<exists>s. snd p = Other_constant s \<and> propertiesForValueDefinitionPair p = Inl (''Unknown value type constant \"'' @ s @ ''\"'')"
  by (cases p; cases "snd p")
    (simp_all add: known_type_def propertiesForValueDefinitionPair_def parseValueDefinitionPair_def parseValueTypeConstant_def)

text \<open>The first declaration of an unknown type stops the blessing.\<close>

definition unknown_declaration :: "(string \<times> type_constant) list \<Rightarrow> string option" where
  "unknown_declaration ps =
     (case List.find (\<lambda>p. \<not> known_type (snd p)) ps of
        Some (k, Other_constant s) \<Rightarrow> Some (''Unknown value type constant \"'' @ s @ ''\"'') | _ \<Rightarrow> None)"

lemma no_unknown_declaration: "unknown_declaration ps = None \<longleftrightarrow> (\<forall>p\<in>set ps. known_type (snd p))"
proof (induction ps)
  case (Cons p ps)
  show ?case
  proof (cases "known_type (snd p)")
    case True
    then have "unknown_declaration (p # ps) = unknown_declaration ps"
      by (simp add: unknown_declaration_def)
    with Cons True show ?thesis by simp
  next
    case False
    then show ?thesis
      by (cases p; cases "snd p") (simp_all add: unknown_declaration_def known_type_def)
  qed
qed (simp add: unknown_declaration_def)

lemma bind_sum_Inl_stays: "foldl (\<lambda>r p. bind_sum r (g p)) (Inl e) ps = Inl e"
  by (induction ps) auto

lemma value_fold:
  "foldl (\<lambda>r p. bind_sum r (\<lambda>properties. bind_sum (propertiesForValueDefinitionPair p) (\<lambda>ps. Inr (Object_assign properties ps))))
     (Inr init) ps =
   (case unknown_declaration ps of Some e \<Rightarrow> Inl e | None \<Rightarrow> Inr (assign_all value_properties init ps))"
proof (induction ps arbitrary: init)
  case (Cons p ps)
  show ?case
  proof (cases "known_type (snd p)")
    case True
    then have "unknown_declaration (p # ps) = unknown_declaration ps"
      by (simp add: unknown_declaration_def)
    with Cons True show ?thesis
      by (simp add: value_properties_known split: option.split)
  next
    case False
    then show ?thesis
      using value_properties_unknown [OF False]
      by (cases p) (auto simp: unknown_declaration_def bind_sum_Inl_stays)
  qed
qed (simp add: unknown_declaration_def)

lemma ValuePropertiesBlessing_eq:
  "ValuePropertiesBlessing c =
     (case unknown_declaration (readInheritableStaticObjectPairs c ''values'') of
        Some e \<Rightarrow> Inl e
      | None \<Rightarrow> Inr (assign_all value_properties
          [(''valueDescriptorMap'', getter (Value_map_get (readInheritableStaticObjectPairs c ''values'')))]
          (readInheritableStaticObjectPairs c ''values'')))"
  by (simp add: ValuePropertiesBlessing_def Let_def value_fold)

section \<open>The blessed properties\<close>

definition standard_blessings :: "constructor_fn \<Rightarrow> bool" where
  "standard_blessings c \<longleftrightarrow>
     readInheritableStaticArrayValues c ''blessings'' =
       [''ClassPropertiesBlessing'', ''TargetPropertiesBlessing'', ''ValuePropertiesBlessing'']"

definition merged :: "properties \<Rightarrow> properties \<Rightarrow> properties" where
  "merged bs ps = foldl merge_property bs (own_entries ps)"

definition no_accessor :: accessor where
  "no_accessor = \<lparr>acc_get = None, acc_set = None\<rparr>"

lemma merge_foldl:
  "Map_wf ps \<Longrightarrow> Map_get (foldl merge_property bs ps) k =
     (case Map_get ps k of None \<Rightarrow> Map_get bs k
      | Some d \<Rightarrow> Some (assign_accessor (case Map_get bs k of None \<Rightarrow> no_accessor | Some d0 \<Rightarrow> d0) d))"
  by (induction ps arbitrary: bs)
    (auto simp: merge_property_def Let_def no_accessor_def map_of_eq_None_iff [THEN iffD2] split: option.splits)

lemma merged_get:
  "Map_wf ps \<Longrightarrow> Map_get (merged bs ps) k =
     (case Map_get ps k of None \<Rightarrow> Map_get bs k
      | Some d \<Rightarrow> Some (assign_accessor (case Map_get bs k of None \<Rightarrow> no_accessor | Some d0 \<Rightarrow> d0) d))"
  by (simp add: merged_def merge_foldl distinct_own_entries Map_get_own_entries)

lemma merged_wf: "Map_wf bs \<Longrightarrow> Map_wf (merged bs ps)"
proof -
  have "Map_wf (foldl merge_property bs xs)" if "Map_wf bs" for bs xs
    using that by (induction xs arbitrary: bs) (auto simp: merge_property_def Let_def)
  then show "Map_wf bs \<Longrightarrow> Map_wf (merged bs ps)" by (simp add: merged_def)
qed

lemma getBlessedProperties_eq:
  assumes "standard_blessings c"
  shows "getBlessedProperties c =
    (case ValuePropertiesBlessing c of
       Inl e \<Rightarrow> Inl e
     | Inr vs \<Rightarrow> Inr (merged (merged (merged [] (ClassPropertiesBlessing c)) (TargetPropertiesBlessing c)) vs))"
  using assms
  by (cases "ValuePropertiesBlessing c")
    (simp_all add: getBlessedProperties_def standard_blessings_def run_blessing_def merged_def)

section \<open>Shadowing\<close>

lemma getShadowProperties_get:
  assumes "Map_wf ps"
  shows "Map_get (getShadowProperties prot ps) k = getShadowedDescriptor prot ps k"
proof -
  let ?f = "\<lambda>sp key. case getShadowedDescriptor prot ps key of None \<Rightarrow> sp | Some d \<Rightarrow> Object_assign sp [(key, d)]"
  have "Map_get (foldl ?f acc ks) k =
      (if k \<in> set ks then (case getShadowedDescriptor prot ps k of None \<Rightarrow> Map_get acc k | Some d \<Rightarrow> Some d) else Map_get acc k)"
    for acc and ks
    by (induction ks arbitrary: acc) (auto simp: Object_assign_get split: option.splits)
  moreover have "k \<notin> set (getOwnKeys ps) \<Longrightarrow> getShadowedDescriptor prot ps k = None"
  proof -
    assume "k \<notin> set (getOwnKeys ps)"
    then have "Map_get ps k = None"
      by (simp add: getOwnKeys_def mset_own_entries map_of_eq_None_iff)
    then show ?thesis by (simp add: getShadowedDescriptor_def split: option.split property.split)
  qed
  ultimately show ?thesis
    by (auto simp: getShadowProperties_def split: option.split)
qed

lemma find_property_shadow:
  assumes "Map_wf ps" "k \<noteq> ''constructor''"
  shows "find_property (shadow c ps) k =
    (case getShadowedDescriptor (own_property c) ps k of
       Some d \<Rightarrow> Some (Accessor (acc_get d) (acc_set d)) | None \<Rightarrow> find_property c k)"
  using assms
  by (simp add: shadow_def Let_def defineProperties_def extend_class_def getShadowProperties_get split: option.split)

text \<open>What is found under a name that one of the class's own properties may shadow.\<close>

definition shadowed :: "constructor_fn \<Rightarrow> string \<Rightarrow> accessor \<Rightarrow> property" where
  "shadowed c k d =
     (case own_property c k of
        Some (Data m) \<Rightarrow> Data m
      | Some (Accessor g s) \<Rightarrow>
          Accessor (case g of None \<Rightarrow> acc_get d | Some g \<Rightarrow> Some g) (case s of None \<Rightarrow> acc_set d | Some s \<Rightarrow> Some s)
      | None \<Rightarrow> Accessor (acc_get d) (acc_set d))"

lemma find_property_own: "own_property c k = Some m \<Longrightarrow> find_property c k = Some m"
  by (cases c) simp

lemma find_property_shadowed:
  assumes "Map_wf ps" "k \<noteq> ''constructor''" "Map_get ps k = Some d"
  shows "find_property (shadow c ps) k = Some (shadowed c k d)"
  using assms find_property_own [of c k]
  by (auto simp: find_property_shadow getShadowedDescriptor_def shadowed_def split: option.splits property.splits)

section \<open>The blessed class\<close>

lemma blessing_maps_wf:
  "Map_wf (ClassPropertiesBlessing c)" "Map_wf (TargetPropertiesBlessing c)"
  by (simp_all add: ClassPropertiesBlessing_def TargetPropertiesBlessing_def assign_all_wf)

lemma value_properties_distinct: "Map_wf (value_properties p)"
  using value_properties_wf by (cases "propertiesForValueDefinitionPair p") (simp_all add: value_properties_def)

lemma bless_eq:
  assumes "standard_blessings c"
  shows "bless c =
    (case ValuePropertiesBlessing c of
       Inl e \<Rightarrow> Inl e
     | Inr vs \<Rightarrow> Inr (shadow c (merged (merged (merged [] (ClassPropertiesBlessing c)) (TargetPropertiesBlessing c)) vs)))"
  using assms by (cases "ValuePropertiesBlessing c") (simp_all add: bless_def getBlessedProperties_eq)

lemma assign_accessor_none [simp]: "assign_accessor no_accessor d = d"
  by (cases d) (simp add: assign_accessor_def no_accessor_def split: option.split)

text \<open>A property that only one of the blessings makes.\<close>

lemma blessed_property:
  assumes "standard_blessings c" "bless c = Inr b" "ValuePropertiesBlessing c = Inr vs" "k \<noteq> ''constructor''"
    and "Map_get (ClassPropertiesBlessing c) k = x" "Map_get (TargetPropertiesBlessing c) k = y" "Map_get vs k = z"
    and "[x, y, z] \<in> {[Some d, None, None], [None, Some d, None], [None, None, Some d]}"
  shows "find_property b k = Some (shadowed c k d)"
proof -
  have vs: "Map_wf vs"
    using assms(3) by (auto simp: ValuePropertiesBlessing_eq assign_all_wf split: option.splits)
  let ?m = "merged (merged (merged [] (ClassPropertiesBlessing c)) (TargetPropertiesBlessing c)) vs"
  have b: "b = shadow c ?m"
    using assms(2) by (simp add: bless_eq [OF assms(1)] assms(3))
  have "Map_get ?m k = Some d"
    using assms(5-8) by (auto simp: merged_get vs blessing_maps_wf)
  moreover have "Map_wf ?m"
    by (simp add: merged_wf)
  ultimately show ?thesis
    unfolding b using assms(4) by (intro find_property_shadowed)
qed

lemma bless_Inr:
  "standard_blessings c \<Longrightarrow> bless c = Inr b \<Longrightarrow> \<exists>vs. ValuePropertiesBlessing c = Inr vs"
  by (cases "ValuePropertiesBlessing c") (simp_all add: bless_eq)

lemma class_map_target_name:
  "k = t @ ''Target'' \<or> k = t @ ''Targets'' \<or> k = t @ ''alue'' \<Longrightarrow> Map_get (ClassPropertiesBlessing c) k = None"
  using ends_apart unfolding ClassPropertiesBlessing_def
  by (subst assign_all_absent) (auto simp: class_properties_wf class_properties_get append_assoc [symmetric] simp del: append_assoc)

lemma value_properties_names:
  "Map_get (value_properties p) k \<noteq> None \<Longrightarrow> \<exists>y. k = y @ ''alue''"
proof (cases p)
  case (Pair token c)
  assume k: "Map_get (value_properties p) k \<noteq> None"
  then obtain t where t: "parseValueTypeConstant c = Inr t"
    by (cases "parseValueTypeConstant c")
      (auto simp: Pair value_properties_def propertiesForValueDefinitionPair_def parseValueDefinitionPair_def)
  obtain y where y: "y \<noteq> []" "v_name (valueDescriptorForTokenAndType token t) = y @ ''alue''"
    using value_name_end by blast
  with k t show ?thesis
    by (auto simp: capitalize_append simp flip: append_assoc simp: Pair value_properties_def propertiesForValueDefinitionPair_def parseValueDefinitionPair_def split: if_splits)
qed

lemma value_map_target_name:
  assumes "ValuePropertiesBlessing c = Inr vs" "k = t @ ''Target'' \<or> k = t @ ''Targets'' \<or> k = t @ ''Class''"
  shows "Map_get vs k = None"
proof -
  have k: "k \<noteq> ''valueDescriptorMap''" "\<forall>p. Map_get (value_properties p) k = None"
    using assms(2) ends_apart value_properties_names [of _ k] by (auto; metis)+
  then have "Map_get (assign_all value_properties init ps) k = Map_get init k" for init ps
    by (intro assign_all_absent value_properties_distinct) (simp only: ball_triv simp_thms)
  with k assms(1) show ?thesis
    by (auto simp: ValuePropertiesBlessing_eq split: option.splits)
qed

lemma target_map_value_name:
  "k = t @ ''alue'' \<or> k = t @ ''Class'' \<Longrightarrow> Map_get (TargetPropertiesBlessing c) k = None"
  using ends_apart unfolding TargetPropertiesBlessing_def
  by (subst assign_all_absent) (auto simp: target_properties_wf target_properties_get append_assoc [symmetric] simp del: append_assoc)

lemma target_keys:
  "Map_get (propertiesForTargetDefinition t') (t @ ''Target'') =
     (if t = t' then Some (getter (Target_get t'))
      else if t = ''has'' @ capitalize t' then Some (getter (Target_has t')) else None)"
  "Map_get (propertiesForTargetDefinition t') (t @ ''Targets'') =
     (if t = t' then Some (getter (Targets_get t')) else None)"
  "Map_get (propertiesForTargetDefinition t') ((''has'' @ capitalize t) @ ''Target'') =
     (if ''has'' @ capitalize t = t' then Some (getter (Target_get t'))
      else if capitalize t = capitalize t' then Some (getter (Target_has t')) else None)"
  unfolding target_properties_get append_assoc [symmetric, of "''has''"] append_same_eq
  using ends_apart(9) by (simp_all del: append_Cons append_assoc)

lemma find_map_of: "map_of xs k = Some v \<Longrightarrow> List.find (\<lambda>p. fst p = k) xs = Some (k, v)"
  by (induction xs) (auto split: if_splits)

lemma find_cong_set: "(\<And>x. x \<in> set xs \<Longrightarrow> P x = Q x) \<Longrightarrow> List.find P xs = List.find Q xs"
  by (induction xs) auto

lemma capitalize_Value: "capitalize (token @ ''Value'') = capitalize token @ ''Value''"
proof (cases token)
  case Nil
  have "capitalize ''Value'' = ''Value''" by code_simp
  then show ?thesis by (simp add: Nil)
qed simp

lemma value_keys:
  assumes "parseValueTypeConstant c = Inr t"
  shows "Map_get (value_properties (token', c)) (w @ ''Value'') =
    (if w = value_word token' then Some \<lparr>acc_get = Some (Value_get (valueDescriptorForTokenAndType token' t)),
        acc_set = Some (Value_set (valueDescriptorForTokenAndType token' t))\<rparr>
     else if w = ''has'' @ capitalize (value_word token') then Some (getter (Value_has (valueDescriptorForTokenAndType token' t)))
     else None)"
proof -
  have "''has'' @ capitalize (value_word token' @ ''Value'') = (''has'' @ capitalize (value_word token')) @ ''Value''"
    by (simp add: capitalize_Value)
  then show ?thesis
    unfolding value_properties_def propertiesForValueDefinitionPair_def parseValueDefinitionPair_def
    by (simp only: assms v_name_word Let_def prod.case bind_sum.simps sum.case map_of.simps fst_conv snd_conv fun_upd_apply append_same_eq)
qed

text \<open>No other declared value of the class makes the property of this one.\<close>

definition values_apart :: "constructor_fn \<Rightarrow> string \<Rightarrow> bool" where
  "values_apart c token \<longleftrightarrow>
     list_all (\<lambda>p. (value_word (fst p) = value_word token \<longrightarrow> fst p = token) \<and>
         value_word token \<noteq> ''has'' @ capitalize (value_word (fst p)))
       (readInheritableStaticObjectPairs c ''values'')"

lemma value_map_own_name:
  assumes vs: "ValuePropertiesBlessing c = Inr vs" and apart: "values_apart c token"
    and T: "nearest_declaration c ''values'' token = Some T" "parseValueTypeConstant T = Inr t"
  shows "Map_get vs (value_word token @ ''Value'') =
    Some \<lparr>acc_get = Some (Value_get (valueDescriptorForTokenAndType token t)),
      acc_set = Some (Value_set (valueDescriptorForTokenAndType token t))\<rparr>"
proof -
  let ?ps = "readInheritableStaticObjectPairs c ''values''" and ?k = "value_word token @ ''Value''"
  have ok: "(value_word (fst p) = value_word token \<longrightarrow> fst p = token) \<and> value_word token \<noteq> ''has'' @ capitalize (value_word (fst p))"
    if "p \<in> set ?ps" for p
    using apart that by (simp add: values_apart_def list_all_iff)
  have v: "unknown_declaration ?ps = None" "vs = assign_all value_properties
      [(''valueDescriptorMap'', getter (Value_map_get ?ps))] ?ps"
    using vs by (auto simp: ValuePropertiesBlessing_eq split: option.splits)
  have known: "\<exists>t. parseValueTypeConstant (snd p) = Inr t" if "p \<in> set ?ps" for p
  proof -
    have "known_type (snd p)"
      using v(1) that by (simp add: no_unknown_declaration)
    then show ?thesis by (cases "snd p") (simp_all add: known_type_def parseValueTypeConstant_def)
  qed
  have last: "map_of (rev ?ps) token = Some T"
    using T(1) inherited_last by metis
  have "Map_get (value_properties p) ?k \<noteq> None \<longleftrightarrow> fst p = token" if p: "p \<in> set ?ps" for p
  proof -
    obtain t where "parseValueTypeConstant (snd p) = Inr t" using known [OF p] by blast
    with ok [OF p] show ?thesis
      using value_keys [of "snd p" t "fst p" "value_word token"] by (auto simp del: append_Cons)
  qed
  then have "List.find (\<lambda>p. Map_get (value_properties p) ?k \<noteq> None) (rev ?ps) = Some (token, T)"
    using find_map_of [OF last] by (subst find_cong_set [where Q = "\<lambda>p. fst p = token"]) auto
  then have "Map_get vs ?k = Map_get (value_properties (token, T)) ?k"
    unfolding v(2) by (simp only: assign_all_get [OF value_properties_distinct] option.case)
  then show ?thesis
    using T(2) by (simp only: value_keys if_True simp_thms)
qed

end
