(* ===== verification/ElementObserver.thy ===== *)
theory ElementObserver
  imports Dom
begin

text \<open>
  The classes \<open>ElementObserver\<close> and \<open>AttributeObserver\<close> of
  \<^verbatim>\<open>src/gui/web/assets/scripts/stimulus.js\<close> (lines 340-546). An observer calls its delegate
  back; the delegate's own state is threaded through the operations as a second component
  (\<open>'d\<close>), so observers stack: the delegate of one observer is the next observer together with
  the state of its delegate. A callback that the delegate need not define is an option.

  The locale \<open>element_client\<close> is the protocol an \<open>ElementObserver\<close> keeps towards its
  delegate: an element is announced when it was not matched before, and only a matched element
  is reported as changed or unmatched. Every operation of the observer keeps an invariant
  that the delegate's callbacks keep under this protocol.
\<close>

section \<open>Delegates\<close>

record 'd element_delegate =
  matchElement :: "document \<Rightarrow> nat \<Rightarrow> bool"
  matchElementsInTree :: "document \<Rightarrow> nat \<Rightarrow> nat list"
  elementMatched :: "(document \<Rightarrow> nat \<Rightarrow> 'd \<Rightarrow> 'd) option"
  elementUnmatched :: "(document \<Rightarrow> nat \<Rightarrow> 'd \<Rightarrow> 'd) option"
  elementAttributeChanged :: "(document \<Rightarrow> nat \<Rightarrow> string \<Rightarrow> 'd \<Rightarrow> 'd) option"

definition call_back :: "(document \<Rightarrow> 'a \<Rightarrow> 'd \<Rightarrow> 'd) option \<Rightarrow> document \<Rightarrow> 'a \<Rightarrow> 'd \<Rightarrow> 'd" where
  "call_back f doc x d = (case f of None \<Rightarrow> d | Some f \<Rightarrow> f doc x d)"

section \<open>The class ElementObserver\<close>

text \<open>
  \<open>mutationObserver\<close> is \<open>None\<close> when it observes nothing, and else the records that wait for
  the next call of \<open>processMutations\<close>. A record lists nodes; only elements matter.
\<close>

datatype dom_node = Element_node nat | Other_node

datatype mutation =
    Attributes nat string
  | ChildList "dom_node list" "dom_node list"

record element_observer =
  element :: nat
  started :: bool
  elements :: "nat list"
  mutationObserver :: "mutation list option"

definition ElementObserver_new :: "nat \<Rightarrow> element_observer" where
  "ElementObserver_new e = \<lparr>element = e, started = False, elements = [], mutationObserver = None\<rparr>"

definition ElementObserver_elementFromNode :: "dom_node \<Rightarrow> nat option" where
  "ElementObserver_elementFromNode n = (case n of Element_node e \<Rightarrow> Some e | Other_node \<Rightarrow> None)"

definition ElementObserver_elementIsActive :: "document \<Rightarrow> element_observer \<Rightarrow> nat \<Rightarrow> bool" where
  "ElementObserver_elementIsActive doc s e =
     (if isConnected doc e \<noteq> isConnected doc (element s) then False
      else contains doc (element s) e)"

definition ElementObserver_addElement ::
    "'d element_delegate \<Rightarrow> document \<Rightarrow> nat \<Rightarrow> element_observer \<times> 'd \<Rightarrow> element_observer \<times> 'd" where
  "ElementObserver_addElement del doc e sd =
     (let (s, d) = sd
      in if e \<in> set (elements s) then (s, d)
         else if ElementObserver_elementIsActive doc s e then
           (s\<lparr>elements := Set_add e (elements s)\<rparr>, call_back (elementMatched del) doc e d)
         else (s, d))"

definition ElementObserver_removeElement ::
    "'d element_delegate \<Rightarrow> document \<Rightarrow> nat \<Rightarrow> element_observer \<times> 'd \<Rightarrow> element_observer \<times> 'd" where
  "ElementObserver_removeElement del doc e sd =
     (let (s, d) = sd
      in if e \<in> set (elements s) then
           (s\<lparr>elements := Set_delete e (elements s)\<rparr>, call_back (elementUnmatched del) doc e d)
         else (s, d))"

definition ElementObserver_processTree ::
    "'d element_delegate \<Rightarrow> document \<Rightarrow> nat \<Rightarrow> (nat \<Rightarrow> element_observer \<times> 'd \<Rightarrow> element_observer \<times> 'd) \<Rightarrow>
       element_observer \<times> 'd \<Rightarrow> element_observer \<times> 'd" where
  "ElementObserver_processTree del doc tree processor sd =
     fold processor (matchElementsInTree del doc tree) sd"

definition ElementObserver_processRemovedNodes ::
    "'d element_delegate \<Rightarrow> document \<Rightarrow> dom_node list \<Rightarrow> element_observer \<times> 'd \<Rightarrow> element_observer \<times> 'd" where
  "ElementObserver_processRemovedNodes del doc ns sd =
     fold (\<lambda>n sd. case ElementObserver_elementFromNode n of
         None \<Rightarrow> sd
       | Some e \<Rightarrow> ElementObserver_processTree del doc e (ElementObserver_removeElement del doc) sd) ns sd"

definition ElementObserver_processAddedNodes ::
    "'d element_delegate \<Rightarrow> document \<Rightarrow> dom_node list \<Rightarrow> element_observer \<times> 'd \<Rightarrow> element_observer \<times> 'd" where
  "ElementObserver_processAddedNodes del doc ns sd =
     fold (\<lambda>n sd. case ElementObserver_elementFromNode n of
         None \<Rightarrow> sd
       | Some e \<Rightarrow>
           (if ElementObserver_elementIsActive doc (fst sd) e then
              ElementObserver_processTree del doc e (ElementObserver_addElement del doc) sd
            else sd)) ns sd"

definition ElementObserver_processAttributeChange ::
    "'d element_delegate \<Rightarrow> document \<Rightarrow> nat \<Rightarrow> string \<Rightarrow> element_observer \<times> 'd \<Rightarrow> element_observer \<times> 'd" where
  "ElementObserver_processAttributeChange del doc e name sd =
     (let (s, d) = sd
      in if e \<in> set (elements s) then
           (case elementAttributeChanged del of
              Some f \<Rightarrow>
                (if matchElement del doc e then (s, f doc e name d)
                 else ElementObserver_removeElement del doc e (s, d))
            | None \<Rightarrow> ElementObserver_removeElement del doc e (s, d))
         else if matchElement del doc e then ElementObserver_addElement del doc e (s, d)
         else (s, d))"

definition ElementObserver_processMutation ::
    "'d element_delegate \<Rightarrow> document \<Rightarrow> mutation \<Rightarrow> element_observer \<times> 'd \<Rightarrow> element_observer \<times> 'd" where
  "ElementObserver_processMutation del doc m sd =
     (case m of
        Attributes target attributeName \<Rightarrow>
          ElementObserver_processAttributeChange del doc target attributeName sd
      | ChildList removedNodes addedNodes \<Rightarrow>
          ElementObserver_processAddedNodes del doc addedNodes
            (ElementObserver_processRemovedNodes del doc removedNodes sd))"

definition ElementObserver_processMutations ::
    "'d element_delegate \<Rightarrow> document \<Rightarrow> mutation list \<Rightarrow> element_observer \<times> 'd \<Rightarrow> element_observer \<times> 'd" where
  "ElementObserver_processMutations del doc ms sd =
     (if started (fst sd) then fold (ElementObserver_processMutation del doc) ms sd else sd)"

definition ElementObserver_refresh ::
    "'d element_delegate \<Rightarrow> document \<Rightarrow> element_observer \<times> 'd \<Rightarrow> element_observer \<times> 'd" where
  "ElementObserver_refresh del doc sd =
     (if started (fst sd) then
        (let matches = Set_of_array (matchElementsInTree del doc (element (fst sd)));
             sd = fold (\<lambda>e sd. if e \<in> set matches then sd else ElementObserver_removeElement del doc e sd)
                    (elements (fst sd)) sd
         in fold (ElementObserver_addElement del doc) matches sd)
      else sd)"

definition ElementObserver_start ::
    "'d element_delegate \<Rightarrow> document \<Rightarrow> element_observer \<times> 'd \<Rightarrow> element_observer \<times> 'd" where
  "ElementObserver_start del doc sd =
     (let (s, d) = sd
      in if \<not> started s then
           ElementObserver_refresh del doc (s\<lparr>started := True, mutationObserver := Some []\<rparr>, d)
         else (s, d))"

definition ElementObserver_stop :: "element_observer \<times> 'd \<Rightarrow> element_observer \<times> 'd" where
  "ElementObserver_stop sd =
     (let (s, d) = sd
      in if started s then (s\<lparr>started := False, mutationObserver := None\<rparr>, d) else (s, d))"

text \<open>The browser: a change of the document is recorded, and the records are delivered later.\<close>

definition record_mutation :: "mutation \<Rightarrow> element_observer \<Rightarrow> element_observer" where
  "record_mutation m s = s\<lparr>mutationObserver := map_option (\<lambda>q. q @ [m]) (mutationObserver s)\<rparr>"

definition deliver_mutations ::
    "'d element_delegate \<Rightarrow> document \<Rightarrow> element_observer \<times> 'd \<Rightarrow> element_observer \<times> 'd" where
  "deliver_mutations del doc sd =
     (case mutationObserver (fst sd) of
        None \<Rightarrow> sd
      | Some ms \<Rightarrow>
          ElementObserver_processMutations del doc ms
            ((fst sd)\<lparr>mutationObserver := Some []\<rparr>, snd sd))"

lemmas ElementObserver_defs = ElementObserver_addElement_def ElementObserver_removeElement_def
  ElementObserver_processTree_def ElementObserver_processRemovedNodes_def
  ElementObserver_processAddedNodes_def ElementObserver_processAttributeChange_def
  ElementObserver_processMutation_def ElementObserver_processMutations_def
  ElementObserver_refresh_def ElementObserver_start_def ElementObserver_stop_def

section \<open>What refreshing does\<close>

lemma fold_removeElement:
  assumes "distinct xs" "set xs \<subseteq> set (elements s)"
  shows "fold (\<lambda>e sd. if P e then sd else ElementObserver_removeElement del doc e sd) xs (s, d) =
     (s\<lparr>elements := filter (\<lambda>e. e \<notin> set xs \<or> P e) (elements s)\<rparr>,
      fold (call_back (elementUnmatched del) doc) (filter (\<lambda>e. \<not> P e) xs) d)"
  using assms
proof (induction xs arbitrary: s d)
  case (Cons x xs)
  define s' where "s' = (if P x then s else s\<lparr>elements := Set_delete x (elements s)\<rparr>)"
  define d' where "d' = (if P x then d else call_back (elementUnmatched del) doc x d)"
  have "(if P x then (s, d) else ElementObserver_removeElement del doc x (s, d)) = (s', d')"
    using Cons.prems by (simp add: ElementObserver_removeElement_def s'_def d'_def)
  moreover have "filter (\<lambda>e. e \<notin> set xs \<or> P e) (elements s') = filter (\<lambda>e. e \<notin> set (x # xs) \<or> P e) (elements s)"
    using Cons.prems(1) by (auto simp: Set_delete_def s'_def intro!: filter_cong)
  moreover have "set xs \<subseteq> set (elements s')" "distinct xs" using Cons.prems by (auto simp: s'_def)
  moreover have "s'\<lparr>elements := es\<rparr> = s\<lparr>elements := es\<rparr>" for es by (simp add: s'_def)
  ultimately show ?case
    using Cons.IH [of s' d'] by (simp only: fold_simps) (simp add: d'_def)
qed simp

lemma fold_addElement:
  assumes "distinct xs"
  shows "fold (ElementObserver_addElement del doc) xs (s, d) =
     (let new = filter (\<lambda>e. e \<notin> set (elements s) \<and> ElementObserver_elementIsActive doc s e) xs
      in (s\<lparr>elements := elements s @ new\<rparr>, fold (call_back (elementMatched del) doc) new d))"
  using assms
proof (induction xs arbitrary: s d)
  case (Cons x xs)
  show ?case
  proof (cases "x \<notin> set (elements s) \<and> ElementObserver_elementIsActive doc s x")
    case True
    let ?s = "s\<lparr>elements := elements s @ [x]\<rparr>"
    have eq: "filter (\<lambda>e. e \<notin> set (elements ?s) \<and> ElementObserver_elementIsActive doc ?s e) xs =
      filter (\<lambda>e. e \<notin> set (elements s) \<and> ElementObserver_elementIsActive doc s e) xs"
      using Cons.prems by (auto simp: ElementObserver_elementIsActive_def intro!: filter_cong)
    have "distinct xs" using Cons.prems by simp
    note IH = Cons.IH [OF this, of ?s "call_back (elementMatched del) doc x d", unfolded eq]
    have "ElementObserver_addElement del doc x (s, d) = (?s, call_back (elementMatched del) doc x d)"
      using True by (simp add: ElementObserver_addElement_def Set_add_def)
    with True show ?thesis by (simp only: fold_simps IH) (simp add: Let_def)
  next
    case False
    then have "ElementObserver_addElement del doc x (s, d) = (s, d)"
      by (auto simp: ElementObserver_addElement_def)
    moreover have "distinct xs" using Cons.prems by simp
    ultimately show ?thesis using False by (auto simp: Cons.IH Let_def)
  qed
qed simp

lemma refresh_eq:
  fixes del :: "'d element_delegate" and doc :: document
  assumes "started s" "distinct (elements s)"
  defines "M \<equiv> Set_of_array (matchElementsInTree del doc (element s))"
  defines "gone \<equiv> filter (\<lambda>e. e \<notin> set M) (elements s)"
    and "new \<equiv> filter (\<lambda>e. e \<notin> set (elements s) \<and> ElementObserver_elementIsActive doc s e) M"
  shows "ElementObserver_refresh del doc (s, d) =
     (s\<lparr>elements := filter (\<lambda>e. e \<in> set M) (elements s) @ new\<rparr>,
      fold (call_back (elementMatched del) doc) new (fold (call_back (elementUnmatched del) doc) gone d))"
proof -
  let ?s = "s\<lparr>elements := filter (\<lambda>e. e \<in> set M) (elements s)\<rparr>"
  have "fold (\<lambda>e sd. if e \<in> set M then sd else ElementObserver_removeElement del doc e sd)
      (elements s) (s, d) = (?s, fold (call_back (elementUnmatched del) doc) gone d)"
    using fold_removeElement [OF assms(2) subset_refl, of "\<lambda>e. e \<in> set M"] by (simp add: gone_def cong: filter_cong)
  moreover have "filter (\<lambda>e. e \<notin> set (elements ?s) \<and> ElementObserver_elementIsActive doc ?s e) M = new"
    by (auto simp: new_def ElementObserver_elementIsActive_def intro!: filter_cong)
  moreover have "distinct M" by (simp add: M_def)
  ultimately show ?thesis
    using assms(1) unfolding ElementObserver_refresh_def fst_conv M_def [symmetric]
    by (simp only: if_True Let_def fold_addElement) simp
qed

section \<open>The protocol towards the delegate\<close>

locale element_client =
  fixes del :: "'d element_delegate" and doc :: document and Inv :: "nat set \<Rightarrow> 'd \<Rightarrow> bool"
  assumes in_tree: "e \<in> set (matchElementsInTree del doc t) \<Longrightarrow> matchElement del doc e"
    and matched: "Inv E d \<Longrightarrow> e \<notin> E \<Longrightarrow> matchElement del doc e \<Longrightarrow>
      Inv (insert e E) (call_back (elementMatched del) doc e d)"
    and unmatched: "Inv E d \<Longrightarrow> e \<in> E \<Longrightarrow> Inv (E - {e}) (call_back (elementUnmatched del) doc e d)"
    and changed: "Inv E d \<Longrightarrow> e \<in> E \<Longrightarrow> matchElement del doc e \<Longrightarrow>
      elementAttributeChanged del = Some f \<Longrightarrow> Inv E (f doc e name d)"
begin

definition ok :: "element_observer \<times> 'd \<Rightarrow> bool" where
  "ok sd \<longleftrightarrow> Inv (set (elements (fst sd))) (snd sd)"

lemma ok_update [simp]:
  "ok (s\<lparr>started := b\<rparr>, d) = ok (s, d)" "ok (s\<lparr>mutationObserver := q\<rparr>, d) = ok (s, d)"
  by (simp_all add: ok_def)

lemma ok_addElement: "ok sd \<Longrightarrow> matchElement del doc e \<Longrightarrow> ok (ElementObserver_addElement del doc e sd)"
  by (cases sd) (auto simp: ok_def ElementObserver_addElement_def intro: matched)

lemma ok_removeElement: "ok sd \<Longrightarrow> ok (ElementObserver_removeElement del doc e sd)"
  by (cases sd) (auto simp: ok_def ElementObserver_removeElement_def intro: unmatched)

lemma ok_fold: "ok sd \<Longrightarrow> (\<And>x sd. x \<in> set xs \<Longrightarrow> ok sd \<Longrightarrow> ok (f x sd)) \<Longrightarrow> ok (fold f xs sd)"
  by (induction xs arbitrary: sd) auto

lemma ok_processTree:
  "ok sd \<Longrightarrow> ok (ElementObserver_processTree del doc t (ElementObserver_addElement del doc) sd)"
  "ok sd \<Longrightarrow> ok (ElementObserver_processTree del doc t (ElementObserver_removeElement del doc) sd)"
  unfolding ElementObserver_processTree_def
  by (erule ok_fold; blast intro: ok_addElement ok_removeElement in_tree)+

lemma ok_processAttributeChange:
  "ok sd \<Longrightarrow> ok (ElementObserver_processAttributeChange del doc e name sd)"
  by (cases sd)
    (auto simp: ElementObserver_processAttributeChange_def ok_addElement ok_removeElement
      split: option.split, auto simp: ok_def intro: changed)

lemma ok_processMutation: "ok sd \<Longrightarrow> ok (ElementObserver_processMutation del doc m sd)"
  unfolding ElementObserver_processMutation_def ElementObserver_processAddedNodes_def
    ElementObserver_processRemovedNodes_def
  by (cases m) (auto intro!: ok_processAttributeChange ok_processTree ok_fold split: option.split)

lemma ok_processMutations: "ok sd \<Longrightarrow> ok (ElementObserver_processMutations del doc ms sd)"
  by (simp add: ElementObserver_processMutations_def ok_fold ok_processMutation)

lemma ok_refresh: "ok sd \<Longrightarrow> ok (ElementObserver_refresh del doc sd)"
  unfolding ElementObserver_refresh_def Let_def
  by (auto intro!: ok_fold ok_removeElement ok_addElement elim: in_tree simp del: split_paired_All)

lemma ok_start: "ok sd \<Longrightarrow> ok (ElementObserver_start del doc sd)"
  by (cases sd) (simp add: ElementObserver_start_def ok_refresh)

lemma ok_stop: "ok sd \<Longrightarrow> ok (ElementObserver_stop sd)"
  by (cases sd) (simp add: ElementObserver_stop_def)

lemma ok_record: "ok (s, d) \<Longrightarrow> ok (record_mutation m s, d)"
  by (simp add: record_mutation_def)

lemma ok_deliver: "ok sd \<Longrightarrow> ok (deliver_mutations del doc sd)"
  by (cases sd) (simp add: deliver_mutations_def ok_processMutations split: option.split)

end

section \<open>The class AttributeObserver\<close>

record 'd attribute_delegate =
  elementMatchedAttribute :: "(document \<Rightarrow> nat \<Rightarrow> string \<Rightarrow> 'd \<Rightarrow> 'd) option"
  elementUnmatchedAttribute :: "(document \<Rightarrow> nat \<Rightarrow> string \<Rightarrow> 'd \<Rightarrow> 'd) option"
  elementAttributeValueChanged :: "(document \<Rightarrow> nat \<Rightarrow> string \<Rightarrow> 'd \<Rightarrow> 'd) option"

definition AttributeObserver_selector :: "string \<Rightarrow> selector" where
  "AttributeObserver_selector attributeName = Has_attribute attributeName"

definition AttributeObserver_matchElement :: "string \<Rightarrow> document \<Rightarrow> nat \<Rightarrow> bool" where
  "AttributeObserver_matchElement attributeName doc e = hasAttribute doc e attributeName"

definition AttributeObserver_matchElementsInTree :: "string \<Rightarrow> document \<Rightarrow> nat \<Rightarrow> nat list" where
  "AttributeObserver_matchElementsInTree attributeName doc tree =
     (let match = (if AttributeObserver_matchElement attributeName doc tree then [tree] else []);
          matches = querySelectorAll doc tree (AttributeObserver_selector attributeName)
      in match @ matches)"

definition AttributeObserver_elementMatched ::
    "string \<Rightarrow> 'd attribute_delegate \<Rightarrow> document \<Rightarrow> nat \<Rightarrow> 'd \<Rightarrow> 'd" where
  "AttributeObserver_elementMatched attributeName adel doc e d =
     (case elementMatchedAttribute adel of None \<Rightarrow> d | Some f \<Rightarrow> f doc e attributeName d)"

definition AttributeObserver_elementUnmatched ::
    "string \<Rightarrow> 'd attribute_delegate \<Rightarrow> document \<Rightarrow> nat \<Rightarrow> 'd \<Rightarrow> 'd" where
  "AttributeObserver_elementUnmatched attributeName adel doc e d =
     (case elementUnmatchedAttribute adel of None \<Rightarrow> d | Some f \<Rightarrow> f doc e attributeName d)"

definition AttributeObserver_elementAttributeChanged ::
    "string \<Rightarrow> 'd attribute_delegate \<Rightarrow> document \<Rightarrow> nat \<Rightarrow> string \<Rightarrow> 'd \<Rightarrow> 'd" where
  "AttributeObserver_elementAttributeChanged attributeName adel doc e name d =
     (case elementAttributeValueChanged adel of
        None \<Rightarrow> d
      | Some f \<Rightarrow> (if attributeName = name then f doc e name d else d))"

text \<open>An \<open>AttributeObserver\<close> is the delegate of its own \<open>ElementObserver\<close>.\<close>

definition AttributeObserver_new :: "string \<Rightarrow> 'd attribute_delegate \<Rightarrow> 'd element_delegate" where
  "AttributeObserver_new attributeName adel =
     \<lparr>matchElement = AttributeObserver_matchElement attributeName,
      matchElementsInTree = AttributeObserver_matchElementsInTree attributeName,
      elementMatched = Some (AttributeObserver_elementMatched attributeName adel),
      elementUnmatched = Some (AttributeObserver_elementUnmatched attributeName adel),
      elementAttributeChanged = Some (AttributeObserver_elementAttributeChanged attributeName adel)\<rparr>"

definition AttributeObserver_start ::
    "string \<Rightarrow> 'd attribute_delegate \<Rightarrow> document \<Rightarrow> element_observer \<times> 'd \<Rightarrow> element_observer \<times> 'd" where
  "AttributeObserver_start name adel doc = ElementObserver_start (AttributeObserver_new name adel) doc"

definition AttributeObserver_stop :: "element_observer \<times> 'd \<Rightarrow> element_observer \<times> 'd" where
  "AttributeObserver_stop = ElementObserver_stop"

definition AttributeObserver_refresh ::
    "string \<Rightarrow> 'd attribute_delegate \<Rightarrow> document \<Rightarrow> element_observer \<times> 'd \<Rightarrow> element_observer \<times> 'd" where
  "AttributeObserver_refresh name adel doc = ElementObserver_refresh (AttributeObserver_new name adel) doc"

lemmas AttributeObserver_defs = AttributeObserver_elementMatched_def
  AttributeObserver_elementUnmatched_def AttributeObserver_elementAttributeChanged_def
  AttributeObserver_new_def AttributeObserver_start_def AttributeObserver_stop_def
  AttributeObserver_refresh_def

lemma set_matchElementsInTree:
  assumes "document_wf doc" "get_node doc t = Some n"
  shows "set (AttributeObserver_matchElementsInTree name doc t) =
     {e. contains doc t e \<and> hasAttribute doc e name}"
  using contains_refl [OF assms(2)]
  by (auto simp: AttributeObserver_matchElementsInTree_def AttributeObserver_matchElement_def
      AttributeObserver_selector_def set_querySelectorAll [OF assms(1)] hasAttribute_matches Let_def)

section \<open>The protocol towards an attribute delegate\<close>

locale attribute_client =
  fixes attributeName :: string and adel :: "'d attribute_delegate" and doc :: document
    and Inv :: "nat set \<Rightarrow> 'd \<Rightarrow> bool"
  assumes matched_attribute: "Inv E d \<Longrightarrow> e \<notin> E \<Longrightarrow> hasAttribute doc e attributeName \<Longrightarrow>
      Inv (insert e E) (AttributeObserver_elementMatched attributeName adel doc e d)"
    and unmatched_attribute: "Inv E d \<Longrightarrow> e \<in> E \<Longrightarrow>
      Inv (E - {e}) (AttributeObserver_elementUnmatched attributeName adel doc e d)"
    and changed_attribute: "Inv E d \<Longrightarrow> e \<in> E \<Longrightarrow> hasAttribute doc e attributeName \<Longrightarrow>
      Inv E (AttributeObserver_elementAttributeChanged attributeName adel doc e attributeName d)"

sublocale attribute_client \<subseteq> observer: element_client "AttributeObserver_new attributeName adel" doc Inv
proof
  fix e t assume "e \<in> set (matchElementsInTree (AttributeObserver_new attributeName adel) doc t)"
  then show "matchElement (AttributeObserver_new attributeName adel) doc e"
    by (auto simp: AttributeObserver_new_def AttributeObserver_matchElementsInTree_def
        AttributeObserver_matchElement_def AttributeObserver_selector_def hasAttribute_matches
        dest: querySelectorAll_matches split: if_splits)
next
  fix E d e f name
  assume *: "Inv E d" "e \<in> E" "matchElement (AttributeObserver_new attributeName adel) doc e"
    "elementAttributeChanged (AttributeObserver_new attributeName adel) = Some f"
  have "Inv E (AttributeObserver_elementAttributeChanged attributeName adel doc e name d)"
  proof (cases "name = attributeName")
    case True
    from *(3) have "hasAttribute doc e attributeName"
      by (simp add: AttributeObserver_new_def AttributeObserver_matchElement_def)
    with *(1,2) True show ?thesis by (simp add: changed_attribute)
  next
    case False
    with * show ?thesis
      by (auto simp: AttributeObserver_elementAttributeChanged_def split: option.split)
  qed
  with *(4) show "Inv E (f doc e name d)" by (auto simp: AttributeObserver_new_def)
qed (simp_all add: AttributeObserver_new_def call_back_def AttributeObserver_matchElement_def
    matched_attribute unmatched_attribute)

end
