(* ===== verification/Multimap.thy ===== *)
theory Multimap
  imports Prelude
begin

text \<open>
  The multimaps of \<^verbatim>\<open>src/gui/web/assets/scripts/stimulus.js\<close> (lines 632-782): the functions
  \<open>add\<close>, \<open>del\<close>, \<open>fetch\<close> and \<open>prune\<close> on a \<open>Map\<close> of \<open>Set\<close>s, the
  class \<open>Multimap\<close> over \<open>valuesByKey\<close>, and \<open>IndexedMultimap\<close>, which keeps the
  inverse index \<open>keysByValue\<close> as well. The locale \<open>multimap\<close> is the contract a user of a
  multimap relies on; both classes are interpreted in it.
\<close>

section \<open>Maps of sets\<close>

type_synonym ('k, 'v) set_map = "('k \<times> 'v list) list"

definition mm_prune :: "('k, 'v) set_map \<Rightarrow> 'k \<Rightarrow> ('k, 'v) set_map" where
  "mm_prune m key =
     (case Map_get m key of
        None \<Rightarrow> m
      | Some vs \<Rightarrow> (if length vs = 0 then Map_delete key m else m))"

definition mm_fetch :: "('k, 'v) set_map \<Rightarrow> 'k \<Rightarrow> ('k, 'v) set_map \<times> 'v list" where
  "mm_fetch m key =
     (case Map_get m key of
        None \<Rightarrow> (Map_set key [] m, [])
      | Some vs \<Rightarrow> (m, vs))"

text \<open>
  \<open>fetch(map, key).add(value)\<close> mutates the \<open>Set\<close> that the \<open>Map\<close> holds, so the model
  stores the changed set back under its key.
\<close>

definition mm_add :: "('k, 'v) set_map \<Rightarrow> 'k \<Rightarrow> 'v \<Rightarrow> ('k, 'v) set_map" where
  "mm_add m key v = (let (m', vs) = mm_fetch m key in Map_set key (Set_add v vs) m')"

definition mm_del :: "('k, 'v) set_map \<Rightarrow> 'k \<Rightarrow> 'v \<Rightarrow> ('k, 'v) set_map" where
  "mm_del m key v =
     (let (m', vs) = mm_fetch m key in mm_prune (Map_set key (Set_delete v vs) m') key)"

definition mm_rel :: "('k, 'v) set_map \<Rightarrow> ('k \<times> 'v) set" where
  "mm_rel m = {(k, v). \<exists>vs. Map_get m k = Some vs \<and> v \<in> set vs}"

text \<open>Well-formed: distinct keys, no empty set (that is what \<open>prune\<close> is for), distinct members.\<close>

definition mm_wf :: "('k, 'v) set_map \<Rightarrow> bool" where
  "mm_wf m \<longleftrightarrow> Map_wf m \<and> (\<forall>p\<in>set m. snd p \<noteq> [] \<and> distinct (snd p))"

lemma mm_wfD: "mm_wf m \<Longrightarrow> Map_get m k = Some vs \<Longrightarrow> vs \<noteq> [] \<and> distinct vs"
  by (fastforce simp: mm_wf_def dest: map_of_SomeD)

lemma mm_wf_Nil [simp]: "mm_wf []"
  by (simp add: mm_wf_def)

lemma in_mm_rel:
  "(k, v) \<in> mm_rel m \<longleftrightarrow> (case Map_get m k of None \<Rightarrow> False | Some vs \<Rightarrow> v \<in> set vs)"
  by (auto simp: mm_rel_def split: option.splits)

lemma mm_rel_Nil [simp]: "mm_rel [] = {}"
  by (simp add: mm_rel_def)

lemma Map_get_mm_add:
  "Map_get (mm_add m key v) k =
     (if k = key then Some (Set_add v (case Map_get m key of None \<Rightarrow> [] | Some vs \<Rightarrow> vs))
      else Map_get m k)"
  by (auto simp: mm_add_def mm_fetch_def split: option.splits)

lemma Map_get_mm_del:
  "Map_get (mm_del m key v) k =
     (if k = key then
        (let vs = Set_delete v (case Map_get m key of None \<Rightarrow> [] | Some vs \<Rightarrow> vs)
         in if vs = [] then None else Some vs)
      else Map_get m k)"
  by (auto simp: mm_del_def mm_fetch_def mm_prune_def Let_def split: option.splits)

lemma Map_wf_mm_add [simp]: "Map_wf m \<Longrightarrow> Map_wf (mm_add m key v)"
  by (auto simp: mm_add_def mm_fetch_def split: option.splits intro!: distinct_update)

lemma Map_wf_mm_del [simp]: "Map_wf m \<Longrightarrow> Map_wf (mm_del m key v)"
  by (auto simp: mm_del_def mm_fetch_def mm_prune_def
      split: option.splits intro!: distinct_update distinct_delete)

lemma mm_wf_alt:
  "mm_wf m \<longleftrightarrow> Map_wf m \<and> (\<forall>k vs. Map_get m k = Some vs \<longrightarrow> vs \<noteq> [] \<and> distinct vs)"
  by (fastforce simp: mm_wf_def)

lemma mm_wf_add: "mm_wf m \<Longrightarrow> mm_wf (mm_add m key v)"
  by (auto simp: mm_wf_alt Map_get_mm_add split: option.splits if_splits)

lemma mm_wf_del: "mm_wf m \<Longrightarrow> mm_wf (mm_del m key v)"
  by (auto simp: mm_wf_alt Map_get_mm_del Let_def split: option.splits if_splits)

lemma mm_rel_add: "mm_rel (mm_add m key v) = insert (key, v) (mm_rel m)"
  by (auto simp: mm_rel_def Map_get_mm_add split: option.splits if_splits)

lemma mm_rel_del: "mm_rel (mm_del m key v) = mm_rel m - {(key, v)}"
  by (auto simp: mm_rel_def Map_get_mm_del Let_def split: option.splits if_splits)
    (metis Diff_iff empty_iff list.set(1) set_Set_delete singletonD)+


section \<open>The class Multimap\<close>

record ('k, 'v) multimap_state =
  valuesByKey :: "('k, 'v) set_map"

definition Multimap_new :: "('k, 'v) multimap_state" where
  "Multimap_new = \<lparr>valuesByKey = []\<rparr>"

definition Multimap_values :: "('k, 'v) multimap_state \<Rightarrow> 'v list" where
  "Multimap_values m = foldl (\<lambda>vs p. vs @ snd p) [] (valuesByKey m)"

definition Multimap_size :: "('k, 'v) multimap_state \<Rightarrow> nat" where
  "Multimap_size m = foldl (\<lambda>n p. n + length (snd p)) 0 (valuesByKey m)"

definition Multimap_add :: "('k, 'v) multimap_state \<Rightarrow> 'k \<Rightarrow> 'v \<Rightarrow> ('k, 'v) multimap_state" where
  "Multimap_add m key v = m\<lparr>valuesByKey := mm_add (valuesByKey m) key v\<rparr>"

definition Multimap_delete :: "('k, 'v) multimap_state \<Rightarrow> 'k \<Rightarrow> 'v \<Rightarrow> ('k, 'v) multimap_state" where
  "Multimap_delete m key v = m\<lparr>valuesByKey := mm_del (valuesByKey m) key v\<rparr>"

definition Multimap_has :: "('k, 'v) multimap_state \<Rightarrow> 'k \<Rightarrow> 'v \<Rightarrow> bool" where
  "Multimap_has m key v =
     (case Map_get (valuesByKey m) key of None \<Rightarrow> False | Some vs \<Rightarrow> v \<in> set vs)"

definition Multimap_hasKey :: "('k, 'v) multimap_state \<Rightarrow> 'k \<Rightarrow> bool" where
  "Multimap_hasKey m key = Map_has (valuesByKey m) key"

definition Multimap_hasValue :: "('k, 'v) multimap_state \<Rightarrow> 'v \<Rightarrow> bool" where
  "Multimap_hasValue m v = list_ex (\<lambda>p. v \<in> set (snd p)) (valuesByKey m)"

definition Multimap_getValuesForKey :: "('k, 'v) multimap_state \<Rightarrow> 'k \<Rightarrow> 'v list" where
  "Multimap_getValuesForKey m key =
     (case Map_get (valuesByKey m) key of None \<Rightarrow> [] | Some vs \<Rightarrow> vs)"

definition Multimap_getKeysForValue :: "('k, 'v) multimap_state \<Rightarrow> 'v \<Rightarrow> 'k list" where
  "Multimap_getKeysForValue m v = map fst (filter (\<lambda>p. v \<in> set (snd p)) (valuesByKey m))"

definition Multimap_wf :: "('k, 'v) multimap_state \<Rightarrow> bool" where
  "Multimap_wf m = mm_wf (valuesByKey m)"

definition Multimap_rel :: "('k, 'v) multimap_state \<Rightarrow> ('k \<times> 'v) set" where
  "Multimap_rel m = mm_rel (valuesByKey m)"

lemmas Multimap_defs = Multimap_new_def Multimap_add_def Multimap_delete_def Multimap_has_def
  Multimap_hasKey_def Multimap_hasValue_def Multimap_getValuesForKey_def
  Multimap_getKeysForValue_def Multimap_wf_def Multimap_rel_def

lemma mm_get_keys:
  assumes "mm_wf m"
  shows "set (map fst (filter (\<lambda>p. v \<in> set (snd p)) m)) = {k. (k, v) \<in> mm_rel m}"
    and "distinct (map fst (filter (\<lambda>p. v \<in> set (snd p)) m))"
  using assms by (force simp: mm_wf_def mm_rel_def, simp add: mm_wf_def distinct_map_filter)

lemma foldl_concat_snd: "foldl (\<lambda>vs p. vs @ snd p) acc m = acc @ concat (map snd m)"
  by (induction m arbitrary: acc) auto

lemma foldl_length_snd: "foldl (\<lambda>n p. n + length (snd p)) acc m = acc + length (concat (map snd m))"
  by (induction m arbitrary: acc) auto

lemma Multimap_values_concat: "Multimap_values m = concat (map snd (valuesByKey m))"
  by (simp add: Multimap_values_def foldl_concat_snd)

lemma Multimap_size_values: "Multimap_size m = length (Multimap_values m)"
  by (simp add: Multimap_size_def Multimap_values_concat foldl_length_snd)

lemma set_Multimap_values:
  "Multimap_wf m \<Longrightarrow> set (Multimap_values m) = snd ` Multimap_rel m"
  by (force simp: Multimap_values_concat Multimap_wf_def Multimap_rel_def mm_wf_def mm_rel_def)

lemma mm_card:
  "mm_wf m \<Longrightarrow> finite (mm_rel m) \<and> card (mm_rel m) = length (concat (map snd m))"
proof (induction m)
  case Nil
  then show ?case by simp
next
  case (Cons p m)
  obtain k vs where p: "p = (k, vs)" by (cases p)
  from Cons.prems p have wf: "mm_wf m" and k: "k \<notin> fst ` set m" and d: "distinct vs"
    by (auto simp: mm_wf_def)
  from k have n: "Map_get m k = None" by (simp add: map_of_eq_None_iff)
  have r: "mm_rel ((k, vs) # m) = Pair k ` set vs \<union> mm_rel m"
    using n by (auto simp: mm_rel_def split: if_splits)
  have disj: "Pair k ` set vs \<inter> mm_rel m = {}"
    using n by (auto simp: mm_rel_def)
  from Cons.IH [OF wf] disj d show ?case
    by (simp add: p r card_Un_disjoint card_image inj_on_def distinct_card)
qed

section \<open>The contract of a multimap\<close>

text \<open>
  What the token observer and the router rely on: adding and deleting change the relation
  between keys and values by exactly one pair, and the queries read that relation.
\<close>

locale multimap =
  fixes empty :: "'m"
    and add :: "'m \<Rightarrow> 'k \<Rightarrow> 'v \<Rightarrow> 'm"
    and delete :: "'m \<Rightarrow> 'k \<Rightarrow> 'v \<Rightarrow> 'm"
    and has :: "'m \<Rightarrow> 'k \<Rightarrow> 'v \<Rightarrow> bool"
    and hasKey :: "'m \<Rightarrow> 'k \<Rightarrow> bool"
    and hasValue :: "'m \<Rightarrow> 'v \<Rightarrow> bool"
    and getValuesForKey :: "'m \<Rightarrow> 'k \<Rightarrow> 'v list"
    and getKeysForValue :: "'m \<Rightarrow> 'v \<Rightarrow> 'k list"
    and wf :: "'m \<Rightarrow> bool"
    and rel :: "'m \<Rightarrow> ('k \<times> 'v) set"
  assumes wf_empty: "wf empty" and rel_empty: "rel empty = {}"
    and wf_add: "wf m \<Longrightarrow> wf (add m k v)" and rel_add: "wf m \<Longrightarrow> rel (add m k v) = insert (k, v) (rel m)"
    and wf_delete: "wf m \<Longrightarrow> wf (delete m k v)"
    and rel_delete: "wf m \<Longrightarrow> rel (delete m k v) = rel m - {(k, v)}"
    and has_rel: "wf m \<Longrightarrow> has m k v \<longleftrightarrow> (k, v) \<in> rel m"
    and hasKey_rel: "wf m \<Longrightarrow> hasKey m k \<longleftrightarrow> (\<exists>v. (k, v) \<in> rel m)"
    and hasValue_rel: "wf m \<Longrightarrow> hasValue m v \<longleftrightarrow> (\<exists>k. (k, v) \<in> rel m)"
    and values_rel: "wf m \<Longrightarrow> set (getValuesForKey m k) = {v. (k, v) \<in> rel m}"
    and distinct_values: "wf m \<Longrightarrow> distinct (getValuesForKey m k)"
    and keys_rel: "wf m \<Longrightarrow> set (getKeysForValue m v) = {k. (k, v) \<in> rel m}"
    and distinct_keys: "wf m \<Longrightarrow> distinct (getKeysForValue m v)"
begin

lemmas multimap_simps = wf_empty rel_empty wf_add rel_add wf_delete rel_delete has_rel hasKey_rel
  hasValue_rel values_rel distinct_values keys_rel distinct_keys

text \<open>Adding, then deleting the values of one key, one after the other.\<close>

lemma fold_add:
  "wf m \<Longrightarrow> wf (fold (\<lambda>v m. add m (f v) v) vs m) \<and>
     rel (fold (\<lambda>v m. add m (f v) v) vs m) = rel m \<union> (\<lambda>v. (f v, v)) ` set vs"
  by (induction vs arbitrary: m) (auto simp: wf_add rel_add)

lemma fold_delete:
  "wf m \<Longrightarrow> wf (fold (\<lambda>v m. delete m (f v) v) vs m) \<and>
     rel (fold (\<lambda>v m. delete m (f v) v) vs m) = rel m - (\<lambda>v. (f v, v)) ` set vs"
  by (induction vs arbitrary: m) (auto simp: wf_delete rel_delete)

lemma clear_key:
  assumes "wf m" and "\<And>v. (k, v) \<in> rel m \<Longrightarrow> f v = k"
  shows "\<not> hasKey (fold (\<lambda>v m. delete m (f v) v) (getValuesForKey m k) m) k"
  using assms by (auto simp: fold_delete hasKey_rel values_rel image_iff)

lemma hasKey_values: "wf m \<Longrightarrow> hasKey m k \<longleftrightarrow> getValuesForKey m k \<noteq> []"
  using values_rel [of m k] by (cases "getValuesForKey m k") (auto simp: hasKey_rel)

lemma delete_absent: "wf m \<Longrightarrow> \<not> has m k v \<Longrightarrow> rel (delete m k v) = rel m"
  by (auto simp: rel_delete has_rel)

end

interpretation mm: multimap Multimap_new Multimap_add Multimap_delete Multimap_has Multimap_hasKey
  Multimap_hasValue Multimap_getValuesForKey Multimap_getKeysForValue Multimap_wf Multimap_rel
proof unfold_locales
  fix m :: "('k, 'v) multimap_state" and k v
  assume wf: "Multimap_wf m"
  then have mwf: "mm_wf (valuesByKey m)" by (simp add: Multimap_wf_def)
  show "Multimap_hasKey m k \<longleftrightarrow> (\<exists>v. (k, v) \<in> Multimap_rel m)"
  proof (cases "Map_get (valuesByKey m) k")
    case (Some vs)
    with mm_wfD [OF mwf Some] show ?thesis
      by (cases vs) (auto simp: Multimap_defs Map_has_iff mm_rel_def)
  qed (simp add: Multimap_defs Map_has_iff mm_rel_def)
  show "Multimap_hasValue m v \<longleftrightarrow> (\<exists>k. (k, v) \<in> Multimap_rel m)"
    using mwf by (force simp: Multimap_defs list_ex_iff mm_rel_def mm_wf_def)
  show "set (Multimap_getKeysForValue m v) = {k. (k, v) \<in> Multimap_rel m}"
    using mm_get_keys(1) [OF mwf] by (simp add: Multimap_defs)
  show "distinct (Multimap_getKeysForValue m v)"
    using mm_get_keys(2) [OF mwf] by (simp add: Multimap_defs)
  show "distinct (Multimap_getValuesForKey m k)"
    by (auto simp: Multimap_defs split: option.splits dest: mm_wfD [OF mwf])
  show "set (Multimap_getValuesForKey m k) = {v. (k, v) \<in> Multimap_rel m}"
    by (cases "Map_get (valuesByKey m) k") (simp_all add: Multimap_defs in_mm_rel)
qed (auto simp: Multimap_defs mm_wf_add mm_wf_del mm_rel_add mm_rel_del in_mm_rel
    split: option.splits)

section \<open>The class IndexedMultimap\<close>

record ('k, 'v) indexed_multimap_state = "('k, 'v) multimap_state" +
  keysByValue :: "('v, 'k) set_map"

definition IndexedMultimap_new :: "('k, 'v) indexed_multimap_state" where
  "IndexedMultimap_new = \<lparr>valuesByKey = [], keysByValue = []\<rparr>"

definition IndexedMultimap_values :: "('k, 'v) indexed_multimap_state \<Rightarrow> 'v list" where
  "IndexedMultimap_values m = map fst (keysByValue m)"

text \<open>\<open>super.add\<close> and \<open>super.delete\<close> run first, on the inherited map.\<close>

definition IndexedMultimap_add ::
    "('k, 'v) indexed_multimap_state \<Rightarrow> 'k \<Rightarrow> 'v \<Rightarrow> ('k, 'v) indexed_multimap_state" where
  "IndexedMultimap_add m key v =
     (let m1 = m\<lparr>valuesByKey := mm_add (valuesByKey m) key v\<rparr>
      in m1\<lparr>keysByValue := mm_add (keysByValue m1) v key\<rparr>)"

definition IndexedMultimap_delete ::
    "('k, 'v) indexed_multimap_state \<Rightarrow> 'k \<Rightarrow> 'v \<Rightarrow> ('k, 'v) indexed_multimap_state" where
  "IndexedMultimap_delete m key v =
     (let m1 = m\<lparr>valuesByKey := mm_del (valuesByKey m) key v\<rparr>
      in m1\<lparr>keysByValue := mm_del (keysByValue m1) v key\<rparr>)"

definition IndexedMultimap_hasValue :: "('k, 'v) indexed_multimap_state \<Rightarrow> 'v \<Rightarrow> bool" where
  "IndexedMultimap_hasValue m v = Map_has (keysByValue m) v"

definition IndexedMultimap_getKeysForValue ::
    "('k, 'v) indexed_multimap_state \<Rightarrow> 'v \<Rightarrow> 'k list" where
  "IndexedMultimap_getKeysForValue m v =
     (case Map_get (keysByValue m) v of None \<Rightarrow> [] | Some ks \<Rightarrow> ks)"

text \<open>The inherited part of an indexed multimap, as a plain multimap.\<close>

definition Multimap_of :: "('k, 'v) indexed_multimap_state \<Rightarrow> ('k, 'v) multimap_state" where
  "Multimap_of m = \<lparr>valuesByKey = valuesByKey m\<rparr>"

definition IndexedMultimap_wf :: "('k, 'v) indexed_multimap_state \<Rightarrow> bool" where
  "IndexedMultimap_wf m \<longleftrightarrow> mm_wf (valuesByKey m) \<and> mm_wf (keysByValue m) \<and>
     mm_rel (keysByValue m) = (mm_rel (valuesByKey m))\<inverse>"

definition IndexedMultimap_rel :: "('k, 'v) indexed_multimap_state \<Rightarrow> ('k \<times> 'v) set" where
  "IndexedMultimap_rel m = mm_rel (valuesByKey m)"

lemmas IndexedMultimap_defs = IndexedMultimap_new_def IndexedMultimap_add_def
  IndexedMultimap_delete_def IndexedMultimap_hasValue_def IndexedMultimap_getKeysForValue_def
  IndexedMultimap_wf_def IndexedMultimap_rel_def Multimap_of_def

lemma hasKey_mm_rel: "mm_wf m \<Longrightarrow> Map_has m k \<longleftrightarrow> (\<exists>v. (k, v) \<in> mm_rel m)"
  using mm.hasKey_rel [of "\<lparr>valuesByKey = m\<rparr>" k] by (simp add: Multimap_defs)

lemma mm_get_values:
  assumes "mm_wf m"
  shows "set (case Map_get m k of None \<Rightarrow> [] | Some vs \<Rightarrow> vs) = {v. (k, v) \<in> mm_rel m}"
    and "distinct (case Map_get m k of None \<Rightarrow> [] | Some vs \<Rightarrow> vs)"
  using mm.values_rel [of "\<lparr>valuesByKey = m\<rparr>" k] mm.distinct_values [of "\<lparr>valuesByKey = m\<rparr>" k] assms
  by (simp_all add: Multimap_defs)

interpretation imm: multimap IndexedMultimap_new IndexedMultimap_add IndexedMultimap_delete
  "\<lambda>m. Multimap_has (Multimap_of m)" "\<lambda>m. Multimap_hasKey (Multimap_of m)"
  IndexedMultimap_hasValue "\<lambda>m. Multimap_getValuesForKey (Multimap_of m)"
  IndexedMultimap_getKeysForValue IndexedMultimap_wf IndexedMultimap_rel
proof unfold_locales
  fix m :: "('k, 'v) indexed_multimap_state" and k v
  assume wf: "IndexedMultimap_wf m"
  have inner: "Multimap_wf (Multimap_of m)" "Multimap_rel (Multimap_of m) = IndexedMultimap_rel m"
    using wf by (auto simp: IndexedMultimap_defs Multimap_defs)
  show "Multimap_has (Multimap_of m) k v \<longleftrightarrow> (k, v) \<in> IndexedMultimap_rel m"
    and "Multimap_hasKey (Multimap_of m) k \<longleftrightarrow> (\<exists>v. (k, v) \<in> IndexedMultimap_rel m)"
    and "set (Multimap_getValuesForKey (Multimap_of m) k) = {v. (k, v) \<in> IndexedMultimap_rel m}"
    and "distinct (Multimap_getValuesForKey (Multimap_of m) k)"
    using inner by (simp_all add: mm.multimap_simps)
  show "IndexedMultimap_hasValue m v \<longleftrightarrow> (\<exists>k. (k, v) \<in> IndexedMultimap_rel m)"
    using wf by (simp add: IndexedMultimap_defs hasKey_mm_rel)
  show "set (IndexedMultimap_getKeysForValue m v) = {k. (k, v) \<in> IndexedMultimap_rel m}"
    and "distinct (IndexedMultimap_getKeysForValue m v)"
    using wf mm_get_values [of "keysByValue m" v] by (simp_all add: IndexedMultimap_defs)
qed (auto simp: IndexedMultimap_defs mm_wf_add mm_wf_del mm_rel_add mm_rel_del)

section \<open>Runs of operations\<close>

datatype ('k, 'v) mm_op = Add_op 'k 'v | Delete_op 'k 'v

fun Multimap_step :: "('k, 'v) mm_op \<Rightarrow> ('k, 'v) multimap_state \<Rightarrow> ('k, 'v) multimap_state" where
  "Multimap_step (Add_op k v) m = Multimap_add m k v"
| "Multimap_step (Delete_op k v) m = Multimap_delete m k v"

fun IndexedMultimap_step ::
    "('k, 'v) mm_op \<Rightarrow> ('k, 'v) indexed_multimap_state \<Rightarrow> ('k, 'v) indexed_multimap_state" where
  "IndexedMultimap_step (Add_op k v) m = IndexedMultimap_add m k v"
| "IndexedMultimap_step (Delete_op k v) m = IndexedMultimap_delete m k v"

lemma Multimap_of_step:
  "Multimap_of (IndexedMultimap_step x m) = Multimap_step x (Multimap_of m)"
  by (cases x) (simp_all add: IndexedMultimap_defs Multimap_defs Let_def)

lemma IndexedMultimap_wf_step:
  "IndexedMultimap_wf m \<Longrightarrow> IndexedMultimap_wf (IndexedMultimap_step x m)"
  by (cases x) (simp_all add: imm.multimap_simps)

lemma Multimap_wf_step: "Multimap_wf m \<Longrightarrow> Multimap_wf (Multimap_step x m)"
  by (cases x) (simp_all add: mm.multimap_simps)

lemma IndexedMultimap_wf_run:
  "IndexedMultimap_wf m \<Longrightarrow> IndexedMultimap_wf (fold IndexedMultimap_step ops m)"
  by (induction ops arbitrary: m) (auto simp: IndexedMultimap_wf_step)

lemma Multimap_of_run:
  "Multimap_of (fold IndexedMultimap_step ops m) = fold Multimap_step ops (Multimap_of m)"
  by (induction ops arbitrary: m) (auto simp: Multimap_of_step)

lemma Multimap_wf_run: "Multimap_wf m \<Longrightarrow> Multimap_wf (fold Multimap_step ops m)"
  by (induction ops arbitrary: m) (auto simp: Multimap_wf_step)

fun rel_step :: "('k, 'v) mm_op \<Rightarrow> ('k \<times> 'v) set \<Rightarrow> ('k \<times> 'v) set" where
  "rel_step (Add_op k v) r = insert (k, v) r"
| "rel_step (Delete_op k v) r = r - {(k, v)}"

lemma Multimap_rel_run:
  "Multimap_wf m \<Longrightarrow> Multimap_rel (fold Multimap_step ops m) = fold rel_step ops (Multimap_rel m)"
proof (induction ops arbitrary: m)
  case (Cons x ops)
  have "Multimap_rel (Multimap_step x m) = rel_step x (Multimap_rel m)"
    using Cons.prems by (cases x) (simp_all add: mm.multimap_simps)
  with Cons show ?case by (simp add: Multimap_wf_step)
qed simp

lemma IndexedMultimap_rel_of: "IndexedMultimap_rel m = Multimap_rel (Multimap_of m)"
  by (simp add: IndexedMultimap_defs Multimap_defs)

definition Multimap_run :: "('k, 'v) mm_op list \<Rightarrow> ('k, 'v) multimap_state" where
  "Multimap_run ops = fold Multimap_step ops Multimap_new"

definition IndexedMultimap_run :: "('k, 'v) mm_op list \<Rightarrow> ('k, 'v) indexed_multimap_state" where
  "IndexedMultimap_run ops = fold IndexedMultimap_step ops IndexedMultimap_new"

lemma Multimap_run_props:
  "Multimap_wf (Multimap_run ops)" "Multimap_rel (Multimap_run ops) = fold rel_step ops {}"
  by (simp_all add: Multimap_run_def Multimap_wf_run Multimap_rel_run mm.wf_empty mm.rel_empty)

lemma IndexedMultimap_run_props:
  "IndexedMultimap_wf (IndexedMultimap_run ops)"
  "Multimap_of (IndexedMultimap_run ops) = Multimap_run ops"
  "IndexedMultimap_rel (IndexedMultimap_run ops) = fold rel_step ops {}"
proof -
  show "IndexedMultimap_wf (IndexedMultimap_run ops)"
    by (simp add: IndexedMultimap_run_def IndexedMultimap_wf_run imm.wf_empty)
  show of: "Multimap_of (IndexedMultimap_run ops) = Multimap_run ops"
    by (simp add: IndexedMultimap_run_def Multimap_run_def Multimap_of_run)
      (simp add: IndexedMultimap_defs Multimap_defs)
  have "IndexedMultimap_rel (IndexedMultimap_run ops) = Multimap_rel (Multimap_of (IndexedMultimap_run ops))"
    by (simp add: IndexedMultimap_defs Multimap_defs)
  with of show "IndexedMultimap_rel (IndexedMultimap_run ops) = fold rel_step ops {}"
    by (simp add: Multimap_run_props)
qed

lemma set_IndexedMultimap_values:
  "IndexedMultimap_wf m \<Longrightarrow> set (IndexedMultimap_values m) = snd ` IndexedMultimap_rel m"
proof -
  assume wf: "IndexedMultimap_wf m"
  have "set (IndexedMultimap_values m) = {v. IndexedMultimap_hasValue m v}"
    by (simp add: IndexedMultimap_values_def IndexedMultimap_hasValue_def)
  also have "\<dots> = snd ` IndexedMultimap_rel m"
    using imm.hasValue_rel [OF wf] by (auto simp: image_iff Bex_def)
  finally show ?thesis .
qed

lemma distinct_IndexedMultimap_values:
  "IndexedMultimap_wf m \<Longrightarrow> distinct (IndexedMultimap_values m)"
  by (simp add: IndexedMultimap_values_def IndexedMultimap_wf_def mm_wf_def)

lemma Multimap_size_card: "Multimap_wf m \<Longrightarrow> Multimap_size m = card (Multimap_rel m)"
  using mm_card [of "valuesByKey m"]
  by (simp add: Multimap_size_values Multimap_values_concat Multimap_wf_def Multimap_rel_def)

end
