(* ===== verification/TokenListObserver.thy ===== *)
theory TokenListObserver
  imports ElementObserver Multimap
begin

text \<open>
  The class \<open>TokenListObserver\<close> of \<^verbatim>\<open>src/gui/web/assets/scripts/stimulus.js\<close> (lines
  783-889): the words of an attribute as tokens with an identity of their own, kept per element.
  When the attribute changes, the longest common prefix of the old and the new words keeps its
  tokens, the other old tokens are reported as unmatched and the other new ones as matched.
\<close>

section \<open>Tokens\<close>

text \<open>A token is an object; \<open>tid\<close> is its identity.\<close>

record token =
  tid :: nat
  token_element :: nat
  token_attribute :: string
  content :: string
  index :: nat

definition parseTokenString :: "nat \<Rightarrow> string \<Rightarrow> nat \<Rightarrow> string \<Rightarrow> token list" where
  "parseTokenString fresh tokenString e attributeName =
     map (\<lambda>(i, w). \<lparr>tid = fresh + i, token_element = e, token_attribute = attributeName,
                    content = w, index = i\<rparr>)
       (enumerate 0 (words tokenString))"

definition nth_opt :: "'a list \<Rightarrow> nat \<Rightarrow> 'a option" where
  "nth_opt xs i = (if i < length xs then Some (xs ! i) else None)"

definition zip_all :: "'a list \<Rightarrow> 'b list \<Rightarrow> ('a option \<times> 'b option) list" where
  "zip_all left right =
     (let len = max (length left) (length right)
      in map (\<lambda>i. (nth_opt left i, nth_opt right i)) [0..<len])"

fun tokensAreEqual :: "token option \<Rightarrow> token option \<Rightarrow> bool" where
  "tokensAreEqual (Some left) (Some right) = (index left = index right \<and> content left = content right)"
| "tokensAreEqual left right = False"

section \<open>The class TokenListObserver\<close>

record 'd token_delegate =
  tokenMatched :: "document \<Rightarrow> token \<Rightarrow> 'd \<Rightarrow> 'd"
  tokenUnmatched :: "document \<Rightarrow> token \<Rightarrow> 'd \<Rightarrow> 'd"

record token_list_observer =
  tokensByElement :: "(nat, token) multimap_state"
  nextToken :: nat

definition TokenListObserver_new :: token_list_observer where
  "TokenListObserver_new = \<lparr>tokensByElement = Multimap_new, nextToken = 0\<rparr>"

definition TokenListObserver_readTokensForElement ::
    "string \<Rightarrow> document \<Rightarrow> nat \<Rightarrow> token_list_observer \<Rightarrow> token_list_observer \<times> token list" where
  "TokenListObserver_readTokensForElement attributeName doc e s =
     (let tokenString = (case getAttribute doc e attributeName of None \<Rightarrow> [] | Some v \<Rightarrow> v);
          tokens = parseTokenString (nextToken s) tokenString e attributeName
      in (s\<lparr>nextToken := nextToken s + length tokens\<rparr>, tokens))"

definition TokenListObserver_tokenMatched ::
    "'d token_delegate \<Rightarrow> document \<Rightarrow> token \<Rightarrow> token_list_observer \<times> 'd \<Rightarrow> token_list_observer \<times> 'd" where
  "TokenListObserver_tokenMatched tdel doc t sd =
     (let (s, d) = sd; d = tokenMatched tdel doc t d
      in (s\<lparr>tokensByElement := Multimap_add (tokensByElement s) (token_element t) t\<rparr>, d))"

definition TokenListObserver_tokenUnmatched ::
    "'d token_delegate \<Rightarrow> document \<Rightarrow> token \<Rightarrow> token_list_observer \<times> 'd \<Rightarrow> token_list_observer \<times> 'd" where
  "TokenListObserver_tokenUnmatched tdel doc t sd =
     (let (s, d) = sd; d = tokenUnmatched tdel doc t d
      in (s\<lparr>tokensByElement := Multimap_delete (tokensByElement s) (token_element t) t\<rparr>, d))"

definition TokenListObserver_tokensMatched ::
    "'d token_delegate \<Rightarrow> document \<Rightarrow> token list \<Rightarrow> token_list_observer \<times> 'd \<Rightarrow> token_list_observer \<times> 'd" where
  "TokenListObserver_tokensMatched tdel doc = fold (TokenListObserver_tokenMatched tdel doc)"

definition TokenListObserver_tokensUnmatched ::
    "'d token_delegate \<Rightarrow> document \<Rightarrow> token list \<Rightarrow> token_list_observer \<times> 'd \<Rightarrow> token_list_observer \<times> 'd" where
  "TokenListObserver_tokensUnmatched tdel doc = fold (TokenListObserver_tokenUnmatched tdel doc)"

definition TokenListObserver_refreshTokensForElement ::
    "string \<Rightarrow> document \<Rightarrow> nat \<Rightarrow> token_list_observer \<Rightarrow> token_list_observer \<times> token list \<times> token list" where
  "TokenListObserver_refreshTokensForElement attributeName doc e s =
     (let previousTokens = Multimap_getValuesForKey (tokensByElement s) e;
          (s, currentTokens) = TokenListObserver_readTokensForElement attributeName doc e s
      in case find_index (\<lambda>(previousToken, currentToken). \<not> tokensAreEqual previousToken currentToken)
               (zip_all previousTokens currentTokens) of
           None \<Rightarrow> (s, [], [])
         | Some firstDifferingIndex \<Rightarrow>
             (s, drop firstDifferingIndex previousTokens, drop firstDifferingIndex currentTokens))"

definition TokenListObserver_elementMatchedAttribute ::
    "string \<Rightarrow> 'd token_delegate \<Rightarrow> document \<Rightarrow> nat \<Rightarrow> token_list_observer \<times> 'd \<Rightarrow> token_list_observer \<times> 'd" where
  "TokenListObserver_elementMatchedAttribute attributeName tdel doc e sd =
     (let (s, d) = sd; (s, tokens) = TokenListObserver_readTokensForElement attributeName doc e s
      in TokenListObserver_tokensMatched tdel doc tokens (s, d))"

definition TokenListObserver_elementAttributeValueChanged ::
    "string \<Rightarrow> 'd token_delegate \<Rightarrow> document \<Rightarrow> nat \<Rightarrow> token_list_observer \<times> 'd \<Rightarrow> token_list_observer \<times> 'd" where
  "TokenListObserver_elementAttributeValueChanged attributeName tdel doc e sd =
     (let (s, d) = sd;
          (s, unmatchedTokens, matchedTokens) =
            TokenListObserver_refreshTokensForElement attributeName doc e s
      in TokenListObserver_tokensMatched tdel doc matchedTokens
           (TokenListObserver_tokensUnmatched tdel doc unmatchedTokens (s, d)))"

definition TokenListObserver_elementUnmatchedAttribute ::
    "'d token_delegate \<Rightarrow> document \<Rightarrow> nat \<Rightarrow> token_list_observer \<times> 'd \<Rightarrow> token_list_observer \<times> 'd" where
  "TokenListObserver_elementUnmatchedAttribute tdel doc e sd =
     TokenListObserver_tokensUnmatched tdel doc
       (Multimap_getValuesForKey (tokensByElement (fst sd)) e) sd"

definition TokenListObserver_delegate ::
    "string \<Rightarrow> 'd token_delegate \<Rightarrow> (token_list_observer \<times> 'd) attribute_delegate" where
  "TokenListObserver_delegate attributeName tdel =
     \<lparr>elementMatchedAttribute =
        Some (\<lambda>doc e _. TokenListObserver_elementMatchedAttribute attributeName tdel doc e),
      elementUnmatchedAttribute =
        Some (\<lambda>doc e _. TokenListObserver_elementUnmatchedAttribute tdel doc e),
      elementAttributeValueChanged =
        Some (\<lambda>doc e _. TokenListObserver_elementAttributeValueChanged attributeName tdel doc e)\<rparr>"

text \<open>The observer's stack: its \<open>AttributeObserver\<close>, itself, and the state of its delegate.\<close>

abbreviation token_stack :: "string \<Rightarrow> 'd token_delegate \<Rightarrow> (token_list_observer \<times> 'd) element_delegate" where
  "token_stack attributeName tdel \<equiv>
     AttributeObserver_new attributeName (TokenListObserver_delegate attributeName tdel)"

definition TokenListObserver_start ::
    "string \<Rightarrow> 'd token_delegate \<Rightarrow> document \<Rightarrow>
       element_observer \<times> token_list_observer \<times> 'd \<Rightarrow> element_observer \<times> token_list_observer \<times> 'd" where
  "TokenListObserver_start attributeName tdel doc =
     AttributeObserver_start attributeName (TokenListObserver_delegate attributeName tdel) doc"

definition TokenListObserver_stop ::
    "element_observer \<times> token_list_observer \<times> 'd \<Rightarrow> element_observer \<times> token_list_observer \<times> 'd" where
  "TokenListObserver_stop = AttributeObserver_stop"

definition TokenListObserver_refresh ::
    "string \<Rightarrow> 'd token_delegate \<Rightarrow> document \<Rightarrow>
       element_observer \<times> token_list_observer \<times> 'd \<Rightarrow> element_observer \<times> token_list_observer \<times> 'd" where
  "TokenListObserver_refresh attributeName tdel doc =
     AttributeObserver_refresh attributeName (TokenListObserver_delegate attributeName tdel) doc"

section \<open>The tokens of an element\<close>

definition tokens_of :: "token_list_observer \<Rightarrow> nat \<Rightarrow> token list" where
  "tokens_of s e = Multimap_getValuesForKey (tokensByElement s) e"

definition all_tokens :: "token_list_observer \<Rightarrow> token set" where
  "all_tokens s = {t. \<exists>e. t \<in> set (tokens_of s e)}"

definition attribute_words :: "string \<Rightarrow> document \<Rightarrow> nat \<Rightarrow> string list" where
  "attribute_words attributeName doc e =
     (case getAttribute doc e attributeName of None \<Rightarrow> [] | Some v \<Rightarrow> words v)"

lemma attribute_words_eq:
  "words (case getAttribute doc e a of None \<Rightarrow> [] | Some v \<Rightarrow> v) = attribute_words a doc e"
  by (simp add: attribute_words_def split: option.split)

lemma Multimap_values_add:
  "Multimap_getValuesForKey (Multimap_add m k v) k' =
     (if k' = k then Set_add v (Multimap_getValuesForKey m k) else Multimap_getValuesForKey m k')"
  by (simp add: Multimap_defs Map_get_mm_add)

lemma Multimap_values_delete:
  "Multimap_getValuesForKey (Multimap_delete m k v) k' =
     (if k' = k then Set_delete v (Multimap_getValuesForKey m k) else Multimap_getValuesForKey m k')"
  by (simp add: Multimap_defs Map_get_mm_del Let_def)

definition add_token :: "token \<Rightarrow> token_list_observer \<Rightarrow> token_list_observer" where
  "add_token t s = s\<lparr>tokensByElement := Multimap_add (tokensByElement s) (token_element t) t\<rparr>"

definition delete_token :: "token \<Rightarrow> token_list_observer \<Rightarrow> token_list_observer" where
  "delete_token t s = s\<lparr>tokensByElement := Multimap_delete (tokensByElement s) (token_element t) t\<rparr>"

lemma tokensMatched_eq:
  "TokenListObserver_tokensMatched tdel doc ts (s, d) =
     (fold add_token ts s, fold (tokenMatched tdel doc) ts d)"
  by (induction ts arbitrary: s d)
    (simp_all add: TokenListObserver_tokensMatched_def TokenListObserver_tokenMatched_def add_token_def)

lemma tokensUnmatched_eq:
  "TokenListObserver_tokensUnmatched tdel doc ts (s, d) =
     (fold delete_token ts s, fold (tokenUnmatched tdel doc) ts d)"
  by (induction ts arbitrary: s d)
    (simp_all add: TokenListObserver_tokensUnmatched_def TokenListObserver_tokenUnmatched_def delete_token_def)

lemma tokens_of_add:
  assumes "distinct ts" "set ts \<inter> set (tokens_of s e) = {}" "\<forall>t\<in>set ts. token_element t = e"
  shows "tokens_of (fold add_token ts s) e' = (if e' = e then tokens_of s e @ ts else tokens_of s e')"
  using assms
proof (induction ts arbitrary: s)
  case (Cons t ts)
  let ?s = "add_token t s"
  have one: "tokens_of ?s k = (if k = e then tokens_of s e @ [t] else tokens_of s k)" for k
    using Cons.prems by (auto simp: tokens_of_def add_token_def Multimap_values_add Set_add_def)
  have "distinct ts" "set ts \<inter> set (tokens_of ?s e) = {}" "\<forall>t\<in>set ts. token_element t = e"
    using Cons.prems one by auto
  from Cons.IH [OF this] one show ?case by simp
qed simp

lemma tokens_of_delete:
  assumes "\<forall>t\<in>set ts. token_element t = e"
  shows "tokens_of (fold delete_token ts s) e' =
    (if e' = e then filter (\<lambda>t. t \<notin> set ts) (tokens_of s e) else tokens_of s e')"
  using assms
proof (induction ts arbitrary: s)
  case (Cons t ts)
  let ?s = "delete_token t s"
  have one: "tokens_of ?s k = (if k = e then Set_delete t (tokens_of s e) else tokens_of s k)" for k
    using Cons.prems by (auto simp: tokens_of_def delete_token_def Multimap_values_delete)
  from Cons.prems Cons.IH [of ?s] one show ?case by (auto simp: Set_delete_def intro!: filter_cong)
qed simp

lemma nextToken_fold [simp]:
  "nextToken (fold add_token ts s) = nextToken s" "nextToken (fold delete_token ts s) = nextToken s"
  by (induction ts arbitrary: s) (simp_all add: add_token_def delete_token_def)

section \<open>Reading and comparing tokens\<close>

lemma length_parseTokenString [simp]: "length (parseTokenString n s e a) = length (words s)"
  by (simp add: parseTokenString_def)

lemma nth_parseTokenString:
  "i < length (words s) \<Longrightarrow> parseTokenString n s e a ! i =
     \<lparr>tid = n + i, token_element = e, token_attribute = a, content = words s ! i, index = i\<rparr>"
  by (simp add: parseTokenString_def nth_enumerate_eq)

lemma parseTokenString_props:
  "map content (parseTokenString n s e a) = words s"
  "map index (parseTokenString n s e a) = [0..<length (words s)]"
  "map tid (parseTokenString n s e a) = [n..<n + length (words s)]"
  "t \<in> set (parseTokenString n s e a) \<Longrightarrow> token_element t = e \<and> token_attribute t = a"
  by (auto intro!: nth_equalityI simp: nth_parseTokenString)
    (auto simp: parseTokenString_def)

text \<open>Two token lists that are numbered from 0 differ first where their words do.\<close>

lemma first_difference:
  assumes "map index ps = [0..<length ps]" "map index cs = [0..<length cs]"
  defines "k \<equiv> length (takeWhile (\<lambda>(p, c). content p = content c) (zip ps cs))"
  shows "find_index (\<lambda>(p, c). \<not> tokensAreEqual p c) (zip_all ps cs) =
     (if map content ps = map content cs then None else Some k)"
proof -
  have idx: "i < length ps \<Longrightarrow> index (ps ! i) = i" "i < length cs \<Longrightarrow> index (cs ! i) = i" for i
    using assms(1,2) by (metis add_0 diff_zero length_map length_upt nth_map nth_upt)+
  show ?thesis
  proof (cases "map content ps = map content cs")
    case True
    then have len: "length ps = length cs" by (metis length_map)
    have "tokensAreEqual (nth_opt ps i) (nth_opt cs i)" if "i < length ps" for i
      using True that len idx by (simp add: nth_opt_def) (metis nth_map)
    then have "find_index (\<lambda>(p, c). \<not> tokensAreEqual p c) (zip_all ps cs) = None"
      using len by (auto simp: find_index_None_iff zip_all_def)
    with True show ?thesis by simp
  next
    case False
    let ?z = "zip ps cs" and ?eq = "\<lambda>(p, c). content p = content c"
    have kz: "k \<le> length ?z" unfolding k_def by (rule length_takeWhile_le)
    have before: "content (ps ! i) = content (cs ! i)" if "i < k" for i
    proof -
      have "takeWhile ?eq ?z ! i = ?z ! i" using that by (simp add: k_def takeWhile_nth)
      moreover have "?eq (takeWhile ?eq ?z ! i)"
        using that set_takeWhileD [of "takeWhile ?eq ?z ! i" ?eq ?z] by (auto simp: k_def)
      ultimately show ?thesis using that kz by (auto simp: split_beta)
    qed
    have at: "\<not> tokensAreEqual (nth_opt ps k) (nth_opt cs k)"
    proof (cases "k < length ?z")
      case True
      then have "\<not> ?eq (?z ! k)" unfolding k_def by (rule nth_length_takeWhile)
      with True show ?thesis by (simp add: nth_opt_def)
    next
      case F: False
      with kz have "k = min (length ps) (length cs)" by auto
      moreover from this before have "length ps = length cs \<Longrightarrow> map content ps = map content cs"
        by (auto intro: nth_equalityI)
      ultimately have "k \<ge> length ps \<or> k \<ge> length cs" by auto
      then show ?thesis by (auto simp: nth_opt_def)
    qed
    have "k < max (length ps) (length cs)"
    proof (rule ccontr)
      assume "\<not> k < max (length ps) (length cs)"
      with kz have "k = length ps" "k = length cs" by auto
      with before have "map content ps = map content cs" by (auto intro: nth_equalityI)
      with False show False by simp
    qed
    have "find_index (\<lambda>(p, c). \<not> tokensAreEqual p c) (zip_all ps cs) = Some k"
      by (rule find_index_SomeI)
        (use \<open>k < _\<close> at before idx kz in \<open>auto simp: zip_all_def nth_opt_def\<close>)
    with False show ?thesis by simp
  qed
qed

lemma readTokens_eq:
  "TokenListObserver_readTokensForElement a doc e s =
     (s\<lparr>nextToken := nextToken s + length (attribute_words a doc e)\<rparr>,
      parseTokenString (nextToken s) (case getAttribute doc e a of None \<Rightarrow> [] | Some v \<Rightarrow> v) e a)"
  by (simp add: TokenListObserver_readTokensForElement_def attribute_words_eq Let_def)

section \<open>The invariant of the observer\<close>

text \<open>
  Only the elements in \<open>E\<close> have tokens; the tokens of an element are numbered from 0; no two
  tokens share an identity. \<open>tokens_synced\<close>: the tokens of the elements in \<open>E\<close> are the words
  of their attribute in the current document.
\<close>

definition tokens_ok :: "string \<Rightarrow> nat set \<Rightarrow> token_list_observer \<Rightarrow> bool" where
  "tokens_ok a E s \<longleftrightarrow> Multimap_wf (tokensByElement s) \<and> (\<forall>e. e \<notin> E \<longrightarrow> tokens_of s e = []) \<and>
     (\<forall>e. map index (tokens_of s e) = [0..<length (tokens_of s e)]) \<and>
     (\<forall>e. \<forall>t\<in>set (tokens_of s e). token_element t = e \<and> token_attribute t = a \<and> tid t < nextToken s) \<and>
     inj_on tid (all_tokens s)"

definition tokens_synced :: "string \<Rightarrow> document \<Rightarrow> nat set \<Rightarrow> token_list_observer \<Rightarrow> bool" where
  "tokens_synced a doc E s \<longleftrightarrow> (\<forall>e\<in>E. map content (tokens_of s e) = attribute_words a doc e)"

lemma Multimap_wf_fold_token:
  "Multimap_wf (tokensByElement s) \<Longrightarrow> Multimap_wf (tokensByElement (fold add_token ts s))"
  "Multimap_wf (tokensByElement s) \<Longrightarrow> Multimap_wf (tokensByElement (fold delete_token ts s))"
  by (induction ts arbitrary: s) (simp_all add: add_token_def delete_token_def mm.wf_add mm.wf_delete)

lemma tokens_distinct: "tokens_ok a E s \<Longrightarrow> distinct (tokens_of s e)"
  using mm.distinct_values [of "tokensByElement s" e] by (simp add: tokens_ok_def tokens_of_def)

lemma tokens_ok_new: "tokens_ok a {} TokenListObserver_new"
  by (simp add: tokens_ok_def TokenListObserver_new_def tokens_of_def all_tokens_def mm.wf_empty)
    (simp add: Multimap_defs)

text \<open>The tokens of \<open>e\<close> become \<open>ps @ cs\<close>: \<open>ps\<close> are old ones, \<open>cs\<close> come from reading the attribute.\<close>

lemma tokens_ok_replace:
  assumes ok: "tokens_ok a E s" and "e \<in> E'" "E \<subseteq> insert e E'" "E' \<subseteq> insert e E"
    and ps: "ps = take k (tokens_of s e)" "k \<le> length (tokens_of s e)"
    and cs: "cs = drop k (parseTokenString (nextToken s) v e a)" "k \<le> length (words v)"
    and s': "Multimap_wf (tokensByElement s')" "nextToken s' = nextToken s + length (words v)"
      "\<And>e'. tokens_of s' e' = (if e' = e then ps @ cs else tokens_of s e')"
  shows "tokens_ok a E' s'"
proof -
  let ?new = "parseTokenString (nextToken s) v e a"
  have all: "all_tokens s' \<subseteq> all_tokens s \<union> set ?new"
    using s'(3) ps cs by (auto simp: all_tokens_def split: if_splits dest: in_set_takeD in_set_dropD)
  have old: "t \<in> all_tokens s \<Longrightarrow> tid t < nextToken s" for t
    using ok by (auto simp: tokens_ok_def all_tokens_def)
  have new: "t \<in> set ?new \<Longrightarrow> nextToken s \<le> tid t \<and> tid t < nextToken s + length (words v)" for t
  proof -
    assume "t \<in> set ?new"
    then have "tid t \<in> set (map tid ?new)" by simp
    then show ?thesis by (simp only: parseTokenString_props) simp
  qed
  have "inj_on tid (set ?new)"
    using parseTokenString_props(3) [of "nextToken s" v e a] by (metis distinct_map distinct_upt)
  moreover have "inj_on tid (all_tokens s)" using ok by (simp add: tokens_ok_def)
  moreover have "tid t \<noteq> tid t'" if "t \<in> all_tokens s" "t' \<in> set ?new" for t t'
    using old [OF that(1)] new [OF that(2)] by simp
  ultimately have inj: "inj_on tid (all_tokens s \<union> set ?new)"
    by (fastforce simp: inj_on_def)
  have idx: "map index (ps @ cs) = [0..<length (ps @ cs)]"
  proof -
    have "map index ps = take k (map index (tokens_of s e))" by (simp add: ps take_map)
    also have "\<dots> = [0..<k]" using ok ps(2) by (simp add: tokens_ok_def take_upt)
    finally have "map index (ps @ cs) = [0..<k] @ [k..<length (words v)]"
      by (simp add: cs(1) drop_map [symmetric] parseTokenString_props)
    also have "\<dots> = [0..<length (words v)]" using upt_add_eq_append [of 0 k "length (words v) - k"] cs(2) by simp
    finally show ?thesis using ps cs by simp
  qed
  show ?thesis
    unfolding tokens_ok_def
  proof (intro conjI allI impI ballI)
    fix e' t assume t: "t \<in> set (tokens_of s' e')"
    consider (old) "t \<in> set (tokens_of s e')" | (new) "e' = e" "t \<in> set ?new"
      using t s'(3) ps cs by (auto split: if_splits dest: in_set_takeD in_set_dropD)
    then have "token_element t = e' \<and> token_attribute t = a \<and> tid t < nextToken s'"
    proof cases
      case old
      with ok have "token_element t = e' \<and> token_attribute t = a \<and> tid t < nextToken s"
        unfolding tokens_ok_def by blast
      then show ?thesis by (simp add: s'(2))
    next
      case new
      from parseTokenString_props(4) [OF this(2)] \<open>t \<in> set ?new \<Longrightarrow> _\<close> [OF this(2)] this(1)
      show ?thesis by (simp add: s'(2))
    qed
    then show "token_element t = e'" "token_attribute t = a" "tid t < nextToken s'" by simp_all
  next
    fix e' assume "e' \<notin> E'"
    then show "tokens_of s' e' = []" using ok assms(2,3) by (auto simp: s'(3) tokens_ok_def)
  next
    fix e'
    show "map index (tokens_of s' e') = [0..<length (tokens_of s' e')]"
      using ok idx by (simp add: s'(3) tokens_ok_def)
  qed (use s'(1) inj_on_subset [OF inj all] in auto)
qed

section \<open>What the callbacks do\<close>

text \<open>
  Each callback of the \<open>AttributeObserver\<close> replaces a suffix \<open>us\<close> of the tokens of one element
  by \<open>cs\<close>, reports first \<open>us\<close> and then \<open>cs\<close>, and leaves the other elements alone.
\<close>

definition replaces ::
    "'d token_delegate \<Rightarrow> document \<Rightarrow> string \<Rightarrow> nat set \<Rightarrow> nat \<Rightarrow> token list \<Rightarrow> token list \<Rightarrow> token list \<Rightarrow>
       token_list_observer \<times> 'd \<Rightarrow> token_list_observer \<times> 'd \<Rightarrow> bool" where
  "replaces tdel doc a E' e ps us cs sd sd' \<longleftrightarrow>
     tokens_of (fst sd) e = ps @ us \<and> tokens_ok a E' (fst sd') \<and>
     (\<forall>e'. tokens_of (fst sd') e' = (if e' = e then ps @ cs else tokens_of (fst sd) e')) \<and>
     snd sd' = fold (tokenMatched tdel doc) cs (fold (tokenUnmatched tdel doc) us (snd sd))"

lemma elementMatched_replaces:
  assumes ok: "tokens_ok a E (fst sd)" and e: "e \<notin> E"
  shows "\<exists>cs. replaces tdel doc a (insert e E) e [] [] cs sd
       (TokenListObserver_elementMatchedAttribute a tdel doc e sd) \<and>
     map content cs = attribute_words a doc e"
proof -
  obtain s d where sd: "sd = (s, d)" by (cases sd)
  define v where "v = (case getAttribute doc e a of None \<Rightarrow> [] | Some v \<Rightarrow> v)"
  define cs where "cs = parseTokenString (nextToken s) v e a"
  define s' where "s' = fold add_token cs (s\<lparr>nextToken := nextToken s + length (words v)\<rparr>)"
  have none: "tokens_of s e = []" using ok e by (simp add: sd tokens_ok_def)
  have "distinct cs"
    using parseTokenString_props(3) [of "nextToken s" v e a] unfolding cs_def
    by (metis distinct_map distinct_upt)
  then have of: "tokens_of s' e' = (if e' = e then [] @ cs else tokens_of s e')" for e'
    using tokens_of_add [of cs "s\<lparr>nextToken := nextToken s + length (words v)\<rparr>" e e'] none
      parseTokenString_props(4) by (auto simp: s'_def cs_def tokens_of_def)
  have "tokens_ok a (insert e E) s'"
    by (rule tokens_ok_replace [where ps = "[]" and k = 0 and v = v, OF ok [unfolded sd fst_conv] _ _ _ _ _ _ _ _ _ of])
      (use ok in \<open>auto simp: sd cs_def s'_def tokens_ok_def intro!: Multimap_wf_fold_token\<close>)
  moreover have "TokenListObserver_elementMatchedAttribute a tdel doc e sd = (s', fold (tokenMatched tdel doc) cs d)"
    by (simp add: TokenListObserver_elementMatchedAttribute_def readTokens_eq tokensMatched_eq Let_def
        sd s'_def cs_def v_def attribute_words_eq)
  moreover have "map content cs = attribute_words a doc e"
    by (simp add: cs_def parseTokenString_props v_def attribute_words_eq)
  ultimately show ?thesis using of none by (auto simp: replaces_def sd)
qed

lemma elementUnmatched_replaces:
  assumes ok: "tokens_ok a E (fst sd)"
  shows "replaces tdel doc a (E - {e}) e [] (tokens_of (fst sd) e) [] sd
      (TokenListObserver_elementUnmatchedAttribute tdel doc e sd)"
proof -
  obtain s d where sd: "sd = (s, d)" by (cases sd)
  define s' where "s' = fold delete_token (tokens_of s e) s"
  have "\<forall>t\<in>set (tokens_of s e). token_element t = e" using ok by (auto simp: sd tokens_ok_def)
  then have of: "tokens_of s' e' = (if e' = e then [] else tokens_of s e')" for e'
    by (simp add: s'_def tokens_of_delete [where e = e])
  then have "all_tokens s' \<subseteq> all_tokens s" by (auto simp: all_tokens_def split: if_splits)
  then have "tokens_ok a (E - {e}) s'"
    using ok of by (auto simp: tokens_ok_def sd s'_def Multimap_wf_fold_token intro: inj_on_subset)
  moreover have "TokenListObserver_elementUnmatchedAttribute tdel doc e sd =
      (s', fold (tokenUnmatched tdel doc) (tokens_of s e) d)"
    by (simp add: TokenListObserver_elementUnmatchedAttribute_def sd tokensUnmatched_eq s'_def tokens_of_def)
  ultimately show ?thesis using of by (simp add: replaces_def sd)
qed

lemma attributeChanged_replaces:
  assumes ok: "tokens_ok a E (fst sd)" and e: "e \<in> E"
  shows "\<exists>ps us cs. replaces tdel doc a E e ps us cs sd
       (TokenListObserver_elementAttributeValueChanged a tdel doc e sd) \<and>
     map content (ps @ cs) = attribute_words a doc e \<and>
     (us = [] \<or> cs = [] \<or> content (hd us) \<noteq> content (hd cs))"
proof -
  obtain s d where sd: "sd = (s, d)" by (cases sd)
  define v where "v = (case getAttribute doc e a of None \<Rightarrow> [] | Some v \<Rightarrow> v)"
  define new where "new = parseTokenString (nextToken s) v e a"
  define old where "old = tokens_of s e"
  define k where "k = (if map content old = map content new then length old
      else length (takeWhile (\<lambda>(p, c). content p = content c) (zip old new)))"
  define s1 where "s1 = s\<lparr>nextToken := nextToken s + length (words v)\<rparr>"
  define us cs where "us = drop k old" and "cs = drop k new"
  let ?eq = "\<lambda>(p, c). content p = content c"
  have idx: "map index old = [0..<length old]" "map index new = [0..<length new]"
    using ok by (simp_all add: old_def new_def tokens_ok_def sd parseTokenString_props)
  have k: "k \<le> length old" "k \<le> length new"
    using length_takeWhile_le [of ?eq "zip old new"] by (auto simp: k_def dest: arg_cong [where f = length])
  have same: "map content (take k old) = map content (take k new)"
  proof (cases "map content old = map content new")
    case True
    then have "length old = length new" by (metis length_map)
    with True show ?thesis by (simp add: k_def)
  next
    case False
    have "content (old ! i) = content (new ! i)" if "i < k" for i
    proof -
      let ?t = "takeWhile ?eq (zip old new)"
      have "?t ! i = zip old new ! i" using that False by (simp add: k_def takeWhile_nth)
      moreover have "?eq (?t ! i)"
        using that False set_takeWhileD [of "?t ! i" ?eq "zip old new"] by (auto simp: k_def)
      ultimately show ?thesis using that k by (auto simp: split_beta)
    qed
    with k show ?thesis by (auto intro!: nth_equalityI)
  qed
  have refresh: "TokenListObserver_refreshTokensForElement a doc e s = (s1, us, cs)"
    using first_difference [OF idx] k
    by (auto simp: TokenListObserver_refreshTokensForElement_def readTokens_eq Let_def s1_def us_def
        cs_def k_def old_def new_def v_def attribute_words_eq tokens_of_def split: if_splits
        dest: arg_cong [where f = length])
  define s' where "s' = fold add_token cs (fold delete_token us s1)"
  have sub: "\<forall>t\<in>set us. token_element t = e" "distinct old"
    using ok tokens_distinct [of a E s e] by (auto simp: us_def old_def sd tokens_ok_def dest: in_set_dropD)
  have cut: "filter (\<lambda>t. t \<notin> set us) old = take k old"
  proof -
    have "set (take k old) \<inter> set us = {}"
      using sub(2) by (simp add: us_def set_take_disj_set_drop_if_distinct)
    then have "filter (\<lambda>t. t \<notin> set us) (take k old @ us) = take k old"
      by (auto simp: filter_id_conv intro: filter_False)
    then show ?thesis by (simp add: us_def)
  qed
  have s1: "tokens_of s1 e' = tokens_of s e'" for e' by (simp add: s1_def tokens_of_def)
  have mid: "tokens_of (fold delete_token us s1) e' = (if e' = e then take k old else tokens_of s e')" for e'
    using tokens_of_delete [OF sub(1), of s1 e'] cut by (simp add: s1 old_def)
  have dis: "distinct cs" "set cs \<inter> set (take k old) = {}" "\<forall>t\<in>set cs. token_element t = e"
  proof -
    have "distinct (map tid new)" by (simp add: new_def parseTokenString_props)
    then show "distinct cs" by (simp add: cs_def distinct_map)
    have "t \<in> set new \<Longrightarrow> nextToken s \<le> tid t" for t
      using parseTokenString_props(3) [of "nextToken s" v e a] unfolding new_def
      by (metis atLeastLessThan_iff imageI image_set set_upt)
    moreover have "t \<in> set old \<Longrightarrow> tid t < nextToken s" for t
      using ok by (auto simp: tokens_ok_def old_def sd)
    ultimately show "set cs \<inter> set (take k old) = {}"
      by (fastforce simp: cs_def dest: in_set_dropD in_set_takeD)
    show "\<forall>t\<in>set cs. token_element t = e"
      using parseTokenString_props(4) by (auto simp: cs_def new_def dest: in_set_dropD)
  qed
  have of: "tokens_of s' e' = (if e' = e then take k old @ cs else tokens_of s e')" for e'
    using tokens_of_add [of cs "fold delete_token us s1" e e'] dis by (simp add: s'_def mid)
  have "tokens_ok a E s'"
    by (rule tokens_ok_replace [where ps = "take k old" and k = k and v = v, OF ok [unfolded sd fst_conv] _ _ _ _ _ _ _ _ _ of])
      (use ok e k in \<open>auto simp: sd cs_def s'_def s1_def old_def new_def tokens_ok_def intro!: Multimap_wf_fold_token\<close>)
  moreover have "TokenListObserver_elementAttributeValueChanged a tdel doc e sd =
      (s', fold (tokenMatched tdel doc) cs (fold (tokenUnmatched tdel doc) us d))"
    by (simp add: TokenListObserver_elementAttributeValueChanged_def sd refresh tokensMatched_eq
        tokensUnmatched_eq s'_def)
  moreover have "map content (take k old @ cs) = attribute_words a doc e"
  proof -
    have "map content (take k old @ cs) = map content (take k new @ drop k new)"
      unfolding map_append same by (simp add: cs_def)
    also have "\<dots> = attribute_words a doc e"
      by (simp add: new_def parseTokenString_props v_def attribute_words_eq)
    finally show ?thesis .
  qed
  moreover have "us = [] \<or> cs = [] \<or> content (hd us) \<noteq> content (hd cs)"
  proof (cases "us = [] \<or> cs = []")
    case False
    then have l: "k < length old" "k < length new" by (auto simp: us_def cs_def)
    then have ne: "map content old \<noteq> map content new" by (auto simp: k_def split: if_splits)
    with l have "\<not> ?eq (zip old new ! k)"
      using nth_length_takeWhile [of ?eq "zip old new"] by (auto simp: k_def)
    with l show ?thesis by (auto simp: us_def cs_def hd_drop_conv_nth)
  qed auto
  moreover have "old = take k old @ us" by (simp add: us_def)
  ultimately show ?thesis
    using of by (intro exI [of _ "take k old"] exI [of _ us] exI [of _ cs]) (simp add: replaces_def sd old_def [symmetric])
qed

section \<open>The protocol towards a token delegate\<close>

text \<open>
  A token is reported as matched when it was not known and no known token has its identity, and
  only a matched token is reported as unmatched.
\<close>

locale token_client =
  fixes tdel :: "'d token_delegate" and doc :: document and TInv :: "token set \<Rightarrow> 'd \<Rightarrow> bool"
  assumes matched_token: "TInv T d \<Longrightarrow> tid t \<notin> tid ` T \<Longrightarrow> TInv (insert t T) (tokenMatched tdel doc t d)"
    and unmatched_token: "TInv T d \<Longrightarrow> t \<in> T \<Longrightarrow> inj_on tid T \<Longrightarrow>
      TInv (T - {t}) (tokenUnmatched tdel doc t d)"
begin

lemma fold_matched:
  "TInv T d \<Longrightarrow> distinct ts \<Longrightarrow> set ts \<inter> T = {} \<Longrightarrow> inj_on tid (T \<union> set ts) \<Longrightarrow>
     TInv (T \<union> set ts) (fold (tokenMatched tdel doc) ts d)"
proof (induction ts arbitrary: T d)
  case (Cons t ts)
  then have "tid t \<notin> tid ` T" by (auto simp: inj_on_def)
  then have "TInv (insert t T) (tokenMatched tdel doc t d)" using Cons.prems by (simp add: matched_token)
  with Cons.IH [of "insert t T"] Cons.prems show ?case by simp
qed simp

lemma fold_unmatched:
  "TInv T d \<Longrightarrow> distinct ts \<Longrightarrow> set ts \<subseteq> T \<Longrightarrow> inj_on tid T \<Longrightarrow>
     TInv (T - set ts) (fold (tokenUnmatched tdel doc) ts d)"
proof (induction ts arbitrary: T d)
  case (Cons t ts)
  then have "TInv (T - {t}) (tokenUnmatched tdel doc t d)" by (simp add: unmatched_token)
  moreover have "set ts \<subseteq> T - {t}" "inj_on tid (T - {t})"
    using Cons.prems by (auto intro: inj_on_subset)
  moreover have "T - {t} - set ts = T - set (t # ts)" by auto
  ultimately show ?case using Cons.IH [of "T - {t}"] Cons.prems(2) by simp
qed simp

lemma replaces_TInv:
  assumes r: "replaces tdel doc a E' e ps us cs sd sd'"
    and ok: "tokens_ok a E (fst sd)" and inv: "TInv (all_tokens (fst sd)) (snd sd)"
  shows "TInv (all_tokens (fst sd')) (snd sd')"
proof -
  let ?T = "all_tokens (fst sd)" and ?T' = "all_tokens (fst sd')"
  have ok': "tokens_ok a E' (fst sd')" and old: "tokens_of (fst sd) e = ps @ us"
    and new: "\<And>e'. tokens_of (fst sd') e' = (if e' = e then ps @ cs else tokens_of (fst sd) e')"
    using r by (simp_all add: replaces_def)
  have d: "distinct (ps @ us)" "distinct (ps @ cs)"
    using tokens_distinct [OF ok, of e] tokens_distinct [OF ok', of e] by (simp_all add: old new)
  have el: "t \<in> set (tokens_of (fst sd) e') \<Longrightarrow> token_element t = e'"
    "t \<in> set (tokens_of (fst sd') e') \<Longrightarrow> token_element t = e'" for t e'
    using ok ok' by (auto simp: tokens_ok_def)
  have us: "set us \<subseteq> ?T" using old by (auto simp: all_tokens_def intro: exI [of _ e])
  have rest: "?T - set us = {t. \<exists>e'. t \<in> set (if e' = e then ps else tokens_of (fst sd) e')}"
  proof (intro set_eqI iffI)
    fix t assume "t \<in> ?T - set us"
    then obtain e' where "t \<in> set (tokens_of (fst sd) e')" "t \<notin> set us" by (auto simp: all_tokens_def)
    then show "t \<in> {t. \<exists>e'. t \<in> set (if e' = e then ps else tokens_of (fst sd) e')}"
      using old by (intro CollectI exI [of _ e']) auto
  next
    fix t assume "t \<in> {t. \<exists>e'. t \<in> set (if e' = e then ps else tokens_of (fst sd) e')}"
    then obtain e' where t: "t \<in> set (if e' = e then ps else tokens_of (fst sd) e')" by auto
    then have "t \<in> set (tokens_of (fst sd) e')" using old by (auto split: if_splits)
    moreover have "t \<notin> set us"
      using t d(1) el(1) [of t e'] el(1) [of t e] old by (auto split: if_splits)
    ultimately show "t \<in> ?T - set us" by (auto simp: all_tokens_def)
  qed
  have T': "?T' = ?T - set us \<union> set cs"
    unfolding rest by (auto simp: all_tokens_def new split: if_splits)
  have "set cs \<inter> (?T - set us) = {}"
  proof (intro equals0I)
    fix t assume t: "t \<in> set cs \<inter> (?T - set us)"
    then obtain e' where e': "t \<in> set (if e' = e then ps else tokens_of (fst sd) e')"
      unfolding rest by blast
    moreover have "token_element t = e" using el(2) [of t e] t new by simp
    ultimately have "t \<in> set ps" using el(1) [of t e'] by (auto split: if_splits)
    with t d(2) show False by auto
  qed
  moreover have "TInv (?T - set us) (fold (tokenUnmatched tdel doc) us (snd sd))"
    using fold_unmatched [OF inv _ us] d(1) ok by (simp add: tokens_ok_def)
  moreover have "inj_on tid (?T - set us \<union> set cs)"
    using ok' by (simp add: tokens_ok_def T')
  ultimately have "TInv (?T - set us \<union> set cs)
      (fold (tokenMatched tdel doc) cs (fold (tokenUnmatched tdel doc) us (snd sd)))"
    using fold_matched d(2) by (auto simp: Int_commute)
  then show ?thesis using r by (simp add: replaces_def T')
qed

end

definition tokens_inv ::
    "string \<Rightarrow> (token set \<Rightarrow> 'd \<Rightarrow> bool) \<Rightarrow> nat set \<Rightarrow> token_list_observer \<times> 'd \<Rightarrow> bool" where
  "tokens_inv a TInv E sd \<longleftrightarrow> tokens_ok a E (fst sd) \<and> TInv (all_tokens (fst sd)) (snd sd)"

lemma TokenListObserver_callbacks:
  "AttributeObserver_elementMatched b (TokenListObserver_delegate a tdel) doc e sd =
     TokenListObserver_elementMatchedAttribute a tdel doc e sd"
  "AttributeObserver_elementUnmatched b (TokenListObserver_delegate a tdel) doc e sd =
     TokenListObserver_elementUnmatchedAttribute tdel doc e sd"
  "AttributeObserver_elementAttributeChanged b (TokenListObserver_delegate a tdel) doc e b sd =
     TokenListObserver_elementAttributeValueChanged a tdel doc e sd"
  by (simp_all add: AttributeObserver_defs TokenListObserver_delegate_def)

sublocale token_client \<subseteq> attributes: attribute_client attributeName
    "TokenListObserver_delegate attributeName tdel" doc "tokens_inv attributeName TInv"
    for attributeName
proof
  fix E e and sd :: "token_list_observer \<times> 'd"
  assume inv: "tokens_inv attributeName TInv E sd"
  then have ok: "tokens_ok attributeName E (fst sd)" and T: "TInv (all_tokens (fst sd)) (snd sd)"
    by (simp_all add: tokens_inv_def)
  have step: "tokens_inv attributeName TInv E' sd'" if "replaces tdel doc attributeName E' e ps us cs sd sd'"
    for E' ps us cs sd'
    using replaces_TInv [OF that ok T] that by (simp add: tokens_inv_def replaces_def)
  show "tokens_inv attributeName TInv (insert e E)
      (AttributeObserver_elementMatched attributeName (TokenListObserver_delegate attributeName tdel) doc e sd)"
    if "e \<notin> E"
    using elementMatched_replaces [OF ok that, of tdel doc] step unfolding TokenListObserver_callbacks by blast
  show "tokens_inv attributeName TInv (E - {e})
      (AttributeObserver_elementUnmatched attributeName (TokenListObserver_delegate attributeName tdel) doc e sd)"
    using elementUnmatched_replaces [OF ok, of tdel doc] step unfolding TokenListObserver_callbacks by blast
  show "tokens_inv attributeName TInv E
      (AttributeObserver_elementAttributeChanged attributeName (TokenListObserver_delegate attributeName tdel) doc e
        attributeName sd)" if "e \<in> E"
    using attributeChanged_replaces [OF ok that, of tdel doc] step unfolding TokenListObserver_callbacks by blast
qed

text \<open>Whatever the delegate does, the tokens follow the attributes.\<close>

interpretation synced: attribute_client a "TokenListObserver_delegate a tdel" doc
    "\<lambda>E sd. tokens_ok a E (fst sd) \<and> tokens_synced a doc E (fst sd)"
    for a and tdel :: "'d token_delegate" and doc
proof
  fix E e and sd :: "token_list_observer \<times> 'd"
  assume inv: "tokens_ok a E (fst sd) \<and> tokens_synced a doc E (fst sd)"
  then have ok: "tokens_ok a E (fst sd)" by simp
  let ?adel = "TokenListObserver_delegate a tdel"
  show "tokens_ok a (insert e E) (fst (AttributeObserver_elementMatched a ?adel doc e sd)) \<and>
      tokens_synced a doc (insert e E) (fst (AttributeObserver_elementMatched a ?adel doc e sd))"
    if "e \<notin> E"
    using elementMatched_replaces [OF ok that, of tdel doc] inv
    by (auto simp: TokenListObserver_callbacks replaces_def tokens_synced_def)
  show "tokens_ok a (E - {e}) (fst (AttributeObserver_elementUnmatched a ?adel doc e sd)) \<and>
      tokens_synced a doc (E - {e}) (fst (AttributeObserver_elementUnmatched a ?adel doc e sd))"
    using elementUnmatched_replaces [OF ok, of tdel doc e] inv
    by (auto simp: TokenListObserver_callbacks replaces_def tokens_synced_def)
  show "tokens_ok a E (fst (AttributeObserver_elementAttributeChanged a ?adel doc e a sd)) \<and>
      tokens_synced a doc E (fst (AttributeObserver_elementAttributeChanged a ?adel doc e a sd))" if "e \<in> E"
    using attributeChanged_replaces [OF ok that, of tdel doc] inv
    by (auto simp: TokenListObserver_callbacks replaces_def tokens_synced_def)
qed

end
