(* ===== verification/ValueListObserver.thy ===== *)
theory ValueListObserver
  imports TokenListObserver
begin

text \<open>
  The class \<open>ValueListObserver\<close> of \<^verbatim>\<open>src/gui/web/assets/scripts/stimulus.js\<close> (lines
  890-975): it parses each token once, remembers the result under the token's identity, and
  reports the values of the tokens that have one.
\<close>

section \<open>The class ValueListObserver\<close>

text \<open>\<open>parseValueForToken\<close> may throw (\<open>Inl\<close>), and may have no value (\<open>undefined\<close>).\<close>

type_synonym 'v parse_result = "string + 'v option"

record ('d, 'v) value_delegate =
  parseValueForToken :: "document \<Rightarrow> token \<Rightarrow> 'd \<Rightarrow> 'd \<times> 'v parse_result"
  elementMatchedValue :: "document \<Rightarrow> nat \<Rightarrow> 'v \<Rightarrow> 'd \<Rightarrow> 'd"
  elementUnmatchedValue :: "document \<Rightarrow> nat \<Rightarrow> 'v \<Rightarrow> 'd \<Rightarrow> 'd"

record 'v value_list_observer =
  parseResultsByToken :: "(token \<times> 'v parse_result) list"
  valuesByTokenByElement :: "(nat \<times> (token \<times> 'v) list) list"

definition ValueListObserver_new :: "'v value_list_observer" where
  "ValueListObserver_new = \<lparr>parseResultsByToken = [], valuesByTokenByElement = []\<rparr>"

text \<open>The \<open>value\<close> of a parse result, an object where there is one.\<close>

fun result_value :: "'v parse_result \<Rightarrow> 'v option" where
  "result_value (Inl e) = None"
| "result_value (Inr v) = v"

definition ValueListObserver_parseToken ::
    "('d, 'v) value_delegate \<Rightarrow> document \<Rightarrow> token \<Rightarrow> 'd \<Rightarrow> 'd \<times> 'v parse_result" where
  "ValueListObserver_parseToken vdel doc t d =
     (case parseValueForToken vdel doc t d of
        (d, Inr value) \<Rightarrow> (d, Inr value)
      | (d, Inl error) \<Rightarrow> (d, Inl error))"

definition ValueListObserver_fetchParseResultForToken ::
    "('d, 'v) value_delegate \<Rightarrow> document \<Rightarrow> token \<Rightarrow> 'v value_list_observer \<times> 'd \<Rightarrow>
       ('v value_list_observer \<times> 'd) \<times> 'v parse_result" where
  "ValueListObserver_fetchParseResultForToken vdel doc t sd =
     (let (s, d) = sd
      in case Map_get (parseResultsByToken s) t of
           Some parseResult \<Rightarrow> ((s, d), parseResult)
         | None \<Rightarrow>
             (let (d, parseResult) = ValueListObserver_parseToken vdel doc t d
              in ((s\<lparr>parseResultsByToken := Map_set t parseResult (parseResultsByToken s)\<rparr>, d), parseResult)))"

definition ValueListObserver_fetchValuesByTokenForElement ::
    "nat \<Rightarrow> 'v value_list_observer \<Rightarrow> 'v value_list_observer \<times> (token \<times> 'v) list" where
  "ValueListObserver_fetchValuesByTokenForElement e s =
     (case Map_get (valuesByTokenByElement s) e of
        Some valuesByToken \<Rightarrow> (s, valuesByToken)
      | None \<Rightarrow> (s\<lparr>valuesByTokenByElement := Map_set e [] (valuesByTokenByElement s)\<rparr>, []))"

text \<open>Changing the \<open>Map\<close> that the outer map holds stores it back under its element.\<close>

definition ValueListObserver_tokenMatched ::
    "('d, 'v) value_delegate \<Rightarrow> document \<Rightarrow> token \<Rightarrow> 'v value_list_observer \<times> 'd \<Rightarrow> 'v value_list_observer \<times> 'd" where
  "ValueListObserver_tokenMatched vdel doc t sd =
     (let e = token_element t;
          ((s, d), r) = ValueListObserver_fetchParseResultForToken vdel doc t sd
      in case result_value r of
           None \<Rightarrow> (s, d)
         | Some value \<Rightarrow>
             (let (s, valuesByToken) = ValueListObserver_fetchValuesByTokenForElement e s
              in (s\<lparr>valuesByTokenByElement :=
                      Map_set e (Map_set t value valuesByToken) (valuesByTokenByElement s)\<rparr>,
                  elementMatchedValue vdel doc e value d)))"

definition ValueListObserver_tokenUnmatched ::
    "('d, 'v) value_delegate \<Rightarrow> document \<Rightarrow> token \<Rightarrow> 'v value_list_observer \<times> 'd \<Rightarrow> 'v value_list_observer \<times> 'd" where
  "ValueListObserver_tokenUnmatched vdel doc t sd =
     (let e = token_element t;
          ((s, d), r) = ValueListObserver_fetchParseResultForToken vdel doc t sd
      in case result_value r of
           None \<Rightarrow> (s, d)
         | Some value \<Rightarrow>
             (let (s, valuesByToken) = ValueListObserver_fetchValuesByTokenForElement e s
              in (s\<lparr>valuesByTokenByElement :=
                      Map_set e (Map_delete t valuesByToken) (valuesByTokenByElement s)\<rparr>,
                  elementUnmatchedValue vdel doc e value d)))"

definition ValueListObserver_delegate ::
    "('d, 'v) value_delegate \<Rightarrow> ('v value_list_observer \<times> 'd) token_delegate" where
  "ValueListObserver_delegate vdel =
     \<lparr>tokenMatched = ValueListObserver_tokenMatched vdel,
      tokenUnmatched = ValueListObserver_tokenUnmatched vdel\<rparr>"

type_synonym ('d, 'v) value_stack =
  "element_observer \<times> token_list_observer \<times> 'v value_list_observer \<times> 'd"

definition ValueListObserver_start ::
    "string \<Rightarrow> ('d, 'v) value_delegate \<Rightarrow> document \<Rightarrow> ('d, 'v) value_stack \<Rightarrow> ('d, 'v) value_stack" where
  "ValueListObserver_start attributeName vdel doc =
     TokenListObserver_start attributeName (ValueListObserver_delegate vdel) doc"

definition ValueListObserver_stop :: "('d, 'v) value_stack \<Rightarrow> ('d, 'v) value_stack" where
  "ValueListObserver_stop = TokenListObserver_stop"

definition ValueListObserver_refresh ::
    "string \<Rightarrow> ('d, 'v) value_delegate \<Rightarrow> document \<Rightarrow> ('d, 'v) value_stack \<Rightarrow> ('d, 'v) value_stack" where
  "ValueListObserver_refresh attributeName vdel doc =
     TokenListObserver_refresh attributeName (ValueListObserver_delegate vdel) doc"

text \<open>The \<open>ElementObserver\<close>'s delegate at the bottom of the stack.\<close>

abbreviation value_element_delegate ::
    "string \<Rightarrow> ('d, 'v) value_delegate \<Rightarrow> (token_list_observer \<times> 'v value_list_observer \<times> 'd) element_delegate" where
  "value_element_delegate attributeName vdel \<equiv>
     AttributeObserver_new attributeName
       (TokenListObserver_delegate attributeName (ValueListObserver_delegate vdel))"

section \<open>The protocol towards a value delegate\<close>

definition values_of :: "token set \<Rightarrow> 'v value_list_observer \<Rightarrow> token \<Rightarrow> 'v option" where
  "values_of T s t =
     (if t \<in> T then (case Map_get (parseResultsByToken s) t of None \<Rightarrow> None | Some r \<Rightarrow> result_value r)
      else None)"

definition values_ok :: "(token \<Rightarrow> 'v parse_result \<Rightarrow> bool) \<Rightarrow> token set \<Rightarrow> 'v value_list_observer \<Rightarrow> bool" where
  "values_ok parsed T s \<longleftrightarrow> (\<forall>t\<in>T. Map_get (parseResultsByToken s) t \<noteq> None) \<and>
     (\<forall>t r. Map_get (parseResultsByToken s) t = Some r \<longrightarrow> parsed t r) \<and>
     (\<forall>e t. (case Map_get (valuesByTokenByElement s) e of None \<Rightarrow> None | Some m \<Rightarrow> Map_get m t) =
        (if token_element t = e then values_of T s t else None))"

definition values_inv ::
    "(token \<Rightarrow> 'v parse_result \<Rightarrow> bool) \<Rightarrow> ((token \<Rightarrow> 'v option) \<Rightarrow> 'd \<Rightarrow> bool) \<Rightarrow> token set \<Rightarrow>
       'v value_list_observer \<times> 'd \<Rightarrow> bool" where
  "values_inv parsed VInv T sd \<longleftrightarrow> values_ok parsed T (fst sd) \<and> VInv (values_of T (fst sd)) (snd sd)"

text \<open>
  The delegate learns the value of a token when it is matched, and gets the same value back
  when the token is unmatched. \<open>parsed\<close> is what it promises about its own parsing.
\<close>

locale value_client =
  fixes vdel :: "('d, 'v) value_delegate" and doc :: document
    and parsed :: "token \<Rightarrow> 'v parse_result \<Rightarrow> bool"
    and VInv :: "(token \<Rightarrow> 'v option) \<Rightarrow> 'd \<Rightarrow> bool"
  assumes parse: "VInv M d \<Longrightarrow> VInv M (fst (parseValueForToken vdel doc t d)) \<and>
      parsed t (snd (parseValueForToken vdel doc t d))"
    and matched_value: "VInv M d \<Longrightarrow> tid t \<notin> tid ` dom M \<Longrightarrow> parsed t (Inr (Some v)) \<Longrightarrow>
      VInv (M(t \<mapsto> v)) (elementMatchedValue vdel doc (token_element t) v d)"
    and unmatched_value: "VInv M d \<Longrightarrow> M t = Some v \<Longrightarrow> inj_on tid (dom M) \<Longrightarrow> parsed t (Inr (Some v)) \<Longrightarrow>
      VInv (M(t := None)) (elementUnmatchedValue vdel doc (token_element t) v d)"
begin

lemma fetch_parse:
  assumes "values_inv parsed VInv T sd"
  shows "\<exists>s d r. ValueListObserver_fetchParseResultForToken vdel doc t sd = ((s, d), r) \<and>
     values_inv parsed VInv T (s, d) \<and> Map_get (parseResultsByToken s) t = Some r \<and> parsed t r \<and>
     (t \<in> T \<longrightarrow> (s, d) = sd)"
proof -
  obtain s d where sd: "sd = (s, d)" by (cases sd)
  show ?thesis
  proof (cases "Map_get (parseResultsByToken s) t")
    case (Some r)
    with assms show ?thesis
      by (auto simp: ValueListObserver_fetchParseResultForToken_def sd values_inv_def values_ok_def)
  next
    case None
    obtain d' r where p: "parseValueForToken vdel doc t d = (d', r)" by (cases "parseValueForToken vdel doc t d")
    let ?s = "s\<lparr>parseResultsByToken := Map_set t r (parseResultsByToken s)\<rparr>"
    from None assms have t: "t \<notin> T" by (auto simp: values_inv_def values_ok_def sd)
    then have v: "values_of T ?s = values_of T s" by (auto simp: values_of_def)
    have "VInv (values_of T s) d" using assms by (simp add: values_inv_def sd)
    with parse [of _ d t] p have "VInv (values_of T s) d'" "parsed t r" by auto
    with assms have "values_inv parsed VInv T (?s, d')"
      by (auto simp: values_inv_def sd v values_ok_def)
    moreover have "ValueListObserver_fetchParseResultForToken vdel doc t sd = ((?s, d'), r)"
      using None p by (auto simp: ValueListObserver_fetchParseResultForToken_def sd
          ValueListObserver_parseToken_def split: sum.split)
    ultimately show ?thesis using t \<open>parsed t r\<close> by (auto simp: values_inv_def values_ok_def)
  qed
qed

lemma token_step:
  assumes inv: "values_inv parsed VInv T (s, d)" and t: "Map_get (parseResultsByToken s) t = Some r"
    and T': "\<And>t'. t' \<noteq> t \<Longrightarrow> t' \<in> T' \<longleftrightarrow> t' \<in> T"
    and none: "result_value r = None \<Longrightarrow> s' = s \<and> d' = d"
    and some: "\<And>v. result_value r = Some v \<Longrightarrow> VInv (values_of T' s) d' \<and>
      s' = (let (s1, m) = ValueListObserver_fetchValuesByTokenForElement (token_element t) s
        in s1\<lparr>valuesByTokenByElement := Map_set (token_element t)
            (if t \<in> T' then Map_set t v m else Map_delete t m) (valuesByTokenByElement s1)\<rparr>)"
  shows "values_inv parsed VInv T' (s', d')"
proof (cases "result_value r")
  case None
  have "values_of T' s t' = values_of T s t'" for t'
    using T' [of t'] t None by (cases "t' = t") (auto simp: values_of_def)
  then have "values_of T' s = values_of T s" ..
  moreover have "Map_get (parseResultsByToken s) t' \<noteq> None" if "t' \<in> T'" for t'
    using T' [of t'] that t inv by (cases "t' = t") (auto simp: values_inv_def values_ok_def)
  ultimately show ?thesis
    using inv none [OF None] by (simp add: values_inv_def values_ok_def)
next
  case (Some v)
  have same: "parseResultsByToken s' = parseResultsByToken s"
    using some [OF Some] by (auto simp: ValueListObserver_fetchValuesByTokenForElement_def Let_def
        split: option.splits prod.splits)
  then have vals: "values_of T' s' = values_of T' s" by (simp add: values_of_def fun_eq_iff)
  have look: "(case Map_get (valuesByTokenByElement s') e of None \<Rightarrow> None | Some m \<Rightarrow> Map_get m t') =
      (if t' = t \<and> e = token_element t then (if t \<in> T' then Some v else None)
       else case Map_get (valuesByTokenByElement s) e of None \<Rightarrow> None | Some m \<Rightarrow> Map_get m t')" for e t'
    using some [OF Some]
    by (auto simp: ValueListObserver_fetchValuesByTokenForElement_def Let_def split: option.splits)
  have "values_of T' s t' = (if t' = t then (if t \<in> T' then Some v else None) else values_of T s t')" for t'
    using T' t Some by (auto simp: values_of_def)
  with inv have "values_ok parsed T' s'"
    unfolding values_ok_def look vals same by (auto simp: values_inv_def values_ok_def t T')
      (metis T' option.distinct(1) t)+
  with some [OF Some] vals show ?thesis by (simp add: values_inv_def)
qed

end

sublocale value_client \<subseteq> tokens: token_client "ValueListObserver_delegate vdel" doc "values_inv parsed VInv"
proof
  fix T t and sd :: "'v value_list_observer \<times> 'd"
  assume inv: "values_inv parsed VInv T sd"
  from fetch_parse [OF inv, of t] obtain s d r where
    f: "ValueListObserver_fetchParseResultForToken vdel doc t sd = ((s, d), r)"
    and inv': "values_inv parsed VInv T (s, d)"
    and t: "Map_get (parseResultsByToken s) t = Some r" "parsed t r" by blast
  have V: "VInv (values_of T s) d" using inv' by (simp add: values_inv_def)
  have p: "parsed t (Inr (Some v))" if "result_value r = Some v" for v
    using t(2) that by (cases r) auto
  {
    assume new: "tid t \<notin> tid ` T"
    have "values_of (insert t T) s = (values_of T s)(t \<mapsto> v)" if "result_value r = Some v" for v
      using that t(1) by (auto simp: values_of_def)
    moreover have "tid t \<notin> tid ` dom (values_of T s)" using new by (auto simp: values_of_def split: if_splits)
    ultimately have m: "VInv (values_of (insert t T) s) (elementMatchedValue vdel doc (token_element t) v d)"
      if "result_value r = Some v" for v
      using that matched_value [OF V _ p] by simp
    obtain s' d' where sd': "tokenMatched (ValueListObserver_delegate vdel) doc t sd = (s', d')"
      by (cases "tokenMatched (ValueListObserver_delegate vdel) doc t sd")
    have "values_inv parsed VInv (insert t T) (s', d')"
      by (rule token_step [OF inv' t(1)])
        (use sd' m in \<open>auto simp: ValueListObserver_delegate_def ValueListObserver_tokenMatched_def f Let_def
            split: prod.splits\<close>)
    then show "values_inv parsed VInv (insert t T) (tokenMatched (ValueListObserver_delegate vdel) doc t sd)"
      by (simp only: sd')
  }
  assume tT: "t \<in> T" and inj: "inj_on tid T"
  have "values_of (T - {t}) s = (values_of T s)(t := None)" by (auto simp: values_of_def)
  moreover have "values_of T s t = Some v" if "result_value r = Some v" for v
    using that t(1) tT by (simp add: values_of_def)
  moreover have "inj_on tid (dom (values_of T s))"
    by (rule inj_on_subset [OF inj]) (auto simp: values_of_def split: if_splits)
  ultimately have m: "VInv (values_of (T - {t}) s) (elementUnmatchedValue vdel doc (token_element t) v d)"
    if "result_value r = Some v" for v
    using that unmatched_value [OF V _ _ p] by simp
  obtain s' d' where sd': "tokenUnmatched (ValueListObserver_delegate vdel) doc t sd = (s', d')"
    by (cases "tokenUnmatched (ValueListObserver_delegate vdel) doc t sd")
  have "values_inv parsed VInv (T - {t}) (s', d')"
    by (rule token_step [OF inv' t(1)])
      (use sd' m in \<open>auto simp: ValueListObserver_delegate_def ValueListObserver_tokenUnmatched_def f Let_def
          split: prod.splits\<close>)
  then show "values_inv parsed VInv (T - {t}) (tokenUnmatched (ValueListObserver_delegate vdel) doc t sd)"
    by (simp only: sd')
qed

end
