(* ===== verification/ScopeObserver.thy ===== *)
theory ScopeObserver
  imports ValueListObserver Scope
begin

text \<open>
  The class \<open>ScopeObserver\<close> of \<^verbatim>\<open>src/gui/web/assets/scripts/stimulus.js\<close> (lines
  1644-1711): the words of the controller attribute as scopes. A word may stand twice in an
  attribute, so a scope is counted, connected with its first token and disconnected with its
  last.
\<close>

section \<open>The class ScopeObserver\<close>

record 'd scope_delegate =
  createScopeForElementAndIdentifier :: "nat \<Rightarrow> string \<Rightarrow> scope"
  scopeConnected :: "document \<Rightarrow> scope \<Rightarrow> 'd \<Rightarrow> 'd"
  scopeDisconnected :: "document \<Rightarrow> scope \<Rightarrow> 'd \<Rightarrow> 'd"

record scope_observer =
  scopesByIdentifierByElement :: "(nat \<times> (string \<times> scope) list) list"
  scopeReferenceCounts :: "(scope \<times> nat) list"

definition ScopeObserver_new :: scope_observer where
  "ScopeObserver_new = \<lparr>scopesByIdentifierByElement = [], scopeReferenceCounts = []\<rparr>"

definition ScopeObserver_fetchScopesByIdentifierForElement ::
    "nat \<Rightarrow> scope_observer \<Rightarrow> scope_observer \<times> (string \<times> scope) list" where
  "ScopeObserver_fetchScopesByIdentifierForElement e s =
     (case Map_get (scopesByIdentifierByElement s) e of
        Some scopesByIdentifier \<Rightarrow> (s, scopesByIdentifier)
      | None \<Rightarrow> (s\<lparr>scopesByIdentifierByElement := Map_set e [] (scopesByIdentifierByElement s)\<rparr>, []))"

definition ScopeObserver_parseValueForToken ::
    "'d scope_delegate \<Rightarrow> document \<Rightarrow> token \<Rightarrow> scope_observer \<times> 'd \<Rightarrow>
       (scope_observer \<times> 'd) \<times> scope parse_result" where
  "ScopeObserver_parseValueForToken sdel doc t sd =
     (let (s, d) = sd; e = token_element t; ident = content t;
          (s, scopesByIdentifier) = ScopeObserver_fetchScopesByIdentifierForElement e s
      in case Map_get scopesByIdentifier ident of
           Some sc \<Rightarrow> ((s, d), Inr (Some sc))
         | None \<Rightarrow>
             (let sc = createScopeForElementAndIdentifier sdel e ident
              in ((s\<lparr>scopesByIdentifierByElement :=
                      Map_set e (Map_set ident sc scopesByIdentifier) (scopesByIdentifierByElement s)\<rparr>, d),
                  Inr (Some sc))))"

definition ScopeObserver_elementMatchedValue ::
    "'d scope_delegate \<Rightarrow> document \<Rightarrow> nat \<Rightarrow> scope \<Rightarrow> scope_observer \<times> 'd \<Rightarrow> scope_observer \<times> 'd" where
  "ScopeObserver_elementMatchedValue sdel doc e sc sd =
     (let (s, d) = sd;
          referenceCount = (case Map_get (scopeReferenceCounts s) sc of None \<Rightarrow> 0 | Some n \<Rightarrow> n) + 1;
          s = s\<lparr>scopeReferenceCounts := Map_set sc referenceCount (scopeReferenceCounts s)\<rparr>
      in if referenceCount = 1 then (s, scopeConnected sdel doc sc d) else (s, d))"

definition ScopeObserver_elementUnmatchedValue ::
    "'d scope_delegate \<Rightarrow> document \<Rightarrow> nat \<Rightarrow> scope \<Rightarrow> scope_observer \<times> 'd \<Rightarrow> scope_observer \<times> 'd" where
  "ScopeObserver_elementUnmatchedValue sdel doc e sc sd =
     (let (s, d) = sd
      in case Map_get (scopeReferenceCounts s) sc of
           None \<Rightarrow> (s, d)
         | Some referenceCount \<Rightarrow>
             (if referenceCount = 0 then (s, d)
              else
                (let s = s\<lparr>scopeReferenceCounts := Map_set sc (referenceCount - 1) (scopeReferenceCounts s)\<rparr>
                 in if referenceCount = 1 then (s, scopeDisconnected sdel doc sc d) else (s, d))))"

definition ScopeObserver_delegate :: "'d scope_delegate \<Rightarrow> (scope_observer \<times> 'd, scope) value_delegate" where
  "ScopeObserver_delegate sdel =
     \<lparr>parseValueForToken = ScopeObserver_parseValueForToken sdel,
      elementMatchedValue = ScopeObserver_elementMatchedValue sdel,
      elementUnmatchedValue = ScopeObserver_elementUnmatchedValue sdel\<rparr>"

type_synonym 'd scope_stack = "(scope_observer \<times> 'd, scope) value_stack"

definition ScopeObserver_start ::
    "schema \<Rightarrow> 'd scope_delegate \<Rightarrow> document \<Rightarrow> 'd scope_stack \<Rightarrow> 'd scope_stack" where
  "ScopeObserver_start sch sdel doc =
     ValueListObserver_start (controllerAttribute sch) (ScopeObserver_delegate sdel) doc"

definition ScopeObserver_stop :: "'d scope_stack \<Rightarrow> 'd scope_stack" where
  "ScopeObserver_stop = ValueListObserver_stop"

text \<open>The browser delivers mutation records to the observer's \<open>ElementObserver\<close>.\<close>

definition ScopeObserver_deliver ::
    "schema \<Rightarrow> 'd scope_delegate \<Rightarrow> document \<Rightarrow> mutation list \<Rightarrow> 'd scope_stack \<Rightarrow> 'd scope_stack" where
  "ScopeObserver_deliver sch sdel doc ms =
     ElementObserver_processMutations
       (value_element_delegate (controllerAttribute sch) (ScopeObserver_delegate sdel)) doc ms"

section \<open>Counting scopes\<close>

definition token_scope :: "token \<Rightarrow> scope" where
  "token_scope t = \<lparr>scope_element = token_element t, scope_identifier = content t\<rparr>"

definition scope_parsed :: "token \<Rightarrow> scope parse_result \<Rightarrow> bool" where
  "scope_parsed t r \<longleftrightarrow> r = Inr (Some (token_scope t))"

definition cached_scope :: "scope_observer \<Rightarrow> nat \<Rightarrow> string \<Rightarrow> scope option" where
  "cached_scope s e ident =
     (case Map_get (scopesByIdentifierByElement s) e of None \<Rightarrow> None | Some m \<Rightarrow> Map_get m ident)"

definition reference_count :: "scope_observer \<Rightarrow> scope \<Rightarrow> nat" where
  "reference_count s sc = (case Map_get (scopeReferenceCounts s) sc of None \<Rightarrow> 0 | Some n \<Rightarrow> n)"

text \<open>
  The count of a scope is the number of tokens that stand for it, and the delegate has the
  scopes that some token stands for.
\<close>

definition scopes_local :: "(token \<Rightarrow> scope option) \<Rightarrow> scope_observer \<Rightarrow> bool" where
  "scopes_local M s \<longleftrightarrow> finite (dom M) \<and>
     (\<forall>e ident sc. cached_scope s e ident = Some sc \<longrightarrow>
        sc = \<lparr>scope_element = e, scope_identifier = ident\<rparr>) \<and>
     (\<forall>sc. reference_count s sc = card {t. M t = Some sc})"

definition scopes_inv ::
    "(scope set \<Rightarrow> 'd \<Rightarrow> bool) \<Rightarrow> (token \<Rightarrow> scope option) \<Rightarrow> scope_observer \<times> 'd \<Rightarrow> bool" where
  "scopes_inv SInv M sd \<longleftrightarrow> scopes_local M (fst sd) \<and> SInv (ran M) (snd sd)"

text \<open>A cached scope is the one its element and identifier stand for.\<close>

definition cache_ok :: "scope_observer \<Rightarrow> bool" where
  "cache_ok s \<longleftrightarrow> (\<forall>e ident sc. cached_scope s e ident = Some sc \<longrightarrow>
     sc = \<lparr>scope_element = e, scope_identifier = ident\<rparr>)"

lemma parse_scope_cached:
  assumes create: "\<And>e ident. createScopeForElementAndIdentifier sdel e ident =
      \<lparr>scope_element = e, scope_identifier = ident\<rparr>"
    and cache: "cache_ok s"
  shows "\<exists>s'. ScopeObserver_parseValueForToken sdel doc t (s, d) = ((s', d), Inr (Some (token_scope t))) \<and>
     cache_ok s' \<and> scopeReferenceCounts s' = scopeReferenceCounts s"
proof -
  let ?e = "token_element t"
  define m where "m = (case Map_get (scopesByIdentifierByElement s) ?e of None \<Rightarrow> [] | Some m \<Rightarrow> m)"
  obtain s1 where f: "ScopeObserver_fetchScopesByIdentifierForElement ?e s = (s1, m)"
    and s1: "\<And>e ident. cached_scope s1 e ident = cached_scope s e ident"
      "scopeReferenceCounts s1 = scopeReferenceCounts s"
    by (cases "Map_get (scopesByIdentifierByElement s) ?e")
      (simp_all add: ScopeObserver_fetchScopesByIdentifierForElement_def m_def cached_scope_def)
  have at: "cached_scope s ?e ident = Map_get m ident" for ident
    by (simp add: cached_scope_def m_def split: option.split)
  show ?thesis
  proof (cases "Map_get m (content t)")
    case (Some sc)
    then have "cached_scope s ?e (content t) = Some sc" by (simp add: at)
    with cache have "sc = token_scope t" by (simp add: cache_ok_def token_scope_def)
    with Some f s1 cache show ?thesis
      by (intro exI [of _ s1]) (simp add: ScopeObserver_parseValueForToken_def cache_ok_def)
  next
    case None
    let ?s = "s1\<lparr>scopesByIdentifierByElement := Map_set ?e (Map_set (content t) (token_scope t) m)
        (scopesByIdentifierByElement s1)\<rparr>"
    have "cached_scope ?s e ident =
        (if e = ?e \<and> ident = content t then Some (token_scope t) else cached_scope s e ident)" for e ident
      using s1(1) [of e ident] at by (simp add: cached_scope_def)
    with s1 None f cache show ?thesis
      by (intro exI [of _ ?s])
        (simp add: ScopeObserver_parseValueForToken_def create token_scope_def cache_ok_def Let_def)
  qed
qed

text \<open>The router's side: it makes the scopes, and hears of each one once.\<close>

locale scope_client =
  fixes sdel :: "'d scope_delegate" and doc :: document and SInv :: "scope set \<Rightarrow> 'd \<Rightarrow> bool"
  assumes create: "createScopeForElementAndIdentifier sdel e ident =
      \<lparr>scope_element = e, scope_identifier = ident\<rparr>"
    and connected_scope: "SInv S d \<Longrightarrow> sc \<notin> S \<Longrightarrow> SInv (insert sc S) (scopeConnected sdel doc sc d)"
    and disconnected_scope: "SInv S d \<Longrightarrow> sc \<in> S \<Longrightarrow> SInv (S - {sc}) (scopeDisconnected sdel doc sc d)"
begin

lemma parse_scope:
  assumes "scopes_inv SInv M sd"
  shows "\<exists>s'. ScopeObserver_parseValueForToken sdel doc t sd = ((s', snd sd), Inr (Some (token_scope t))) \<and>
     scopes_inv SInv M (s', snd sd)"
proof -
  have "cache_ok (fst sd)" using assms by (simp add: scopes_inv_def scopes_local_def cache_ok_def)
  from parse_scope_cached [OF create this, of doc t "snd sd"] show ?thesis
    using assms by (auto simp: scopes_inv_def scopes_local_def cache_ok_def reference_count_def)
qed

end

lemma finite_scope_tokens: "finite (dom M) \<Longrightarrow> finite {t. M t = Some sc}"
  by (rule finite_subset [of _ "dom M"]) auto

sublocale scope_client \<subseteq> scope_values: value_client "ScopeObserver_delegate sdel" doc scope_parsed "scopes_inv SInv"
proof
  fix M t v and sd :: "scope_observer \<times> 'd"
  assume inv: "scopes_inv SInv M sd"
  obtain s d where sd: "sd = (s, d)" by (cases sd)
  have fin: "finite (dom M)" and count: "\<And>sc. reference_count s sc = card {t. M t = Some sc}"
    and S: "SInv (ran M) d" and cache: "\<And>e ident sc. cached_scope s e ident = Some sc \<Longrightarrow>
        sc = \<lparr>scope_element = e, scope_identifier = ident\<rparr>"
    using inv by (simp_all add: sd scopes_inv_def scopes_local_def)
  show "scopes_inv SInv M (fst (parseValueForToken (ScopeObserver_delegate sdel) doc t sd)) \<and>
      scope_parsed t (snd (parseValueForToken (ScopeObserver_delegate sdel) doc t sd))"
    using parse_scope [OF inv, of t] by (auto simp: ScopeObserver_delegate_def scope_parsed_def)
  have zero: "reference_count s v = 0 \<longleftrightarrow> v \<notin> ran M"
    using finite_scope_tokens [OF fin, of v] by (auto simp: ran_def count)
  {
    assume new: "tid t \<notin> tid ` dom M"
    then have n: "M t = None" by (auto simp: image_iff)
    have set: "{t'. (M(t \<mapsto> v)) t' = Some sc} =
        (if sc = v then insert t {t'. M t' = Some v} else {t'. M t' = Some sc})" for sc
      using n by auto
    have card: "card {t'. (M(t \<mapsto> v)) t' = Some sc} =
        (if sc = v then reference_count s v + 1 else reference_count s sc)" for sc
      unfolding set using n finite_scope_tokens [OF fin, of v] by (simp add: count)
    have ran: "ran (M(t \<mapsto> v)) = insert v (ran M)" using n by simp
    let ?s = "s\<lparr>scopeReferenceCounts := Map_set v (reference_count s v + 1) (scopeReferenceCounts s)\<rparr>"
    have "scopes_local (M(t \<mapsto> v)) ?s"
      using fin cache unfolding scopes_local_def card
      by (simp add: reference_count_def cached_scope_def)
    moreover have "SInv (insert v (ran M)) (if reference_count s v + 1 = 1 then scopeConnected sdel doc v d else d)"
      using S connected_scope [OF S, of v] zero
      by (cases "v \<in> ran M") (auto simp: insert_absorb)
    ultimately show "scopes_inv SInv (M(t \<mapsto> v))
        (elementMatchedValue (ScopeObserver_delegate sdel) doc (token_element t) v sd)"
      by (simp add: ScopeObserver_delegate_def ScopeObserver_elementMatchedValue_def sd Let_def
          scopes_inv_def ran reference_count_def [symmetric] split: if_splits)
  }
  assume M: "M t = Some v"
  have set: "{t'. (M(t := None)) t' = Some sc} =
      (if sc = v then {t'. M t' = Some v} - {t} else {t'. M t' = Some sc})" for sc
    using M by auto
  have card: "card {t'. (M(t := None)) t' = Some sc} =
      (if sc = v then reference_count s v - 1 else reference_count s sc)" for sc
    unfolding set using M finite_scope_tokens [OF fin, of v] by (simp add: count)
  have pos: "0 < reference_count s v"
    using M finite_scope_tokens [OF fin, of v] by (auto simp: count card_gt_0_iff)
  then obtain n where n: "Map_get (scopeReferenceCounts s) v = Some n" "reference_count s v = n" "0 < n"
    by (auto simp: reference_count_def split: option.splits)
  have ran: "ran (M(t := None)) = (if n = 1 then ran M - {v} else ran M)"
  proof -
    have "v \<in> ran (M(t := None)) \<longleftrightarrow> card {t'. (M(t := None)) t' = Some v} \<noteq> 0"
      using finite_scope_tokens [of "M(t := None)" v] fin by (auto simp: ran_def)
    then have "v \<in> ran (M(t := None)) \<longleftrightarrow> n \<noteq> 1" using card [of v] n by auto
    moreover have "sc \<in> ran (M(t := None)) \<longleftrightarrow> sc \<in> ran M" if "sc \<noteq> v" for sc
    proof
      assume "sc \<in> ran M"
      then obtain t' where "M t' = Some sc" by (auto simp: ran_def)
      with that M show "sc \<in> ran (M(t := None))" by (intro ranI [of _ t']) auto
    qed (auto simp: ran_def split: if_splits)
    moreover have "v \<in> ran M" using M by (auto intro: ranI)
    ultimately have "x \<in> ran (M(t := None)) \<longleftrightarrow> x \<in> (if n = 1 then ran M - {v} else ran M)" for x
      by (cases "x = v") auto
    then show ?thesis by blast
  qed
  let ?s = "s\<lparr>scopeReferenceCounts := Map_set v (n - 1) (scopeReferenceCounts s)\<rparr>"
  have "scopes_local (M(t := None)) ?s"
    using fin cache n unfolding scopes_local_def card
    by (auto simp: reference_count_def cached_scope_def)
  moreover have "SInv (ran (M(t := None))) (if n = 1 then scopeDisconnected sdel doc v d else d)"
    using S disconnected_scope [OF S] M unfolding ran by (auto intro: ranI)
  ultimately show "scopes_inv SInv (M(t := None))
      (elementUnmatchedValue (ScopeObserver_delegate sdel) doc (token_element t) v sd)"
    using n by (cases "n = 1") (simp_all add: ScopeObserver_delegate_def
        ScopeObserver_elementUnmatchedValue_def sd Let_def scopes_inv_def)
qed

end
