(* ===== verification/Action.thy ===== *)
theory Action
  imports TokenListObserver Json
begin

text \<open>
  Action descriptors of \<^verbatim>\<open>src/gui/web/assets/scripts/stimulus.js\<close> (lines 148-243): the
  regular expression \<open>descriptorPattern\<close>, \<open>parseActionDescriptorString\<close>,
  \<open>parseEventOptions\<close>, the default event names and the constructor of \<open>Action\<close>.
\<close>

section \<open>Matching with backtracking\<close>

text \<open>
  A matcher tries its continuation on what is left of the string, and the next alternative when
  that fails. \<open>lazy_plus p\<close> is \<^verbatim>\<open>p+?\<close>, \<open>greedy_plus p\<close> is \<^verbatim>\<open>p+\<close>; both pass on what they
  matched.
\<close>

fun lazy_plus :: "(char \<Rightarrow> bool) \<Rightarrow> string \<Rightarrow> string \<Rightarrow> (string \<Rightarrow> string \<Rightarrow> 'r option) \<Rightarrow> 'r option" where
  "lazy_plus p acc [] k = None"
| "lazy_plus p acc (c # cs) k =
     (if p c then
        (case k (acc @ [c]) cs of
           Some r \<Rightarrow> Some r
         | None \<Rightarrow> lazy_plus p (acc @ [c]) cs k)
      else None)"

fun greedy_plus :: "(char \<Rightarrow> bool) \<Rightarrow> string \<Rightarrow> string \<Rightarrow> (string \<Rightarrow> string \<Rightarrow> 'r option) \<Rightarrow> 'r option" where
  "greedy_plus p acc [] k = None"
| "greedy_plus p acc (c # cs) k =
     (if p c then
        (case greedy_plus p (acc @ [c]) cs k of
           Some r \<Rightarrow> Some r
         | None \<Rightarrow> k (acc @ [c]) cs)
      else None)"

fun literal :: "string \<Rightarrow> string \<Rightarrow> (string \<Rightarrow> 'r option) \<Rightarrow> 'r option" where
  "literal [] s k = k s"
| "literal (c # cs) [] k = None"
| "literal (c # cs) (d # ds) k = (if c = d then literal cs ds k else None)"

fun or_else :: "'r option \<Rightarrow> 'r option \<Rightarrow> 'r option" where
  "or_else None r = r"
| "or_else (Some x) r = Some x"

section \<open>The pattern of a descriptor\<close>

text \<open>The groups 4, 2, 9, 5 and 7 of the match.\<close>

record groups =
  g_target :: "string option"
  g_event :: "string option"
  g_options :: "string option"
  g_identifier :: string
  g_method :: string

text \<open>\<^verbatim>\<open>(.+?)(#([^:]+?))(:(.+))?$\<close>\<close>

definition match_tail :: "string option \<Rightarrow> string option \<Rightarrow> string \<Rightarrow> groups option" where
  "match_tail target event s =
     lazy_plus is_dot [] s (\<lambda>ident s1.
       literal ''#'' s1 (\<lambda>s2.
         lazy_plus (\<lambda>c. c \<noteq> CHR '':'') [] s2 (\<lambda>meth s3.
           or_else
             (literal '':'' s3 (\<lambda>s4.
               greedy_plus is_dot [] s4 (\<lambda>opts s5.
                 if s5 = [] then
                   Some \<lparr>g_target = target, g_event = event, g_options = Some opts,
                         g_identifier = ident, g_method = meth\<rparr>
                 else None)))
             (if s3 = [] then
                Some \<lparr>g_target = target, g_event = event, g_options = None,
                      g_identifier = ident, g_method = meth\<rparr>
              else None))))"

text \<open>\<^verbatim>\<open>^((.+?)(@(window|document))?->)?\<close> and the rest.\<close>

definition match_arrow :: "string \<Rightarrow> string \<Rightarrow> groups option" where
  "match_arrow event s1 =
     or_else (literal ''@window'' s1 (\<lambda>s2. literal ''->'' s2 (match_tail (Some ''window'') (Some event))))
    (or_else (literal ''@document'' s1 (\<lambda>s2. literal ''->'' s2 (match_tail (Some ''document'') (Some event))))
             (literal ''->'' s1 (match_tail None (Some event))))"

definition match_descriptor :: "string \<Rightarrow> groups option" where
  "match_descriptor s = or_else (lazy_plus is_dot [] s match_arrow) (match_tail None None s)"

section \<open>Descriptors\<close>

datatype event_target = Window | Document | Element_target nat

record descriptor =
  d_eventTarget :: "event_target option"
  d_eventName :: "string option"
  d_eventOptions :: "(string \<times> bool) list"
  d_identifier :: "string option"
  d_methodName :: "string option"

definition parseEventTarget :: "string option \<Rightarrow> event_target option" where
  "parseEventTarget eventTargetName =
     (if eventTargetName = Some ''window'' then Some Window
      else if eventTargetName = Some ''document'' then Some Document
      else None)"

definition parseEventOptions :: "string \<Rightarrow> (string \<times> bool) list" where
  "parseEventOptions eventOptions =
     fold (\<lambda>token options.
         (case token of
            c # cs \<Rightarrow> (if c = CHR ''!'' then set_prop cs False options else set_prop token True options)
          | [] \<Rightarrow> set_prop [] True options))
       (split_on (CHR '':'') eventOptions) []"

definition parseActionDescriptorString :: "string \<Rightarrow> descriptor" where
  "parseActionDescriptorString descriptorString =
     (let source = trim descriptorString
      in case match_descriptor source of
           None \<Rightarrow> \<lparr>d_eventTarget = None, d_eventName = None, d_eventOptions = [],
                    d_identifier = None, d_methodName = None\<rparr>
         | Some m \<Rightarrow>
             \<lparr>d_eventTarget = parseEventTarget (g_target m),
              d_eventName = g_event m,
              d_eventOptions = (case g_options m of None \<Rightarrow> [] | Some opts \<Rightarrow> parseEventOptions opts),
              d_identifier = Some (g_identifier m),
              d_methodName = Some (g_method m)\<rparr>)"

section \<open>The class Action\<close>

text \<open>An action is an object; \<open>aid\<close> is its identity, that of the token it was made for.\<close>

record action =
  aid :: nat
  action_element :: nat
  action_index :: nat
  eventTarget :: event_target
  eventName :: string
  eventOptions :: "(string \<times> bool) list"
  action_identifier :: string
  methodName :: string

text \<open>
  The test \<open>tagName in defaultEventNames\<close> is also true for the inherited property
  \<open>constructor\<close>, the only one in lower case that can be a tag name: for such an element the
  function \<open>Object\<close> returns the element, which ends up as a string wherever an event name is used.
\<close>

definition getDefaultEventNameForElement :: "document \<Rightarrow> nat \<Rightarrow> string option" where
  "getDefaultEventNameForElement doc e =
     (let tag = asciiLower (tagName doc e)
      in if tag = ''a'' then Some ''click''
         else if tag = ''button'' then Some ''click''
         else if tag = ''form'' then Some ''submit''
         else if tag = ''input'' then
           Some (if getAttribute doc e ''type'' = Some ''submit'' then ''click'' else ''input'')
         else if tag = ''select'' then Some ''change''
         else if tag = ''textarea'' then Some ''input''
         else if tag = ''constructor'' then Some ''[object HTMLUnknownElement]''
         else None)"

text \<open>The operator \<^verbatim>\<open>||\<close> on a string that may be missing: the empty string is false as well.\<close>

definition truthy :: "string option \<Rightarrow> string option" where
  "truthy s = (if s = Some [] then None else s)"

definition Action_new :: "document \<Rightarrow> nat \<Rightarrow> nat \<Rightarrow> nat \<Rightarrow> descriptor \<Rightarrow> string + action" where
  "Action_new doc fresh e i d =
     (let target = (case d_eventTarget d of None \<Rightarrow> Element_target e | Some t \<Rightarrow> t)
      in case or_else (truthy (d_eventName d)) (getDefaultEventNameForElement doc e) of
           None \<Rightarrow> Inl ''missing event name''
         | Some name \<Rightarrow>
             (case truthy (d_identifier d) of
                None \<Rightarrow> Inl ''missing identifier''
              | Some ident \<Rightarrow>
                  (case truthy (d_methodName d) of
                     None \<Rightarrow> Inl ''missing method name''
                   | Some meth \<Rightarrow>
                       Inr \<lparr>aid = fresh, action_element = e, action_index = i, eventTarget = target,
                            eventName = name, eventOptions = d_eventOptions d,
                            action_identifier = ident, methodName = meth\<rparr>)))"

definition Action_forToken :: "document \<Rightarrow> token \<Rightarrow> string + action" where
  "Action_forToken doc t =
     Action_new doc (tid t) (token_element t) (index t) (parseActionDescriptorString (content t))"

definition stringifyEventTarget :: "event_target \<Rightarrow> string option" where
  "stringifyEventTarget t =
     (case t of Window \<Rightarrow> Some ''window'' | Document \<Rightarrow> Some ''document'' | Element_target e \<Rightarrow> None)"

definition Action_toString :: "action \<Rightarrow> string" where
  "Action_toString a =
     (let eventNameSuffix =
            (case stringifyEventTarget (eventTarget a) of None \<Rightarrow> [] | Some t \<Rightarrow> ''@'' @ t)
      in eventName a @ eventNameSuffix @ ''->'' @ action_identifier a @ ''#'' @ methodName a)"

section \<open>Matching a string in the canonical form\<close>

lemma lazy_plus_skip:
  assumes "\<forall>c\<in>set s. p c" "s \<noteq> []"
    and "\<And>s1 s2. s = s1 @ s2 \<Longrightarrow> s1 \<noteq> [] \<Longrightarrow> s2 \<noteq> [] \<Longrightarrow> k (acc @ s1) (s2 @ rest) = None"
    and "k (acc @ s) rest = Some r"
  shows "lazy_plus p acc (s @ rest) k = Some r"
  using assms
proof (induction s arbitrary: acc)
  case (Cons c s)
  show ?case
  proof (cases "s = []")
    case True
    with Cons.prems show ?thesis by simp
  next
    case False
    have "k (acc @ [c]) (s @ rest) = None" using Cons.prems(3) [of "[c]" s] False by simp
    moreover have "lazy_plus p (acc @ [c]) (s @ rest) k = Some r"
      by (rule Cons.IH) (use Cons.prems False Cons.prems(3) [of "c # _"] in auto)
    ultimately show ?thesis using Cons.prems(1) by simp
  qed
qed simp

lemma lazy_plus_None:
  assumes "\<And>s1 s2. s = s1 @ s2 \<Longrightarrow> s1 \<noteq> [] \<Longrightarrow> k (acc @ s1) s2 = None"
  shows "lazy_plus p acc s k = None"
  using assms
proof (induction s arbitrary: acc)
  case (Cons c s)
  have "k (acc @ [c]) s = None" using Cons.prems [of "[c]" s] by simp
  moreover have "lazy_plus p (acc @ [c]) s k = None"
    by (rule Cons.IH) (use Cons.prems [of "c # _"] in auto)
  ultimately show ?case by simp
qed simp

lemma greedy_plus_all:
  assumes "\<forall>c\<in>set s. p c" "s \<noteq> []" "k (acc @ s) [] = Some r"
  shows "greedy_plus p acc s k = Some r"
  using assms
proof (induction s arbitrary: acc)
  case (Cons c s)
  show ?case
  proof (cases "s = []")
    case False
    then have "greedy_plus p (acc @ [c]) s k = Some r" using Cons by simp
    with Cons.prems show ?thesis by simp
  qed (use Cons.prems in simp)
qed simp

lemma literal_append [simp]: "literal w (w @ s) k = k s"
  by (induction w) auto

lemma literal_Some: "literal w s k = Some r \<Longrightarrow> \<exists>s'. s = w @ s' \<and> k s' = Some r"
  by (induction w s k rule: literal.induct) (auto split: if_splits)

lemma literal_None: "(\<And>s'. s = w @ s' \<Longrightarrow> k s' = None) \<Longrightarrow> literal w s k = None"
  by (cases "literal w s k") (auto dest!: literal_Some)

lemma or_else_None_iff [simp]: "or_else a b = None \<longleftrightarrow> a = None \<and> b = None"
  by (cases a) auto

text \<open>The parts of a descriptor as they may be written so that they can be read back.\<close>

definition event_like :: "string \<Rightarrow> bool" where
  "event_like s \<longleftrightarrow> s \<noteq> [] \<and> (\<forall>c\<in>set s. is_dot c \<and> c \<noteq> CHR ''@'' \<and> c \<noteq> CHR ''>'' \<and> \<not> is_space c)"

definition identifier_like :: "string \<Rightarrow> bool" where
  "identifier_like s \<longleftrightarrow> s \<noteq> [] \<and> (\<forall>c\<in>set s. is_dot c \<and> c \<noteq> CHR ''#'' \<and> c \<noteq> CHR ''>'' \<and> \<not> is_space c)"

definition method_like :: "string \<Rightarrow> bool" where
  "method_like s \<longleftrightarrow> s \<noteq> [] \<and> (\<forall>c\<in>set s. c \<noteq> CHR '':'' \<and> c \<noteq> CHR ''>'' \<and> \<not> is_space c)"

definition options_like :: "string option \<Rightarrow> bool" where
  "options_like opts \<longleftrightarrow> (case opts of None \<Rightarrow> True
     | Some s \<Rightarrow> s \<noteq> [] \<and> (\<forall>c\<in>set s. is_dot c \<and> c \<noteq> CHR ''>'' \<and> \<not> is_space c))"

definition options_suffix :: "string option \<Rightarrow> string" where
  "options_suffix opts = (case opts of None \<Rightarrow> [] | Some s \<Rightarrow> '':'' @ s)"

lemma match_tail_canonical:
  assumes ident: "identifier_like ident" and meth: "method_like meth" and opts: "options_like opts"
  shows "match_tail target event (ident @ ''#'' @ meth @ options_suffix opts) =
     Some \<lparr>g_target = target, g_event = event, g_options = opts, g_identifier = ident, g_method = meth\<rparr>"
  (is "_ = Some ?r")
  unfolding match_tail_def
proof (rule lazy_plus_skip)
  show "\<forall>c\<in>set ident. is_dot c" "ident \<noteq> []" using ident by (auto simp: identifier_like_def)
next
  fix s1 s2 assume "ident = s1 @ s2" "s1 \<noteq> []" "s2 \<noteq> []"
  then have "hd s2 \<noteq> CHR ''#''" using ident by (cases s2) (auto simp: identifier_like_def)
  with \<open>s2 \<noteq> []\<close> show "literal ''#'' (s2 @ ''#'' @ meth @ options_suffix opts) k = None" for k :: "string \<Rightarrow> groups option"
    by (cases s2) auto
next
  show "literal ''#'' (''#'' @ meth @ options_suffix opts) (\<lambda>s2.
      lazy_plus (\<lambda>c. c \<noteq> CHR '':'') [] s2 (\<lambda>meth s3.
        or_else
          (literal '':'' s3 (\<lambda>s4. greedy_plus is_dot [] s4 (\<lambda>opts s5.
             if s5 = [] then Some \<lparr>g_target = target, g_event = event, g_options = Some opts,
               g_identifier = [] @ ident, g_method = meth\<rparr> else None)))
          (if s3 = [] then Some \<lparr>g_target = target, g_event = event, g_options = None,
             g_identifier = [] @ ident, g_method = meth\<rparr> else None))) = Some ?r"
    unfolding literal_append
  proof (rule lazy_plus_skip)
    show "\<forall>c\<in>set meth. c \<noteq> CHR '':''" "meth \<noteq> []" using meth by (auto simp: method_like_def)
  next
    fix s1 s2 assume s: "meth = s1 @ s2" "s1 \<noteq> []" "s2 \<noteq> []"
    then have "hd s2 \<noteq> CHR '':''" using meth by (cases s2) (auto simp: method_like_def)
    with \<open>s2 \<noteq> []\<close> have "literal '':'' (s2 @ options_suffix opts) k = None" for k :: "string \<Rightarrow> groups option"
      by (cases s2) auto
    with \<open>s2 \<noteq> []\<close> show "or_else
          (literal '':'' (s2 @ options_suffix opts) (\<lambda>s4. greedy_plus is_dot [] s4 (\<lambda>opts s5.
             if s5 = [] then Some \<lparr>g_target = target, g_event = event, g_options = Some opts,
               g_identifier = [] @ ident, g_method = [] @ s1\<rparr> else None)))
          (if s2 @ options_suffix opts = [] then Some \<lparr>g_target = target, g_event = event, g_options = None,
             g_identifier = [] @ ident, g_method = [] @ s1\<rparr> else None) = None"
      by simp
  next
    show "or_else
          (literal '':'' (options_suffix opts) (\<lambda>s4. greedy_plus is_dot [] s4 (\<lambda>opts s5.
             if s5 = [] then Some \<lparr>g_target = target, g_event = event, g_options = Some opts,
               g_identifier = [] @ ident, g_method = [] @ meth\<rparr> else None)))
          (if options_suffix opts = [] then Some \<lparr>g_target = target, g_event = event, g_options = None,
             g_identifier = [] @ ident, g_method = [] @ meth\<rparr> else None) = Some ?r"
    proof (cases opts)
      case None
      then show ?thesis by (simp add: options_suffix_def)
    next
      case (Some os)
      with opts have "greedy_plus is_dot [] os (\<lambda>opts s5.
             if s5 = [] then Some \<lparr>g_target = target, g_event = event, g_options = Some opts,
               g_identifier = [] @ ident, g_method = [] @ meth\<rparr> else None) = Some ?r"
        by (intro greedy_plus_all) (auto simp: options_like_def)
      with Some show ?thesis by (simp add: options_suffix_def)
    qed
  qed
qed


lemma literal_arrow_None: "(\<forall>c\<in>set s. c \<noteq> CHR ''>'') \<Longrightarrow> literal ''->'' s k = None"
  by (rule literal_None) auto

lemma match_arrow_None: "CHR ''>'' \<notin> set s \<Longrightarrow> match_arrow event s = None"
proof -
  assume no: "CHR ''>'' \<notin> set s"
  then show ?thesis
    unfolding match_arrow_def or_else_None_iff by (intro conjI literal_None) auto
qed

text \<open>Without an arrow there is no event name.\<close>

lemma match_descriptor_no_event:
  assumes "identifier_like ident" "method_like meth" "options_like opts"
  shows "match_descriptor (ident @ ''#'' @ meth @ options_suffix opts) =
     Some \<lparr>g_target = None, g_event = None, g_options = opts, g_identifier = ident, g_method = meth\<rparr>"
proof -
  have "CHR ''>'' \<notin> set ident" using assms(1) unfolding identifier_like_def by blast
  moreover have "CHR ''>'' \<notin> set meth" using assms(2) unfolding method_like_def by blast
  moreover have "CHR ''>'' \<notin> set (options_suffix opts)"
    using assms(3) by (cases opts) (auto simp: options_like_def options_suffix_def)
  ultimately have no: "CHR ''>'' \<notin> set (ident @ ''#'' @ meth @ options_suffix opts)" by simp
  then have "lazy_plus is_dot [] (ident @ ''#'' @ meth @ options_suffix opts) match_arrow = None"
    by (intro lazy_plus_None match_arrow_None) (metis Un_iff set_append)
  then show ?thesis
    unfolding match_descriptor_def by (simp only: or_else.simps match_tail_canonical [OF assms])
qed

definition target_suffix :: "string option \<Rightarrow> string" where
  "target_suffix target = (case target of None \<Rightarrow> [] | Some t \<Rightarrow> ''@'' @ t)"

definition target_like :: "string option \<Rightarrow> bool" where
  "target_like target \<longleftrightarrow> target \<in> {None, Some ''window'', Some ''document''}"

lemma match_descriptor_event:
  assumes e: "event_like event" and t: "target_like target"
    and tail: "identifier_like ident" "method_like meth" "options_like opts"
  shows "match_descriptor (event @ target_suffix target @ ''->'' @ ident @ ''#'' @ meth @ options_suffix opts) =
     Some \<lparr>g_target = target, g_event = Some event, g_options = opts, g_identifier = ident, g_method = meth\<rparr>"
    (is "match_descriptor (event @ ?rest) = Some ?r")
proof -
  let ?tail = "ident @ ''#'' @ meth @ options_suffix opts"
  have "lazy_plus is_dot [] (event @ ?rest) match_arrow = Some ?r"
  proof (rule lazy_plus_skip)
    fix s1 s2 assume s: "event = s1 @ s2" "s1 \<noteq> []" "s2 \<noteq> []"
    then obtain c s3 where s2: "s2 = c # s3" by (cases s2) auto
    have c: "c \<noteq> CHR ''@''" "CHR ''>'' \<notin> set s2" using e s s2 by (auto simp: event_like_def)
    have "s2 @ ?rest \<noteq> ''->'' @ s'" for s'
    proof (cases s3)
      case Nil
      then show ?thesis using t s2 by (auto simp: target_like_def target_suffix_def)
    next
      case (Cons d s4)
      then show ?thesis using c(2) s2 by auto
    qed
    then have a: "literal ''->'' (s2 @ ?rest) k = None" for k :: "string \<Rightarrow> groups option"
      by (intro literal_None) blast
    have "s2 @ ?rest \<noteq> ''@window'' @ s'" "s2 @ ?rest \<noteq> ''@document'' @ s'" for s'
      using c(1) s2 by auto
    then have "literal ''@window'' (s2 @ ?rest) k = None" "literal ''@document'' (s2 @ ?rest) k = None"
      for k :: "string \<Rightarrow> groups option"
      by (intro literal_None; blast)+
    with a show "match_arrow ([] @ s1) (s2 @ ?rest) = None"
      unfolding match_arrow_def by (simp only: or_else.simps)
  next
    have m: "match_tail tg ev ?tail = Some \<lparr>g_target = tg, g_event = ev, g_options = opts,
        g_identifier = ident, g_method = meth\<rparr>" for tg ev
      by (rule match_tail_canonical [OF tail])
    have x: "literal ''@window'' (''->'' @ s) k = None" "literal ''@document'' (''->'' @ s) k = None"
      "literal ''@window'' (''@document'' @ s) k = None" "literal ''->'' (''@'' @ s) k = None"
      for s and k :: "string \<Rightarrow> groups option" by simp_all
    from t consider "target = None" | "target = Some ''window''" | "target = Some ''document''"
      by (auto simp: target_like_def)
    then show "match_arrow ([] @ event) ?rest = Some ?r"
    proof cases
      case 1
      then show ?thesis by (simp only: match_arrow_def target_suffix_def option.case append_Nil x or_else.simps literal_append m)
    next
      case 2
      have "?rest = ''@window'' @ ''->'' @ ?tail" using 2 by (simp add: target_suffix_def)
      then show ?thesis using 2 by (simp only: match_arrow_def append_Nil or_else.simps literal_append m)
    next
      case 3
      have "?rest = ''@document'' @ ''->'' @ ?tail" using 3 by (simp add: target_suffix_def)
      then show ?thesis using 3 by (simp only: match_arrow_def append_Nil x or_else.simps literal_append m)
    qed
  qed (use e in \<open>auto simp: event_like_def\<close>)
  then show ?thesis unfolding match_descriptor_def by (simp only: or_else.simps)
qed

lemma parts_no_space:
  "event_like s \<Longrightarrow> \<forall>c\<in>set s. \<not> is_space c" "identifier_like s \<Longrightarrow> \<forall>c\<in>set s. \<not> is_space c"
  "method_like s \<Longrightarrow> \<forall>c\<in>set s. \<not> is_space c"
  "options_like opts \<Longrightarrow> \<forall>c\<in>set (options_suffix opts). \<not> is_space c"
  "target_like target \<Longrightarrow> \<forall>c\<in>set (target_suffix target). \<not> is_space c"
  by (auto simp: event_like_def identifier_like_def method_like_def options_like_def options_suffix_def
      target_like_def target_suffix_def is_space_def split: option.splits)

definition options_of :: "string option \<Rightarrow> (string \<times> bool) list" where
  "options_of opts = (case opts of None \<Rightarrow> [] | Some s \<Rightarrow> parseEventOptions s)"

section \<open>What the pattern matches\<close>

lemma lazy_plus_Some:
  "lazy_plus p acc s k = Some r \<Longrightarrow>
     \<exists>s1 s2. s = s1 @ s2 \<and> s1 \<noteq> [] \<and> (\<forall>c\<in>set s1. p c) \<and> k (acc @ s1) s2 = Some r"
proof (induction s arbitrary: acc)
  case (Cons c s)
  then have p: "p c" by (auto split: if_splits)
  show ?case
  proof (cases "k (acc @ [c]) s")
    case None
    with Cons.prems p have "lazy_plus p (acc @ [c]) s k = Some r" by simp
    from Cons.IH [OF this] obtain s1 s2 where "s = s1 @ s2" "s1 \<noteq> []" "\<forall>c\<in>set s1. p c"
      "k (acc @ (c # s1)) s2 = Some r" by auto
    with p show ?thesis by (intro exI [of _ "c # s1"] exI [of _ s2]) simp
  next
    case (Some x)
    with Cons.prems p show ?thesis by (intro exI [of _ "[c]"] exI [of _ s]) simp
  qed
qed simp

lemma greedy_plus_Some:
  "greedy_plus p acc s k = Some r \<Longrightarrow>
     \<exists>s1 s2. s = s1 @ s2 \<and> s1 \<noteq> [] \<and> (\<forall>c\<in>set s1. p c) \<and> k (acc @ s1) s2 = Some r"
proof (induction s arbitrary: acc)
  case (Cons c s)
  then have p: "p c" by (auto split: if_splits)
  show ?case
  proof (cases "greedy_plus p (acc @ [c]) s k")
    case None
    with Cons.prems p show ?thesis by (intro exI [of _ "[c]"] exI [of _ s]) simp
  next
    case (Some x)
    with Cons.prems p have "greedy_plus p (acc @ [c]) s k = Some r" by simp
    from Cons.IH [OF this] obtain s1 s2 where "s = s1 @ s2" "s1 \<noteq> []" "\<forall>c\<in>set s1. p c"
      "k (acc @ (c # s1)) s2 = Some r" by auto
    with p show ?thesis by (intro exI [of _ "c # s1"] exI [of _ s2]) simp
  qed
qed simp

lemma or_else_Some: "or_else a b = Some r \<Longrightarrow> a = Some r \<or> b = Some r"
  by (cases a) auto

text \<open>The text that stands for the groups of a match.\<close>

definition groups_text :: "groups \<Rightarrow> string" where
  "groups_text g = (case g_event g of None \<Rightarrow> [] | Some ev \<Rightarrow> ev @ target_suffix (g_target g) @ ''->'') @
     g_identifier g @ ''#'' @ g_method g @ options_suffix (g_options g)"

definition groups_ok :: "groups \<Rightarrow> bool" where
  "groups_ok g \<longleftrightarrow> g_identifier g \<noteq> [] \<and> g_method g \<noteq> [] \<and> CHR '':'' \<notin> set (g_method g) \<and>
     g_event g \<noteq> Some [] \<and> g_options g \<noteq> Some [] \<and> target_like (g_target g)"

lemma match_tail_sound:
  assumes "match_tail target event s = Some g"
  shows "s = g_identifier g @ ''#'' @ g_method g @ options_suffix (g_options g) \<and> g_target g = target \<and>
    g_event g = event \<and> g_identifier g \<noteq> [] \<and> g_method g \<noteq> [] \<and> CHR '':'' \<notin> set (g_method g) \<and>
    g_options g \<noteq> Some []"
proof -
  obtain ident s1 where s: "s = ident @ s1" "ident \<noteq> []"
    and 1: "literal ''#'' s1 (\<lambda>s2. lazy_plus (\<lambda>c. c \<noteq> CHR '':'') [] s2 (\<lambda>meth s3.
           or_else
             (literal '':'' s3 (\<lambda>s4. greedy_plus is_dot [] s4 (\<lambda>opts s5.
                 if s5 = [] then
                   Some \<lparr>g_target = target, g_event = event, g_options = Some opts,
                         g_identifier = ident, g_method = meth\<rparr>
                 else None)))
             (if s3 = [] then
                Some \<lparr>g_target = target, g_event = event, g_options = None,
                      g_identifier = ident, g_method = meth\<rparr>
              else None))) = Some g"
    using lazy_plus_Some [OF assms [unfolded match_tail_def]] unfolding append_Nil by blast
  from literal_Some [OF 1] obtain s2 where s1: "s1 = ''#'' @ s2" and 2: "lazy_plus (\<lambda>c. c \<noteq> CHR '':'') [] s2 (\<lambda>meth s3.
           or_else
             (literal '':'' s3 (\<lambda>s4. greedy_plus is_dot [] s4 (\<lambda>opts s5.
                 if s5 = [] then
                   Some \<lparr>g_target = target, g_event = event, g_options = Some opts,
                         g_identifier = ident, g_method = meth\<rparr>
                 else None)))
             (if s3 = [] then
                Some \<lparr>g_target = target, g_event = event, g_options = None,
                      g_identifier = ident, g_method = meth\<rparr>
              else None)) = Some g" by blast
  obtain meth s3 where s2: "s2 = meth @ s3" "meth \<noteq> []" "\<forall>c\<in>set meth. c \<noteq> CHR '':''"
    and 3: "or_else (literal '':'' s3 (\<lambda>s4. greedy_plus is_dot [] s4 (\<lambda>opts s5.
                 if s5 = [] then
                   Some \<lparr>g_target = target, g_event = event, g_options = Some opts,
                         g_identifier = ident, g_method = meth\<rparr>
                 else None)))
             (if s3 = [] then
                Some \<lparr>g_target = target, g_event = event, g_options = None,
                      g_identifier = ident, g_method = meth\<rparr>
              else None) = Some g"
    using lazy_plus_Some [OF 2] unfolding append_Nil by blast
  from s2(3) have no_colon: "CHR '':'' \<notin> set meth" by blast
  from or_else_Some [OF 3] show ?thesis
  proof
    assume "literal '':'' s3 (\<lambda>s4. greedy_plus is_dot [] s4 (\<lambda>opts s5.
                 if s5 = [] then
                   Some \<lparr>g_target = target, g_event = event, g_options = Some opts,
                         g_identifier = ident, g_method = meth\<rparr>
                 else None)) = Some g"
    from literal_Some [OF this] obtain s4 where "s3 = '':'' @ s4" "greedy_plus is_dot [] s4 (\<lambda>opts s5.
                 if s5 = [] then
                   Some \<lparr>g_target = target, g_event = event, g_options = Some opts,
                         g_identifier = ident, g_method = meth\<rparr>
                 else None) = Some g" by blast
    moreover from greedy_plus_Some [OF this(2)]
    have "g = \<lparr>g_target = target, g_event = event, g_options = Some s4, g_identifier = ident, g_method = meth\<rparr> \<and> s4 \<noteq> []"
      by (auto split: if_splits)
    ultimately show ?thesis using s s1 s2(1,2) no_colon by (simp add: options_suffix_def)
  next
    assume "(if s3 = [] then
                Some \<lparr>g_target = target, g_event = event, g_options = None,
                      g_identifier = ident, g_method = meth\<rparr>
              else None) = Some g"
    then have "s3 = []" "g = \<lparr>g_target = target, g_event = event, g_options = None, g_identifier = ident, g_method = meth\<rparr>"
      by (simp_all split: if_splits)
    then show ?thesis using s s1 s2(1,2) no_colon by (simp add: options_suffix_def)
  qed
qed

lemma match_arrow_sound:
  assumes "match_arrow event s = Some g"
  shows "\<exists>target tail. target_like target \<and> s = target_suffix target @ ''->'' @ tail \<and>
    match_tail target (Some event) tail = Some g"
proof -
  have *: "\<exists>target tail. target_like target \<and> s = target_suffix target @ ''->'' @ tail \<and>
      match_tail target (Some event) tail = Some g"
    if "target_like target" "literal (target_suffix target) s (\<lambda>s2. literal ''->'' s2 (match_tail target (Some event))) = Some g"
    for target
    using literal_Some [OF that(2)] that(1) by (auto dest!: literal_Some)
  from assms have "literal ''@window'' s (\<lambda>s2. literal ''->'' s2 (match_tail (Some ''window'') (Some event))) = Some g \<or>
      literal ''@document'' s (\<lambda>s2. literal ''->'' s2 (match_tail (Some ''document'') (Some event))) = Some g \<or>
      literal [] s (\<lambda>s2. literal ''->'' s2 (match_tail None (Some event))) = Some g"
    unfolding match_arrow_def literal.simps(1) by (blast dest: or_else_Some)
  moreover have "target_suffix (Some ''window'') = ''@window''" "target_suffix (Some ''document'') = ''@document''"
    "target_suffix None = []" by (simp_all add: target_suffix_def)
  ultimately show ?thesis
    using * [of "Some ''window''"] * [of "Some ''document''"] * [of None] by (auto simp: target_like_def)
qed

lemma match_descriptor_sound:
  assumes "match_descriptor s = Some g"
  shows "s = groups_text g \<and> groups_ok g"
proof -
  from assms consider "lazy_plus is_dot [] s match_arrow = Some g" | "match_tail None None s = Some g"
    unfolding match_descriptor_def by (blast dest: or_else_Some)
  then show ?thesis
  proof cases
    case 1
    from lazy_plus_Some [OF this] obtain event s2 where "s = event @ s2" "event \<noteq> []" "match_arrow event s2 = Some g"
      by auto
    with match_arrow_sound [OF this(3)] show ?thesis
      by (auto simp: groups_text_def groups_ok_def dest!: match_tail_sound)
  next
    case 2
    then show ?thesis
      using match_tail_sound [OF 2] by (auto simp: groups_text_def groups_ok_def target_like_def)
  qed
qed

end
