(* ===== verification/Dispatcher.thy ===== *)
theory Dispatcher
  imports Action Scope "HOL-Library.List_Lexorder" "HOL-Library.Char_ord"
begin

text \<open>
  The classes \<open>EventListener\<close>, \<open>Dispatcher\<close> and \<open>Binding\<close> of
  \<^verbatim>\<open>src/gui/web/assets/scripts/stimulus.js\<close> (lines 10-147 and 244-339): one listener per event
  target, event name and options, the bindings that share it, and the way an event reaches the
  methods of the controllers. The methods themselves are a parameter.
\<close>

section \<open>Bindings and listeners\<close>

record binding =
  binding_scope :: scope
  binding_action :: action

record event_listener =
  listener_target :: event_target
  listener_name :: string
  listener_options :: "(string \<times> bool) list"
  listener_connected :: bool
  unorderedBindings :: "binding list"

definition EventListener_new :: "event_target \<Rightarrow> string \<Rightarrow> (string \<times> bool) list \<Rightarrow> event_listener" where
  "EventListener_new target name opts =
     \<lparr>listener_target = target, listener_name = name, listener_options = opts,
      listener_connected = False, unorderedBindings = []\<rparr>"

text \<open>\<open>addEventListener\<close> and \<open>removeEventListener\<close> on the target.\<close>

definition EventListener_connect :: "event_listener \<Rightarrow> event_listener" where
  "EventListener_connect l = l\<lparr>listener_connected := True\<rparr>"

definition EventListener_disconnect :: "event_listener \<Rightarrow> event_listener" where
  "EventListener_disconnect l = l\<lparr>listener_connected := False\<rparr>"

definition EventListener_bindingConnected :: "binding \<Rightarrow> event_listener \<Rightarrow> event_listener" where
  "EventListener_bindingConnected b l = l\<lparr>unorderedBindings := Set_add b (unorderedBindings l)\<rparr>"

definition EventListener_bindingDisconnected :: "binding \<Rightarrow> event_listener \<Rightarrow> event_listener" where
  "EventListener_bindingDisconnected b l = l\<lparr>unorderedBindings := Set_delete b (unorderedBindings l)\<rparr>"

definition EventListener_bindings :: "event_listener \<Rightarrow> binding list" where
  "EventListener_bindings l = sort_key (\<lambda>b. action_index (binding_action b)) (unorderedBindings l)"

section \<open>The class Dispatcher\<close>

record dispatcher =
  eventListenerMaps :: "(event_target \<times> (string \<times> event_listener) list) list"
  dispatcher_started :: bool

definition Dispatcher_new :: dispatcher where
  "Dispatcher_new = \<lparr>eventListenerMaps = [], dispatcher_started = False\<rparr>"

definition Dispatcher_eventListeners :: "dispatcher \<Rightarrow> event_listener list" where
  "Dispatcher_eventListeners d =
     foldl (\<lambda>listeners m. listeners @ map snd m) [] (map snd (eventListenerMaps d))"

definition map_listeners :: "(event_listener \<Rightarrow> event_listener) \<Rightarrow> dispatcher \<Rightarrow> dispatcher" where
  "map_listeners f d =
     d\<lparr>eventListenerMaps := map (map_prod id (map (map_prod id f))) (eventListenerMaps d)\<rparr>"

definition Dispatcher_start :: "dispatcher \<Rightarrow> dispatcher" where
  "Dispatcher_start d =
     (if \<not> dispatcher_started d then map_listeners EventListener_connect (d\<lparr>dispatcher_started := True\<rparr>)
      else d)"

definition Dispatcher_stop :: "dispatcher \<Rightarrow> dispatcher" where
  "Dispatcher_stop d =
     (if dispatcher_started d then map_listeners EventListener_disconnect (d\<lparr>dispatcher_started := False\<rparr>)
      else d)"

definition Dispatcher_cacheKey :: "string \<Rightarrow> (string \<times> bool) list \<Rightarrow> string" where
  "Dispatcher_cacheKey name opts =
     (let parts = name # map (\<lambda>key. (if Map_get opts key = Some True then [] else ''!'') @ key)
                           (sort (map fst opts))
      in join_with (CHR '':'') parts)"

definition Dispatcher_createEventListener ::
    "event_target \<Rightarrow> string \<Rightarrow> (string \<times> bool) list \<Rightarrow> dispatcher \<Rightarrow> event_listener" where
  "Dispatcher_createEventListener target name opts d =
     (let eventListener = EventListener_new target name opts
      in if dispatcher_started d then EventListener_connect eventListener else eventListener)"

definition Dispatcher_fetchEventListenerMapForEventTarget ::
    "event_target \<Rightarrow> dispatcher \<Rightarrow> dispatcher \<times> (string \<times> event_listener) list" where
  "Dispatcher_fetchEventListenerMapForEventTarget target d =
     (case Map_get (eventListenerMaps d) target of
        None \<Rightarrow> (d\<lparr>eventListenerMaps := Map_set target [] (eventListenerMaps d)\<rparr>, [])
      | Some m \<Rightarrow> (d, m))"

definition Dispatcher_fetchEventListener ::
    "event_target \<Rightarrow> string \<Rightarrow> (string \<times> bool) list \<Rightarrow> dispatcher \<Rightarrow> dispatcher \<times> event_listener" where
  "Dispatcher_fetchEventListener target name opts d =
     (let (d, eventListenerMap) = Dispatcher_fetchEventListenerMapForEventTarget target d;
          cacheKey = Dispatcher_cacheKey name opts
      in case Map_get eventListenerMap cacheKey of
           Some eventListener \<Rightarrow> (d, eventListener)
         | None \<Rightarrow>
             (let eventListener = Dispatcher_createEventListener target name opts d
              in (d\<lparr>eventListenerMaps :=
                      Map_set target (Map_set cacheKey eventListener eventListenerMap) (eventListenerMaps d)\<rparr>,
                  eventListener)))"

definition Dispatcher_fetchEventListenerForBinding :: "binding \<Rightarrow> dispatcher \<Rightarrow> dispatcher \<times> event_listener" where
  "Dispatcher_fetchEventListenerForBinding b d =
     (let a = binding_action b
      in Dispatcher_fetchEventListener (eventTarget a) (eventName a) (eventOptions a) d)"

text \<open>Changing a listener stores it back where it was found.\<close>

definition store_listener :: "event_target \<Rightarrow> string \<Rightarrow> event_listener \<Rightarrow> dispatcher \<Rightarrow> dispatcher" where
  "store_listener target key l d =
     (case Map_get (eventListenerMaps d) target of
        None \<Rightarrow> d
      | Some m \<Rightarrow> d\<lparr>eventListenerMaps := Map_set target (Map_set key l m) (eventListenerMaps d)\<rparr>)"

definition binding_key :: "binding \<Rightarrow> string" where
  "binding_key b = Dispatcher_cacheKey (eventName (binding_action b)) (eventOptions (binding_action b))"

definition Dispatcher_bindingConnected :: "binding \<Rightarrow> dispatcher \<Rightarrow> dispatcher" where
  "Dispatcher_bindingConnected b d =
     (let (d, eventListener) = Dispatcher_fetchEventListenerForBinding b d
      in store_listener (eventTarget (binding_action b)) (binding_key b)
           (EventListener_bindingConnected b eventListener) d)"

definition Dispatcher_bindingDisconnected :: "binding \<Rightarrow> dispatcher \<Rightarrow> dispatcher" where
  "Dispatcher_bindingDisconnected b d =
     (let (d, eventListener) = Dispatcher_fetchEventListenerForBinding b d
      in store_listener (eventTarget (binding_action b)) (binding_key b)
           (EventListener_bindingDisconnected b eventListener) d)"

section \<open>Lookup\<close>

definition listener_at :: "dispatcher \<Rightarrow> event_target \<Rightarrow> string \<Rightarrow> event_listener option" where
  "listener_at d target key =
     (case Map_get (eventListenerMaps d) target of None \<Rightarrow> None | Some m \<Rightarrow> Map_get m key)"

definition registered :: "dispatcher \<Rightarrow> binding \<Rightarrow> bool" where
  "registered d b \<longleftrightarrow>
     (case listener_at d (eventTarget (binding_action b)) (binding_key b) of
        None \<Rightarrow> False | Some l \<Rightarrow> b \<in> set (unorderedBindings l))"

text \<open>
  A listener is stored under its own target and key, listens exactly while the dispatcher is
  started, and has only bindings with that target and key.
\<close>

definition listener_ok :: "dispatcher \<Rightarrow> event_target \<Rightarrow> string \<Rightarrow> event_listener \<Rightarrow> bool" where
  "listener_ok d target key l \<longleftrightarrow>
     listener_target l = target \<and> Dispatcher_cacheKey (listener_name l) (listener_options l) = key \<and>
     listener_connected l = dispatcher_started d \<and> distinct (unorderedBindings l) \<and>
     (\<forall>b\<in>set (unorderedBindings l). eventTarget (binding_action b) = target \<and> binding_key b = key)"

definition dispatcher_ok :: "dispatcher \<Rightarrow> bool" where
  "dispatcher_ok d \<longleftrightarrow> Map_wf (eventListenerMaps d) \<and> (\<forall>(t, m)\<in>set (eventListenerMaps d). Map_wf m) \<and>
     (\<forall>target key l. listener_at d target key = Some l \<longrightarrow> listener_ok d target key l)"

lemma dispatcher_ok_new [simp]: "dispatcher_ok Dispatcher_new"
  by (simp add: dispatcher_ok_def Dispatcher_new_def listener_at_def)

lemma not_registered_new [simp]: "\<not> registered Dispatcher_new b"
  by (simp add: registered_def Dispatcher_new_def listener_at_def)

lemma wf_maps:
  "dispatcher_ok d \<Longrightarrow> Map_get (eventListenerMaps d) target = Some m \<Longrightarrow> Map_wf m"
  by (auto simp: dispatcher_ok_def dest: map_of_SomeD)

lemma maps_set:
  assumes "Map_wf maps" "\<forall>(t, m)\<in>set maps. Map_wf m" "Map_wf m"
  shows "Map_wf (Map_set target m maps)" "\<forall>(t, m)\<in>set (Map_set target m maps). Map_wf m"
  using assms by (auto simp: set_Map_set)

text \<open>Fetching adds at most one empty listener, and storing changes exactly one.\<close>

lemma fetchEventListener_props:
  assumes ok: "dispatcher_ok d" and f: "Dispatcher_fetchEventListener target name opts d = (d', l)"
  shows "dispatcher_ok d'" "dispatcher_started d' = dispatcher_started d"
    "listener_at d' target (Dispatcher_cacheKey name opts) = Some l"
    "listener_at d' t k = (if (t, k) = (target, Dispatcher_cacheKey name opts) then Some l else listener_at d t k)"
    "unorderedBindings l =
      (case listener_at d target (Dispatcher_cacheKey name opts) of None \<Rightarrow> [] | Some l \<Rightarrow> unorderedBindings l)"
    "listener_at d target (Dispatcher_cacheKey name opts) \<in> {None, Some l}"
proof -
  let ?key = "Dispatcher_cacheKey name opts"
  define m where "m = (case Map_get (eventListenerMaps d) target of None \<Rightarrow> [] | Some m \<Rightarrow> m)"
  have at: "listener_at d target k = Map_get m k" for k
    by (simp add: listener_at_def m_def split: option.split)
  have wf: "Map_wf (eventListenerMaps d)" "\<forall>(t, m)\<in>set (eventListenerMaps d). Map_wf m" "Map_wf m"
    using ok wf_maps [OF ok, of target] by (auto simp: dispatcher_ok_def m_def split: option.splits)
  have "dispatcher_started d' = dispatcher_started d \<and> Map_wf (eventListenerMaps d') \<and>
      (\<forall>(t, m)\<in>set (eventListenerMaps d'). Map_wf m) \<and>
      (\<forall>t k. listener_at d' t k = (if (t, k) = (target, ?key) then Some l else listener_at d t k)) \<and>
      (case Map_get m ?key of None \<Rightarrow> l = Dispatcher_createEventListener target name opts d | Some l' \<Rightarrow> l = l')"
  proof -
    obtain d0 where fm: "Dispatcher_fetchEventListenerMapForEventTarget target d = (d0, m)"
      and d0: "Map_wf (eventListenerMaps d0)" "\<forall>(t, m)\<in>set (eventListenerMaps d0). Map_wf m"
        "dispatcher_started d0 = dispatcher_started d" "Map_get (eventListenerMaps d0) target = Some m"
        "\<And>t. t \<noteq> target \<Longrightarrow> Map_get (eventListenerMaps d0) t = Map_get (eventListenerMaps d) t"
      using wf maps_set [OF wf(1,2), of "[]" target]
      by (cases "Map_get (eventListenerMaps d) target")
        (simp_all add: Dispatcher_fetchEventListenerMapForEventTarget_def m_def del: map_of_eq_Some_iff)
    have at0: "listener_at d0 t k = (if t = target then Map_get m k else listener_at d t k)" for t k
      using d0(4,5) by (simp add: listener_at_def)
    show ?thesis
    proof (cases "Map_get m ?key")
      case None
      let ?l = "Dispatcher_createEventListener target name opts d"
      have "Dispatcher_createEventListener target name opts d0 = ?l"
        by (simp add: Dispatcher_createEventListener_def d0(3))
      with f fm None have d': "l = ?l"
          "d' = d0\<lparr>eventListenerMaps := Map_set target (Map_set ?key ?l m) (eventListenerMaps d0)\<rparr>"
        by (auto simp: Dispatcher_fetchEventListener_def Let_def)
      have "listener_at d' t k = (if (t, k) = (target, ?key) then Some l else listener_at d t k)" for t k
        using d0(5) [of t] by (simp add: d' listener_at_def at [unfolded listener_at_def])
      with maps_set [OF d0(1,2), of "Map_set ?key ?l m" target] wf(3) None d0(3) show ?thesis
        by (simp add: d')
    next
      case (Some l')
      with f fm have "l = l'" "d' = d0"
        by (auto simp: Dispatcher_fetchEventListener_def Let_def)
      with Some d0 at0 at show ?thesis by simp
    qed
  qed
  then have s: "dispatcher_started d' = dispatcher_started d" and w: "Map_wf (eventListenerMaps d')"
      "\<forall>(t, m)\<in>set (eventListenerMaps d'). Map_wf m"
    and g: "\<And>t k. listener_at d' t k = (if (t, k) = (target, ?key) then Some l else listener_at d t k)"
    and c: "case Map_get m ?key of None \<Rightarrow> l = Dispatcher_createEventListener target name opts d | Some l' \<Rightarrow> l = l'"
    by blast+
  have new: "listener_ok d target ?key (Dispatcher_createEventListener target name opts d)"
    by (simp add: listener_ok_def Dispatcher_createEventListener_def Let_def EventListener_new_def EventListener_connect_def)
  have "listener_ok d target ?key l"
    using c new ok at by (cases "Map_get m ?key") (auto simp: dispatcher_ok_def)
  then show "dispatcher_ok d'"
    using s w g ok by (auto simp: dispatcher_ok_def listener_ok_def split: if_splits)
  show "dispatcher_started d' = dispatcher_started d" by (rule s)
  show "listener_at d' target ?key = Some l"
    "listener_at d' t k = (if (t, k) = (target, ?key) then Some l else listener_at d t k)"
    by (simp_all add: g)
  show "unorderedBindings l = (case listener_at d target ?key of None \<Rightarrow> [] | Some l \<Rightarrow> unorderedBindings l)"
    using c unfolding at by (auto simp: Dispatcher_createEventListener_def Let_def EventListener_new_def
        EventListener_connect_def split: option.splits)
  show "listener_at d target ?key \<in> {None, Some l}"
    using c unfolding at by (auto split: option.splits)
qed

lemma store_listener_props:
  assumes ok: "dispatcher_ok d" and at: "listener_at d target key = Some l"
    and l': "listener_ok d target key l'"
  shows "dispatcher_ok (store_listener target key l' d)"
    "dispatcher_started (store_listener target key l' d) = dispatcher_started d"
    "listener_at (store_listener target key l' d) t k = (if (t, k) = (target, key) then Some l' else listener_at d t k)"
proof -
  obtain m where m: "Map_get (eventListenerMaps d) target = Some m"
    using at by (auto simp: listener_at_def split: option.splits)
  have g: "listener_at (store_listener target key l' d) t k =
      (if (t, k) = (target, key) then Some l' else listener_at d t k)" for t k
    by (simp add: store_listener_def m listener_at_def)
  then show "listener_at (store_listener target key l' d) t k =
      (if (t, k) = (target, key) then Some l' else listener_at d t k)" .
  show "dispatcher_started (store_listener target key l' d) = dispatcher_started d"
    by (simp add: store_listener_def m)
  then show "dispatcher_ok (store_listener target key l' d)"
    using ok l' maps_set [of "eventListenerMaps d" "Map_set key l' m" target] wf_maps [OF ok m]
    unfolding dispatcher_ok_def g
    by (auto simp: store_listener_def m listener_ok_def split: if_splits)
qed

lemma bindingConnected_props:
  assumes ok: "dispatcher_ok d"
  shows "dispatcher_ok (Dispatcher_bindingConnected b d)"
    "registered (Dispatcher_bindingConnected b d) b' \<longleftrightarrow> b' = b \<or> registered d b'"
    "dispatcher_started (Dispatcher_bindingConnected b d) = dispatcher_started d"
proof -
  let ?t = "eventTarget (binding_action b)"
  obtain d1 l where f: "Dispatcher_fetchEventListener ?t (eventName (binding_action b))
      (eventOptions (binding_action b)) d = (d1, l)"
    by (cases "Dispatcher_fetchEventListener ?t (eventName (binding_action b))
      (eventOptions (binding_action b)) d")
  note p = fetchEventListener_props [OF ok f, folded binding_key_def]
  have eq: "Dispatcher_bindingConnected b d =
      store_listener ?t (binding_key b) (EventListener_bindingConnected b l) d1"
    by (simp add: Dispatcher_bindingConnected_def Dispatcher_fetchEventListenerForBinding_def f Let_def)
  have "listener_ok d1 ?t (binding_key b) (EventListener_bindingConnected b l)"
    using p(1,3) by (auto simp: dispatcher_ok_def listener_ok_def EventListener_bindingConnected_def)
  note q = store_listener_props [OF p(1,3) this]
  show "dispatcher_ok (Dispatcher_bindingConnected b d)"
    "dispatcher_started (Dispatcher_bindingConnected b d) = dispatcher_started d"
    using q p(2) by (simp_all add: eq)
  show "registered (Dispatcher_bindingConnected b d) b' \<longleftrightarrow> b' = b \<or> registered d b'"
    using p(5) unfolding registered_def eq q(3) p(4)
    by (auto simp: EventListener_bindingConnected_def split: option.splits)
qed

lemma bindingDisconnected_props:
  assumes ok: "dispatcher_ok d"
  shows "dispatcher_ok (Dispatcher_bindingDisconnected b d)"
    "registered (Dispatcher_bindingDisconnected b d) b' \<longleftrightarrow> b' \<noteq> b \<and> registered d b'"
    "dispatcher_started (Dispatcher_bindingDisconnected b d) = dispatcher_started d"
proof -
  let ?t = "eventTarget (binding_action b)"
  obtain d1 l where f: "Dispatcher_fetchEventListener ?t (eventName (binding_action b))
      (eventOptions (binding_action b)) d = (d1, l)"
    by (cases "Dispatcher_fetchEventListener ?t (eventName (binding_action b))
      (eventOptions (binding_action b)) d")
  note p = fetchEventListener_props [OF ok f, folded binding_key_def]
  have eq: "Dispatcher_bindingDisconnected b d =
      store_listener ?t (binding_key b) (EventListener_bindingDisconnected b l) d1"
    by (simp add: Dispatcher_bindingDisconnected_def Dispatcher_fetchEventListenerForBinding_def f Let_def)
  have "listener_ok d1 ?t (binding_key b) (EventListener_bindingDisconnected b l)"
    using p(1,3) by (auto simp: dispatcher_ok_def listener_ok_def EventListener_bindingDisconnected_def)
  note q = store_listener_props [OF p(1,3) this]
  show "dispatcher_ok (Dispatcher_bindingDisconnected b d)"
    "dispatcher_started (Dispatcher_bindingDisconnected b d) = dispatcher_started d"
    using q p(2) by (simp_all add: eq)
  show "registered (Dispatcher_bindingDisconnected b d) b' \<longleftrightarrow> b' \<noteq> b \<and> registered d b'"
    using p(5) unfolding registered_def eq q(3) p(4)
    by (auto simp: EventListener_bindingDisconnected_def split: option.splits)
qed

lemma listener_at_map: "listener_at (map_listeners f d) t k = map_option f (listener_at d t k)"
  by (simp add: listener_at_def map_listeners_def Map_get_map_values split: option.split)

lemma dispatcher_ok_map:
  assumes "dispatcher_ok d"
    and "\<And>t k l. listener_ok d t k l \<Longrightarrow> listener_ok (d\<lparr>dispatcher_started := b\<rparr>) t k (f l)"
  shows "dispatcher_ok (map_listeners f (d\<lparr>dispatcher_started := b\<rparr>))"
proof -
  have w: "Map_wf (eventListenerMaps (map_listeners f (d\<lparr>dispatcher_started := b\<rparr>)))"
    "\<forall>(t, m)\<in>set (eventListenerMaps (map_listeners f (d\<lparr>dispatcher_started := b\<rparr>))). Map_wf m"
    using assms(1)
    by (auto simp: dispatcher_ok_def map_listeners_def Map_keys_map_values simp del: map_map)
  have o: "listener_ok (map_listeners f (d\<lparr>dispatcher_started := b\<rparr>)) = listener_ok (d\<lparr>dispatcher_started := b\<rparr>)"
    by (simp add: listener_ok_def map_listeners_def fun_eq_iff)
  have "listener_at (d\<lparr>dispatcher_started := b\<rparr>) t k = listener_at d t k" for t k
    by (simp add: listener_at_def)
  with assms w show ?thesis
    unfolding dispatcher_ok_def o listener_at_map by auto
qed

lemma Dispatcher_start_props:
  assumes "dispatcher_ok d"
  shows "dispatcher_ok (Dispatcher_start d)" "registered (Dispatcher_start d) = registered d"
    "dispatcher_started (Dispatcher_start d)"
proof -
  have "listener_at (d\<lparr>dispatcher_started := True\<rparr>) t k = listener_at d t k" for t k
    by (simp add: listener_at_def)
  then show "registered (Dispatcher_start d) = registered d"
    by (auto simp: Dispatcher_start_def registered_def fun_eq_iff listener_at_map EventListener_connect_def
        split: option.split)
  show "dispatcher_ok (Dispatcher_start d)"
    unfolding Dispatcher_start_def
    by (auto intro!: dispatcher_ok_map assms simp: listener_ok_def EventListener_connect_def)
  show "dispatcher_started (Dispatcher_start d)"
    by (simp add: Dispatcher_start_def map_listeners_def)
qed

lemma Dispatcher_stop_props:
  assumes "dispatcher_ok d"
  shows "dispatcher_ok (Dispatcher_stop d)" "registered (Dispatcher_stop d) = registered d"
    "\<not> dispatcher_started (Dispatcher_stop d)"
proof -
  have "listener_at (d\<lparr>dispatcher_started := False\<rparr>) t k = listener_at d t k" for t k
    by (simp add: listener_at_def)
  then show "registered (Dispatcher_stop d) = registered d"
    by (auto simp: Dispatcher_stop_def registered_def fun_eq_iff listener_at_map EventListener_disconnect_def
        split: option.split)
  show "dispatcher_ok (Dispatcher_stop d)"
    unfolding Dispatcher_stop_def
    by (auto intro!: dispatcher_ok_map assms simp: listener_ok_def EventListener_disconnect_def)
  show "\<not> dispatcher_started (Dispatcher_stop d)"
    by (simp add: Dispatcher_stop_def map_listeners_def)
qed

section \<open>The protocol towards the dispatcher\<close>

locale binding_client =
  fixes bindingConnected bindingDisconnected :: "binding \<Rightarrow> 'd \<Rightarrow> 'd" and BInv :: "binding set \<Rightarrow> 'd \<Rightarrow> bool"
  assumes connected: "BInv B d \<Longrightarrow> b \<notin> B \<Longrightarrow> BInv (insert b B) (bindingConnected b d)"
    and disconnected: "BInv B d \<Longrightarrow> b \<in> B \<Longrightarrow> BInv (B - {b}) (bindingDisconnected b d)"
begin

lemma fold_disconnected:
  "BInv B d \<Longrightarrow> distinct bs \<Longrightarrow> set bs \<subseteq> B \<Longrightarrow> BInv (B - set bs) (fold bindingDisconnected bs d)"
proof (induction bs arbitrary: B d)
  case (Cons b bs)
  then have "BInv (B - {b}) (bindingDisconnected b d)" by (simp add: disconnected)
  moreover have "set bs \<subseteq> B - {b}" using Cons.prems by auto
  ultimately have "BInv (B - {b} - set bs) (fold bindingDisconnected bs (bindingDisconnected b d))"
    using Cons by simp
  moreover have "B - {b} - set bs = B - set (b # bs)" by auto
  ultimately show ?case by simp
qed simp

end

definition dispatcher_has :: "binding set \<Rightarrow> dispatcher \<Rightarrow> bool" where
  "dispatcher_has B d \<longleftrightarrow> dispatcher_ok d \<and> Collect (registered d) = B"

interpretation dispatch: binding_client Dispatcher_bindingConnected Dispatcher_bindingDisconnected dispatcher_has
  by unfold_locales (auto simp: dispatcher_has_def bindingConnected_props bindingDisconnected_props)

section \<open>Handling an event\<close>

text \<open>
  \<open>ev_stopped\<close> is \<open>None\<close> before \<open>extendEvent\<close> has added the property
  \<open>immediatePropagationStopped\<close> to the event.
\<close>

record dom_event =
  ev_target :: event_target
  ev_stopped :: "bool option"

definition extendEvent :: "dom_event \<Rightarrow> dom_event" where
  "extendEvent ev = (case ev_stopped ev of Some _ \<Rightarrow> ev | None \<Rightarrow> ev\<lparr>ev_stopped := Some False\<rparr>)"

text \<open>
  What the controllers do: the method of an identifier and a name (\<open>None\<close> when the property
  is no function) changes the user's state, may stop the propagation, and may throw. Errors
  go to the application's log, with the message that describes them.
\<close>

type_synonym 'u controller_methods =
  "string \<Rightarrow> string \<Rightarrow> (scope \<Rightarrow> dom_event \<Rightarrow> 'u \<Rightarrow> 'u \<times> bool \<times> string option) option"

record 'u handling =
  user :: 'u
  current_event :: dom_event
  error_log :: "(string \<times> string) list"

definition Context_handleError :: "string \<Rightarrow> string \<Rightarrow> 'u handling \<Rightarrow> 'u handling" where
  "Context_handleError e message h = h\<lparr>error_log := error_log h @ [(e, ''Error '' @ message)]\<rparr>"

definition Binding_invokeWithEvent :: "'u controller_methods \<Rightarrow> binding \<Rightarrow> 'u handling \<Rightarrow> 'u handling" where
  "Binding_invokeWithEvent methods b h =
     (let a = binding_action b;
          message = ''invoking action \"'' @ Action_toString a @ ''\"''
      in case methods (scope_identifier (binding_scope b)) (methodName a) of
           None \<Rightarrow>
             Context_handleError (''Action \"'' @ Action_toString a @ ''\" references undefined method \"'' @
               methodName a @ ''\"'') message h
         | Some meth \<Rightarrow>
             (let (u, stops, thrown) = meth (binding_scope b) (current_event h) (user h);
                  h = h\<lparr>user := u,
                        current_event := (if stops then (current_event h)\<lparr>ev_stopped := Some True\<rparr>
                                          else current_event h)\<rparr>
              in case thrown of None \<Rightarrow> h | Some e \<Rightarrow> Context_handleError e message h))"

definition Binding_willBeInvokedByEvent :: "schema \<Rightarrow> document \<Rightarrow> binding \<Rightarrow> dom_event \<Rightarrow> bool" where
  "Binding_willBeInvokedByEvent sch doc b ev =
     (let element = scope_element (binding_scope b)
      in if ev_target ev = Element_target element then True
         else case ev_target ev of
             Element_target e \<Rightarrow>
               (if contains doc element e then Scope_containsElement sch doc (binding_scope b) e
                else Scope_containsElement sch doc (binding_scope b) (action_element (binding_action b)))
           | _ \<Rightarrow> Scope_containsElement sch doc (binding_scope b) (action_element (binding_action b)))"

text \<open>
  The methods may change the page, which is part of the state of the user (\<open>doc_of\<close>): whether a
  binding is invoked depends on the page as the methods before it have left it.
\<close>

definition Binding_handleEvent ::
    "'u controller_methods \<Rightarrow> schema \<Rightarrow> ('u \<Rightarrow> document) \<Rightarrow> binding \<Rightarrow> 'u handling \<Rightarrow> 'u handling" where
  "Binding_handleEvent methods sch doc_of b h =
     (if Binding_willBeInvokedByEvent sch (doc_of (user h)) b (current_event h) then Binding_invokeWithEvent methods b h
      else h)"

fun handle_bindings ::
    "'u controller_methods \<Rightarrow> schema \<Rightarrow> ('u \<Rightarrow> document) \<Rightarrow> binding list \<Rightarrow> 'u handling \<Rightarrow> 'u handling" where
  "handle_bindings methods sch doc_of [] h = h"
| "handle_bindings methods sch doc_of (b # bs) h =
     (if ev_stopped (current_event h) = Some True then h
      else handle_bindings methods sch doc_of bs (Binding_handleEvent methods sch doc_of b h))"

definition EventListener_handleEvent ::
    "'u controller_methods \<Rightarrow> schema \<Rightarrow> ('u \<Rightarrow> document) \<Rightarrow> event_listener \<Rightarrow> 'u handling \<Rightarrow> 'u handling" where
  "EventListener_handleEvent methods sch doc_of l h =
     handle_bindings methods sch doc_of (EventListener_bindings l)
       (h\<lparr>current_event := extendEvent (current_event h)\<rparr>)"

definition stopped :: "'u handling \<Rightarrow> bool" where
  "stopped h \<longleftrightarrow> ev_stopped (current_event h) = Some True"

lemma invoke_target [simp]:
  "ev_target (current_event (Binding_invokeWithEvent methods b h)) = ev_target (current_event h)"
  by (simp add: Binding_invokeWithEvent_def Context_handleError_def Let_def split: option.split prod.split)

lemma willBeInvoked_cong:
  "ev_target ev = ev_target ev' \<Longrightarrow>
     Binding_willBeInvokedByEvent sch doc b ev = Binding_willBeInvokedByEvent sch doc b ev'"
  by (simp add: Binding_willBeInvokedByEvent_def)

lemma handle_target [simp]:
  "ev_target (current_event (Binding_handleEvent methods sch doc_of b h)) = ev_target (current_event h)"
  by (simp add: Binding_handleEvent_def)

text \<open>One binding after the other; none is left once the propagation is stopped.\<close>

definition handling_step ::
    "'u controller_methods \<Rightarrow> schema \<Rightarrow> ('u \<Rightarrow> document) \<Rightarrow> binding \<Rightarrow> 'u handling \<Rightarrow> 'u handling" where
  "handling_step methods sch doc_of b h = (if stopped h then h else Binding_handleEvent methods sch doc_of b h)"

lemma handling_step_target [simp]:
  "ev_target (current_event (handling_step methods sch doc_of b h)) = ev_target (current_event h)"
  by (simp add: handling_step_def)

lemma handling_steps_target [simp]:
  "ev_target (current_event (fold (handling_step methods sch doc_of) bs h)) = ev_target (current_event h)"
  by (induction bs arbitrary: h) simp_all

lemma handle_bindings_steps: "handle_bindings methods sch doc_of bs h = fold (handling_step methods sch doc_of) bs h"
proof (induction bs arbitrary: h)
  case (Cons b bs)
  have "stopped h \<Longrightarrow> fold (handling_step methods sch doc_of) bs h = h"
    by (induction bs) (simp_all add: handling_step_def)
  with Cons.IH show ?case
    by (cases "stopped h") (simp_all add: handling_step_def [of _ _ _ b] stopped_def [symmetric])
qed simp

end
