(* ===== verification/BindingObserver.thy ===== *)
theory BindingObserver
  imports ValueListObserver Dispatcher
begin

text \<open>
  The class \<open>BindingObserver\<close> of \<^verbatim>\<open>src/gui/web/assets/scripts/stimulus.js\<close> (lines
  976-1060): a context's observer of the action attribute. It turns each action of its own
  identifier into a binding that it hands to the dispatcher.
\<close>

section \<open>The class BindingObserver\<close>

type_synonym bindings_state = "(action \<times> binding) list \<times> dispatcher"

definition BindingObserver_parseValueForToken ::
    "scope \<Rightarrow> document \<Rightarrow> token \<Rightarrow> 'd \<Rightarrow> 'd \<times> action parse_result" where
  "BindingObserver_parseValueForToken sc doc t d =
     (case Action_forToken doc t of
        Inl e \<Rightarrow> (d, Inl e)
      | Inr action \<Rightarrow> (d, Inr (if action_identifier action = scope_identifier sc then Some action else None)))"

definition BindingObserver_connectAction :: "scope \<Rightarrow> action \<Rightarrow> bindings_state \<Rightarrow> bindings_state" where
  "BindingObserver_connectAction sc a sd =
     (let (bindingsByAction, d) = sd;
          binding = \<lparr>binding_scope = sc, binding_action = a\<rparr>
      in (Map_set a binding bindingsByAction, Dispatcher_bindingConnected binding d))"

definition BindingObserver_disconnectAction :: "action \<Rightarrow> bindings_state \<Rightarrow> bindings_state" where
  "BindingObserver_disconnectAction a sd =
     (let (bindingsByAction, d) = sd
      in case Map_get bindingsByAction a of
           None \<Rightarrow> (bindingsByAction, d)
         | Some binding \<Rightarrow> (Map_delete a bindingsByAction, Dispatcher_bindingDisconnected binding d))"

definition BindingObserver_disconnectAllActions :: "bindings_state \<Rightarrow> bindings_state" where
  "BindingObserver_disconnectAllActions sd =
     (let (bindingsByAction, d) = sd
      in ([], fold Dispatcher_bindingDisconnected (map snd bindingsByAction) d))"

definition BindingObserver_delegate :: "scope \<Rightarrow> (bindings_state, action) value_delegate" where
  "BindingObserver_delegate sc =
     \<lparr>parseValueForToken = BindingObserver_parseValueForToken sc,
      elementMatchedValue = (\<lambda>doc e a. BindingObserver_connectAction sc a),
      elementUnmatchedValue = (\<lambda>doc e a. BindingObserver_disconnectAction a)\<rparr>"

record binding_observer =
  valueListObserver :: "(element_observer \<times> token_list_observer \<times> action value_list_observer) option"
  bindingsByAction :: "(action \<times> binding) list"

definition BindingObserver_new :: binding_observer where
  "BindingObserver_new = \<lparr>valueListObserver = None, bindingsByAction = []\<rparr>"

definition BindingObserver_start ::
    "schema \<Rightarrow> scope \<Rightarrow> document \<Rightarrow> binding_observer \<times> dispatcher \<Rightarrow> binding_observer \<times> dispatcher" where
  "BindingObserver_start sch sc doc sd =
     (let (s, d) = sd
      in case valueListObserver s of
           Some _ \<Rightarrow> (s, d)
         | None \<Rightarrow>
             (let (eo, tlo, vlo, bs, d) =
                    ValueListObserver_start (actionAttribute sch) (BindingObserver_delegate sc) doc
                      (ElementObserver_new (scope_element sc), TokenListObserver_new, ValueListObserver_new,
                       bindingsByAction s, d)
              in (\<lparr>valueListObserver = Some (eo, tlo, vlo), bindingsByAction = bs\<rparr>, d)))"

definition BindingObserver_stop :: "binding_observer \<times> dispatcher \<Rightarrow> binding_observer \<times> dispatcher" where
  "BindingObserver_stop sd =
     (let (s, d) = sd
      in case valueListObserver s of
           None \<Rightarrow> (s, d)
         | Some (eo, tlo, vlo) \<Rightarrow>
             (let (eo, tlo, vlo, bs, d) = ValueListObserver_stop (eo, tlo, vlo, bindingsByAction s, d);
                  (bs, d) = BindingObserver_disconnectAllActions (bs, d)
              in (\<lparr>valueListObserver = None, bindingsByAction = bs\<rparr>, d)))"

text \<open>
  The browser keeps the records for the observer's \<open>ElementObserver\<close> while it observes, and
  delivers them later; what was kept is lost when the observer is stopped.
\<close>

definition BindingObserver_record :: "mutation list \<Rightarrow> binding_observer \<Rightarrow> binding_observer" where
  "BindingObserver_record ms s =
     s\<lparr>valueListObserver :=
         map_option (\<lambda>(eo, tlo, vlo). (fold record_mutation ms eo, tlo, vlo)) (valueListObserver s)\<rparr>"

definition BindingObserver_deliver ::
    "schema \<Rightarrow> scope \<Rightarrow> document \<Rightarrow> binding_observer \<times> dispatcher \<Rightarrow> binding_observer \<times> dispatcher" where
  "BindingObserver_deliver sch sc doc sd =
     (let (s, d) = sd
      in case valueListObserver s of
           None \<Rightarrow> (s, d)
         | Some (eo, tlo, vlo) \<Rightarrow>
             (let (eo, tlo, vlo, bs, d) =
                    deliver_mutations
                      (value_element_delegate (actionAttribute sch) (BindingObserver_delegate sc)) doc
                      (eo, tlo, vlo, bindingsByAction s, d)
              in (\<lparr>valueListObserver = Some (eo, tlo, vlo), bindingsByAction = bs\<rparr>, d)))"

section \<open>The invariant\<close>

definition bindings_for :: "scope \<Rightarrow> (action \<times> binding) list \<Rightarrow> binding set" where
  "bindings_for sc bs = (\<lambda>a. \<lparr>binding_scope = sc, binding_action = a\<rparr>) ` fst ` set bs"

text \<open>What the observer has parsed a token to, at some time.\<close>

definition action_parsed :: "scope \<Rightarrow> token \<Rightarrow> action parse_result \<Rightarrow> bool" where
  "action_parsed sc t r \<longleftrightarrow> (\<exists>doc. r = snd (BindingObserver_parseValueForToken sc doc t ()))"

definition bindings_local :: "scope \<Rightarrow> (token \<Rightarrow> action option) \<Rightarrow> (action \<times> binding) list \<Rightarrow> bool" where
  "bindings_local sc M bs \<longleftrightarrow> Map_wf bs \<and>
     (\<forall>(a, b)\<in>set bs. b = \<lparr>binding_scope = sc, binding_action = a\<rparr>) \<and>
     fst ` set bs = ran M \<and> (\<forall>t a. M t = Some a \<longrightarrow> aid a = tid t)"

definition bindings_inv :: "scope \<Rightarrow> binding set \<Rightarrow> (token \<Rightarrow> action option) \<Rightarrow> bindings_state \<Rightarrow> bool" where
  "bindings_inv sc B0 M sd \<longleftrightarrow> bindings_local sc M (fst sd) \<and> (\<forall>b\<in>B0. binding_scope b \<noteq> sc) \<and>
     dispatcher_has (B0 \<union> bindings_for sc (fst sd)) (snd sd)"

lemma Action_forToken_props:
  "Action_forToken doc t = Inr a \<Longrightarrow> aid a = tid t \<and> action_element a = token_element t \<and> action_index a = index t"
  by (auto simp: Action_forToken_def Action_new_def Let_def split: option.splits)

lemma parse_action:
  "fst (BindingObserver_parseValueForToken sc doc t d) = d"
  "snd (BindingObserver_parseValueForToken sc doc t d) =
     (case Action_forToken doc t of Inl e \<Rightarrow> Inl e
      | Inr a \<Rightarrow> Inr (if action_identifier a = scope_identifier sc then Some a else None))"
  by (simp_all add: BindingObserver_parseValueForToken_def split: sum.split)

lemma parse_action_parsed: "action_parsed sc t (snd (BindingObserver_parseValueForToken sc doc t d))"
  unfolding action_parsed_def by (rule exI [of _ doc]) (simp add: parse_action)

lemma action_parsedD:
  assumes "action_parsed sc t (Inr (Some a))"
  shows "aid a = tid t \<and> action_element a = token_element t \<and> action_index a = index t \<and>
     action_identifier a = scope_identifier sc"
proof -
  from assms obtain doc where "Inr (Some a) = snd (BindingObserver_parseValueForToken sc doc t ())"
    by (auto simp: action_parsed_def)
  then have "Action_forToken doc t = Inr a" "action_identifier a = scope_identifier sc"
    by (auto simp: parse_action split: sum.splits if_splits)
  with Action_forToken_props [OF this(1)] show ?thesis by simp
qed

lemma Map_wf_keys: "Map_wf m \<Longrightarrow> fst ` set (Map_set k v m) = insert k (fst ` set m)"
  by (auto simp: set_Map_set image_iff)

lemma bindings_set_delete: "fst ` set (Map_delete k m) = fst ` set m - {k}"
  by (auto simp: set_Map_delete image_iff)

interpretation action_tokens: value_client "BindingObserver_delegate sc" doc "action_parsed sc" "bindings_inv sc B0"
  for sc doc B0
proof
  fix M t and sd :: bindings_state
  assume inv: "bindings_inv sc B0 M sd"
  obtain bs d where sd: "sd = (bs, d)" by (cases sd)
  from inv have l: "bindings_local sc M bs" and other: "\<forall>b\<in>B0. binding_scope b \<noteq> sc"
    and has: "dispatcher_has (B0 \<union> bindings_for sc bs) d"
    by (simp_all add: bindings_inv_def sd)
  show "bindings_inv sc B0 M (fst (parseValueForToken (BindingObserver_delegate sc) doc t sd)) \<and>
      action_parsed sc t (snd (parseValueForToken (BindingObserver_delegate sc) doc t sd))"
    using inv by (simp add: BindingObserver_delegate_def parse_action_parsed) (simp add: parse_action)
  fix a
  assume p: "action_parsed sc t (Inr (Some a))"
  let ?b = "\<lparr>binding_scope = sc, binding_action = a\<rparr>"
  from p have a: "aid a = tid t" by (simp add: action_parsedD)
  {
    assume new: "tid t \<notin> tid ` dom M"
    have fresh: "a \<notin> ran M"
    proof
      assume "a \<in> ran M"
      then obtain t' where t': "M t' = Some a" by (auto simp: ran_def)
      then have "tid t' = tid t" using l a by (simp add: bindings_local_def)
      moreover have "t' \<in> dom M" using t' by blast
      ultimately show False using new by (metis imageI)
    qed
    have keys: "fst ` set (Map_set a ?b bs) = insert a (fst ` set bs)"
      using l by (simp add: Map_wf_keys bindings_local_def)
    have "M t = None" using new by (auto simp: image_iff)
    then have "ran (M(t \<mapsto> a)) = insert a (ran M)" by simp
    with l a keys have "bindings_local sc (M(t \<mapsto> a)) (Map_set a ?b bs)"
      by (auto simp: bindings_local_def set_Map_set)
    moreover have "dispatcher_has (insert ?b (B0 \<union> bindings_for sc bs)) (Dispatcher_bindingConnected ?b d)"
      using fresh l other by (intro dispatch.connected [OF has]) (auto simp: bindings_for_def bindings_local_def)
    ultimately show "bindings_inv sc B0 (M(t \<mapsto> a))
        (elementMatchedValue (BindingObserver_delegate sc) doc (token_element t) a sd)"
      using other keys
      by (simp add: bindings_inv_def sd BindingObserver_delegate_def BindingObserver_connectAction_def
          bindings_for_def Let_def)
  }
  assume M: "M t = Some a" and inj: "inj_on tid (dom M)"
  have "a \<in> fst ` set bs" using l M by (auto simp: bindings_local_def ran_def)
  with l have b: "Map_get bs a = Some ?b" by (fastforce simp: bindings_local_def)
  have only: "t' = t" if "M t' = Some a" for t'
  proof (rule inj_onD [OF inj])
    show "tid t' = tid t" using that M l by (metis bindings_local_def)
  qed (use that M in blast)+
  have "ran (M(t := None)) = ran M - {a}"
  proof (intro set_eqI iffI)
    fix x assume "x \<in> ran M - {a}"
    then obtain t' where "M t' = Some x" "x \<noteq> a" by (auto simp: ran_def)
    with M show "x \<in> ran (M(t := None))" by (intro ranI [of _ t']) auto
  next
    fix x assume "x \<in> ran (M(t := None))"
    then obtain t' where "M t' = Some x" "t' \<noteq> t" by (auto simp: ran_def split: if_splits)
    with only show "x \<in> ran M - {a}" by (auto intro: ranI)
  qed
  with l have "bindings_local sc (M(t := None)) (Map_delete a bs)"
    by (auto simp: bindings_local_def bindings_set_delete set_Map_delete)
  moreover have "dispatcher_has (B0 \<union> bindings_for sc bs - {?b}) (Dispatcher_bindingDisconnected ?b d)"
    using \<open>a \<in> fst ` set bs\<close> by (intro dispatch.disconnected [OF has]) (auto simp: bindings_for_def)
  moreover have "B0 \<union> bindings_for sc bs - {?b} = B0 \<union> bindings_for sc (Map_delete a bs)"
    using other by (auto simp: bindings_for_def bindings_set_delete)
  ultimately show "bindings_inv sc B0 (M(t := None))
      (elementUnmatchedValue (BindingObserver_delegate sc) doc (token_element t) a sd)"
    using other b
    by (simp add: bindings_inv_def sd BindingObserver_delegate_def BindingObserver_disconnectAction_def)
qed

text \<open>
  The state of a \<open>BindingObserver\<close> on its own; the bindings of its context are those for the
  actions in \<open>bindingsByAction\<close>.
\<close>

definition binding_observer_ok :: "schema \<Rightarrow> scope \<Rightarrow> binding_observer \<Rightarrow> bool" where
  "binding_observer_ok sch sc s \<longleftrightarrow>
     (case valueListObserver s of
        None \<Rightarrow> bindingsByAction s = []
      | Some (eo, tlo, vlo) \<Rightarrow>
          tokens_ok (actionAttribute sch) (set (elements eo)) tlo \<and>
          values_ok (action_parsed sc) (all_tokens tlo) vlo \<and>
          bindings_local sc (values_of (all_tokens tlo) vlo) (bindingsByAction s))"

abbreviation bindings_of :: "scope \<Rightarrow> binding_observer \<Rightarrow> binding set" where
  "bindings_of sc s \<equiv> bindings_for sc (bindingsByAction s)"

lemma bindings_for_Nil [simp]: "bindings_for sc [] = {}"
  by (simp add: bindings_for_def)

lemma binding_observer_ok_new [simp]: "binding_observer_ok sch sc BindingObserver_new"
  by (simp add: binding_observer_ok_def BindingObserver_new_def)

lemma action_ok_iff:
  "element_client.ok (tokens_inv a (values_inv (action_parsed sc) (bindings_inv sc B0))) (eo, tlo, vlo, bs, d) \<longleftrightarrow>
     tokens_ok a (set (elements eo)) tlo \<and> values_ok (action_parsed sc) (all_tokens tlo) vlo \<and>
     bindings_inv sc B0 (values_of (all_tokens tlo) vlo) (bs, d)"
  unfolding action_tokens.tokens.attributes.observer.ok_def by (simp add: tokens_inv_def values_inv_def)

lemma bindings_inv_iff:
  "bindings_inv sc B0 M (bs, d) \<longleftrightarrow>
     bindings_local sc M bs \<and> (\<forall>b\<in>B0. binding_scope b \<noteq> sc) \<and> dispatcher_has (B0 \<union> bindings_for sc bs) d"
  by (simp add: bindings_inv_def)

lemma values_of_new [simp]: "values_of T ValueListObserver_new = (\<lambda>t. None)"
  by (simp add: values_of_def ValueListObserver_new_def fun_eq_iff)

lemma all_tokens_new [simp]: "all_tokens TokenListObserver_new = {}"
  by (simp add: all_tokens_def tokens_of_def TokenListObserver_new_def) (simp add: Multimap_defs)

lemma values_ok_new: "values_ok parsed {} ValueListObserver_new"
  by (simp add: values_ok_def values_of_def ValueListObserver_new_def)

lemma elements_new [simp]: "elements (ElementObserver_new e) = []"
  by (simp add: ElementObserver_new_def)

text \<open>
  Starting, stopping and delivering records keep the state consistent, and the dispatcher has
  the bindings of the context beside those of the others (\<open>B0\<close>).
\<close>

lemma BindingObserver_start_ok:
  assumes ok: "binding_observer_ok sch sc s" and B0: "\<forall>b\<in>B0. binding_scope b \<noteq> sc"
    and d: "dispatcher_has (B0 \<union> bindings_of sc s) d"
    and r: "BindingObserver_start sch sc doc (s, d) = (s', d')"
  shows "binding_observer_ok sch sc s' \<and> dispatcher_has (B0 \<union> bindings_of sc s') d' \<and>
    valueListObserver s' \<noteq> None"
proof (cases "valueListObserver s")
  case None
  let ?a = "actionAttribute sch"
  obtain eo tlo vlo bs d1 where v: "ValueListObserver_start ?a (BindingObserver_delegate sc) doc
      (ElementObserver_new (scope_element sc), TokenListObserver_new, ValueListObserver_new, [], d) =
      (eo, tlo, vlo, bs, d1)" by (metis prod.exhaust)
  have "bindings_inv sc B0 (\<lambda>t. None) ([], d)"
    using None ok d B0 by (simp add: bindings_inv_iff bindings_local_def binding_observer_ok_def)
  then have "element_client.ok (tokens_inv ?a (values_inv (action_parsed sc) (bindings_inv sc B0)))
      (ElementObserver_new (scope_element sc), TokenListObserver_new, ValueListObserver_new, [], d)"
    by (simp add: action_ok_iff tokens_ok_new values_ok_new)
  then have "element_client.ok (tokens_inv ?a (values_inv (action_parsed sc) (bindings_inv sc B0)))
      (eo, tlo, vlo, bs, d1)"
    unfolding v [symmetric] ValueListObserver_start_def TokenListObserver_start_def AttributeObserver_start_def
    by (rule action_tokens.tokens.attributes.observer.ok_start)
  then show ?thesis
    using r v None ok
    by (auto simp: BindingObserver_start_def binding_observer_ok_def action_ok_iff bindings_inv_iff)
next
  case (Some x)
  then show ?thesis using assms by (auto simp: BindingObserver_start_def)
qed

lemma fold_record_mutation:
  "fold record_mutation ms eo = eo\<lparr>mutationObserver := map_option (\<lambda>q. q @ ms) (mutationObserver eo)\<rparr>"
  by (induction ms arbitrary: eo) (simp_all add: record_mutation_def option.map_comp comp_def option.map_ident)

lemma BindingObserver_record_ok:
  "binding_observer_ok sch sc (BindingObserver_record ms s) = binding_observer_ok sch sc s"
  "bindingsByAction (BindingObserver_record ms s) = bindingsByAction s"
  "valueListObserver (BindingObserver_record ms s) = None \<longleftrightarrow> valueListObserver s = None"
  by (simp_all add: BindingObserver_record_def binding_observer_ok_def fold_record_mutation split: option.split)

lemma BindingObserver_deliver_ok:
  assumes ok: "binding_observer_ok sch sc s" and B0: "\<forall>b\<in>B0. binding_scope b \<noteq> sc"
    and d: "dispatcher_has (B0 \<union> bindings_of sc s) d"
    and r: "BindingObserver_deliver sch sc doc (s, d) = (s', d')"
  shows "binding_observer_ok sch sc s' \<and> dispatcher_has (B0 \<union> bindings_of sc s') d' \<and>
    (valueListObserver s' = None \<longleftrightarrow> valueListObserver s = None)"
proof (cases "valueListObserver s")
  case None
  then show ?thesis using assms by (auto simp: BindingObserver_deliver_def)
next
  case (Some x)
  let ?a = "actionAttribute sch"
  obtain eo tlo vlo where x: "x = (eo, tlo, vlo)" by (cases x)
  obtain eo' tlo' vlo' bs' d1 where v: "deliver_mutations
      (value_element_delegate ?a (BindingObserver_delegate sc)) doc
      (eo, tlo, vlo, bindingsByAction s, d) = (eo', tlo', vlo', bs', d1)" by (metis prod.exhaust)
  have "element_client.ok (tokens_inv ?a (values_inv (action_parsed sc) (bindings_inv sc B0)))
      (eo, tlo, vlo, bindingsByAction s, d)"
    using ok d B0 Some x by (simp add: action_ok_iff bindings_inv_iff binding_observer_ok_def)
  then have "element_client.ok (tokens_inv ?a (values_inv (action_parsed sc) (bindings_inv sc B0)))
      (eo', tlo', vlo', bs', d1)"
    unfolding v [symmetric] by (rule action_tokens.tokens.attributes.observer.ok_deliver)
  then show ?thesis
    using r v Some x
    by (auto simp: BindingObserver_deliver_def binding_observer_ok_def action_ok_iff bindings_inv_iff)
qed

lemma BindingObserver_stop_ok:
  assumes ok: "binding_observer_ok sch sc s" and B0: "\<forall>b\<in>B0. binding_scope b \<noteq> sc"
    and d: "dispatcher_has (B0 \<union> bindings_of sc s) d"
    and r: "BindingObserver_stop (s, d) = (s', d')"
  shows "s' = BindingObserver_new \<and> dispatcher_has B0 d'"
proof (cases "valueListObserver s")
  case None
  then show ?thesis
    using ok d r by (cases s) (auto simp: BindingObserver_stop_def BindingObserver_new_def binding_observer_ok_def)
next
  case (Some x)
  obtain eo tlo vlo where x: "x = (eo, tlo, vlo)" by (cases x)
  let ?bs = "bindingsByAction s"
  have l: "bindings_local sc (values_of (all_tokens tlo) vlo) ?bs"
    using ok Some x by (simp add: binding_observer_ok_def)
  have "map snd ?bs = map (\<lambda>a. \<lparr>binding_scope = sc, binding_action = a\<rparr>) (map fst ?bs)"
    using l by (auto simp: bindings_local_def)
  then have bs: "set (map snd ?bs) = bindings_of sc s" "distinct (map snd ?bs)"
    using l by (auto simp: bindings_local_def bindings_for_def distinct_map inj_on_def image_comp)
  have "dispatcher_has (B0 \<union> bindings_of sc s - set (map snd ?bs))
      (fold Dispatcher_bindingDisconnected (map snd ?bs) d)"
    using bs by (intro dispatch.fold_disconnected [OF d]) auto
  moreover have "B0 \<union> bindings_of sc s - set (map snd ?bs) = B0"
    using B0 unfolding bs(1) by (auto simp: bindings_for_def)
  moreover obtain eo' where "ValueListObserver_stop (eo, tlo, vlo, ?bs, d) = (eo', tlo, vlo, ?bs, d)"
    by (cases "started eo") (simp_all add: ValueListObserver_stop_def TokenListObserver_stop_def
        AttributeObserver_stop_def ElementObserver_stop_def)
  ultimately show ?thesis
    using r Some x by (auto simp: BindingObserver_stop_def BindingObserver_disconnectAllActions_def
        BindingObserver_new_def)
qed

end
