(* ===== verification/StringMapObserver.thy ===== *)
theory StringMapObserver
  imports Dom
begin

text \<open>
  The class \<open>StringMapObserver\<close> of \<^verbatim>\<open>src/gui/web/assets/scripts/stimulus.js\<close> (lines
  547-648): the attributes of one element for which the delegate has a key, with the values last
  seen. \<open>refreshAttribute\<close> compares one attribute with the map; \<open>refresh\<close> does so for all
  attributes that the element or the map has.
\<close>

section \<open>The class StringMapObserver\<close>

record 'd string_map_delegate =
  getStringMapKeyForAttribute :: "string \<Rightarrow> string option"
  stringMapKeyAdded :: "(string \<Rightarrow> string \<Rightarrow> 'd \<Rightarrow> 'd) option"
  stringMapValueChanged :: "(string option \<Rightarrow> string \<Rightarrow> 'd \<Rightarrow> 'd) option"
  stringMapKeyRemoved :: "(string \<Rightarrow> string \<Rightarrow> 'd \<Rightarrow> 'd) option"

record string_map_observer =
  sm_element :: nat
  sm_started :: bool
  stringMap :: "(string \<times> string) list"

definition StringMapObserver_new :: "nat \<Rightarrow> string_map_observer" where
  "StringMapObserver_new e = \<lparr>sm_element = e, sm_started = False, stringMap = []\<rparr>"

definition StringMapObserver_stringMapKeyAdded ::
    "'d string_map_delegate \<Rightarrow> string \<Rightarrow> string \<Rightarrow> 'd \<Rightarrow> 'd" where
  "StringMapObserver_stringMapKeyAdded del key name d =
     (case stringMapKeyAdded del of None \<Rightarrow> d | Some f \<Rightarrow> f key name d)"

definition StringMapObserver_stringMapValueChanged ::
    "'d string_map_delegate \<Rightarrow> string option \<Rightarrow> string \<Rightarrow> 'd \<Rightarrow> 'd" where
  "StringMapObserver_stringMapValueChanged del v key d =
     (case stringMapValueChanged del of None \<Rightarrow> d | Some f \<Rightarrow> f v key d)"

definition StringMapObserver_stringMapKeyRemoved ::
    "'d string_map_delegate \<Rightarrow> string \<Rightarrow> string \<Rightarrow> 'd \<Rightarrow> 'd" where
  "StringMapObserver_stringMapKeyRemoved del key name d =
     (case stringMapKeyRemoved del of None \<Rightarrow> d | Some f \<Rightarrow> f key name d)"

text \<open>
  \<open>undefined\<close> (no entry) and \<open>null\<close> (no attribute) are the same for \<^verbatim>\<open>!=\<close>.
\<close>

definition StringMapObserver_refreshAttribute ::
    "'d string_map_delegate \<Rightarrow> document \<Rightarrow> string \<Rightarrow> string_map_observer \<times> 'd \<Rightarrow> string_map_observer \<times> 'd" where
  "StringMapObserver_refreshAttribute del doc name sd =
     (let (s, d) = sd
      in case getStringMapKeyForAttribute del name of
           None \<Rightarrow> (s, d)
         | Some key \<Rightarrow>
             (let d = (if \<not> Map_has (stringMap s) name
                       then StringMapObserver_stringMapKeyAdded del key name d else d);
                  v = getAttribute doc (sm_element s) name;
                  d = (if Map_get (stringMap s) name \<noteq> v
                       then StringMapObserver_stringMapValueChanged del v key d else d)
              in case v of
                   None \<Rightarrow> (s\<lparr>stringMap := Map_delete name (stringMap s)\<rparr>,
                            StringMapObserver_stringMapKeyRemoved del key name d)
                 | Some v \<Rightarrow> (s\<lparr>stringMap := Map_set name v (stringMap s)\<rparr>, d)))"

definition StringMapObserver_currentAttributeNames :: "document \<Rightarrow> string_map_observer \<Rightarrow> string list" where
  "StringMapObserver_currentAttributeNames doc s = attributeNames doc (sm_element s)"

definition StringMapObserver_recordedAttributeNames :: "string_map_observer \<Rightarrow> string list" where
  "StringMapObserver_recordedAttributeNames s = map fst (stringMap s)"

definition StringMapObserver_knownAttributeNames :: "document \<Rightarrow> string_map_observer \<Rightarrow> string list" where
  "StringMapObserver_knownAttributeNames doc s =
     Set_of_array (StringMapObserver_currentAttributeNames doc s @ StringMapObserver_recordedAttributeNames s)"

definition StringMapObserver_refresh ::
    "'d string_map_delegate \<Rightarrow> document \<Rightarrow> string_map_observer \<times> 'd \<Rightarrow> string_map_observer \<times> 'd" where
  "StringMapObserver_refresh del doc sd =
     (if sm_started (fst sd) then
        fold (StringMapObserver_refreshAttribute del doc)
          (StringMapObserver_knownAttributeNames doc (fst sd)) sd
      else sd)"

text \<open>A mutation record is the name of an attribute, or none.\<close>

definition StringMapObserver_processMutation ::
    "'d string_map_delegate \<Rightarrow> document \<Rightarrow> string option \<Rightarrow> string_map_observer \<times> 'd \<Rightarrow> string_map_observer \<times> 'd" where
  "StringMapObserver_processMutation del doc attributeName sd =
     (case attributeName of
        None \<Rightarrow> sd
      | Some name \<Rightarrow> (if name = [] then sd else StringMapObserver_refreshAttribute del doc name sd))"

definition StringMapObserver_processMutations ::
    "'d string_map_delegate \<Rightarrow> document \<Rightarrow> string option list \<Rightarrow> string_map_observer \<times> 'd \<Rightarrow> string_map_observer \<times> 'd" where
  "StringMapObserver_processMutations del doc ms sd =
     (if sm_started (fst sd) then fold (StringMapObserver_processMutation del doc) ms sd else sd)"

definition StringMapObserver_start ::
    "'d string_map_delegate \<Rightarrow> document \<Rightarrow> string_map_observer \<times> 'd \<Rightarrow> string_map_observer \<times> 'd" where
  "StringMapObserver_start del doc sd =
     (let (s, d) = sd
      in if \<not> sm_started s then StringMapObserver_refresh del doc (s\<lparr>sm_started := True\<rparr>, d) else (s, d))"

definition StringMapObserver_stop :: "string_map_observer \<times> 'd \<Rightarrow> string_map_observer \<times> 'd" where
  "StringMapObserver_stop sd =
     (let (s, d) = sd in if sm_started s then (s\<lparr>sm_started := False\<rparr>, d) else (s, d))"

section \<open>The map follows the attributes\<close>

text \<open>What the observer should have for an attribute.\<close>

definition tracked :: "'d string_map_delegate \<Rightarrow> document \<Rightarrow> nat \<Rightarrow> string \<Rightarrow> string option" where
  "tracked del doc e name =
     (case getStringMapKeyForAttribute del name of None \<Rightarrow> None | Some _ \<Rightarrow> getAttribute doc e name)"

definition string_map_ok :: "'d string_map_delegate \<Rightarrow> string_map_observer \<Rightarrow> bool" where
  "string_map_ok del s \<longleftrightarrow> Map_wf (stringMap s) \<and>
     (\<forall>name v. Map_get (stringMap s) name = Some v \<longrightarrow> getStringMapKeyForAttribute del name \<noteq> None)"

lemma string_map_ok_new: "string_map_ok del (StringMapObserver_new e)"
  by (simp add: string_map_ok_def StringMapObserver_new_def)

lemma refreshAttribute_fst:
  "fst (StringMapObserver_refreshAttribute del doc name (s, d)) =
     (case getStringMapKeyForAttribute del name of
        None \<Rightarrow> s
      | Some _ \<Rightarrow> s\<lparr>stringMap := (case getAttribute doc (sm_element s) name of
            None \<Rightarrow> Map_delete name (stringMap s) | Some v \<Rightarrow> Map_set name v (stringMap s))\<rparr>)"
  by (simp add: StringMapObserver_refreshAttribute_def Let_def split: option.split)

lemma refreshAttribute_props:
  fixes del :: "'d string_map_delegate" and doc :: document and name :: string
  assumes "string_map_ok del (fst sd)"
  defines "sd' \<equiv> StringMapObserver_refreshAttribute del doc name sd"
  shows "string_map_ok del (fst sd')" "sm_element (fst sd') = sm_element (fst sd)"
    "sm_started (fst sd') = sm_started (fst sd)"
    "Map_get (stringMap (fst sd')) n =
       (if n = name then tracked del doc (sm_element (fst sd)) n else Map_get (stringMap (fst sd)) n)"
proof -
  obtain s d where sd: "sd = (s, d)" by (cases sd)
  have ok: "Map_wf (stringMap s)"
    and key: "\<And>n v. Map_get (stringMap s) n = Some v \<Longrightarrow> getStringMapKeyForAttribute del n \<noteq> None"
    using assms(1) by (auto simp: sd string_map_ok_def)
  have eq: "fst sd' = (case getStringMapKeyForAttribute del name of None \<Rightarrow> s
      | Some _ \<Rightarrow> s\<lparr>stringMap := (case getAttribute doc (sm_element s) name of
            None \<Rightarrow> Map_delete name (stringMap s) | Some v \<Rightarrow> Map_set name v (stringMap s))\<rparr>)"
    by (simp add: sd'_def sd refreshAttribute_fst)
  show "sm_element (fst sd') = sm_element (fst sd)" "sm_started (fst sd') = sm_started (fst sd)"
    unfolding eq sd by (simp_all split: option.split)
  have get: "Map_get (stringMap (fst sd')) n =
      (if n = name then tracked del doc (sm_element s) n else Map_get (stringMap s) n)" for n
  proof (cases "getStringMapKeyForAttribute del name")
    case None
    then have "Map_get (stringMap s) name = None" using key [of name] by (cases "Map_get (stringMap s) name") auto
    with None show ?thesis unfolding eq by (simp add: tracked_def)
  next
    case (Some k)
    then show ?thesis unfolding eq
      by (cases "getAttribute doc (sm_element s) name") (simp_all add: tracked_def)
  qed
  then show "Map_get (stringMap (fst sd')) n =
      (if n = name then tracked del doc (sm_element (fst sd)) n else Map_get (stringMap (fst sd)) n)"
    by (simp add: sd)
  have "Map_wf (stringMap (fst sd'))" unfolding eq using ok by (simp split: option.split)
  moreover have "getStringMapKeyForAttribute del n \<noteq> None" if "Map_get (stringMap (fst sd')) n = Some v" for n v
    using that key unfolding get by (auto simp: tracked_def split: if_splits option.splits)
  ultimately show "string_map_ok del (fst sd')" by (simp add: string_map_ok_def)
qed

lemma fold_refreshAttribute_props:
  fixes del :: "'d string_map_delegate" and doc :: document and names :: "string list"
  assumes "string_map_ok del (fst sd)"
  defines "sd' \<equiv> fold (StringMapObserver_refreshAttribute del doc) names sd"
  shows "string_map_ok del (fst sd') \<and> sm_element (fst sd') = sm_element (fst sd) \<and>
    sm_started (fst sd') = sm_started (fst sd) \<and>
    (\<forall>n. Map_get (stringMap (fst sd')) n =
       (if n \<in> set names then tracked del doc (sm_element (fst sd)) n else Map_get (stringMap (fst sd)) n))"
  using assms(1) unfolding sd'_def
proof (induction names arbitrary: sd)
  case (Cons name names)
  let ?sd = "StringMapObserver_refreshAttribute del doc name sd"
  note p = refreshAttribute_props [OF Cons.prems, of doc name]
  from Cons.IH [OF p(1)] p show ?case by auto
qed simp

lemma attributeNames_iff:
  "asciiLower n = n \<Longrightarrow> getAttribute doc e n \<noteq> None \<longleftrightarrow> n \<in> set (attributeNames doc e)"
  by (simp add: getAttribute_def attributeNames_def node_attribute_def Map_has_iff split: option.split)

text \<open>What is in the map after a refresh: names the element has, and names that were in it.\<close>

lemma refresh_every:
  assumes ok: "string_map_ok del (fst sd)" and started: "sm_started (fst sd)"
  shows "Map_get (stringMap (fst (StringMapObserver_refresh del doc sd))) n =
    (if n \<in> set (attributeNames doc (sm_element (fst sd))) \<or> Map_get (stringMap (fst sd)) n \<noteq> None
     then tracked del doc (sm_element (fst sd)) n else None)"
proof -
  let ?names = "StringMapObserver_knownAttributeNames doc (fst sd)"
  have "set ?names = set (attributeNames doc (sm_element (fst sd))) \<union> fst ` set (stringMap (fst sd))"
    by (simp add: StringMapObserver_knownAttributeNames_def StringMapObserver_currentAttributeNames_def
        StringMapObserver_recordedAttributeNames_def)
  then have "n \<in> set ?names \<longleftrightarrow> n \<in> set (attributeNames doc (sm_element (fst sd))) \<or> Map_get (stringMap (fst sd)) n \<noteq> None"
    by (auto simp: map_of_eq_None_iff)
  then show ?thesis
    using fold_refreshAttribute_props [OF ok, of doc ?names] started by (simp add: StringMapObserver_refresh_def)
qed

lemma refresh_follows:
  assumes ok: "string_map_ok del (fst sd)" and started: "sm_started (fst sd)" and n: "asciiLower n = n"
  shows "Map_get (stringMap (fst (StringMapObserver_refresh del doc sd))) n =
    tracked del doc (sm_element (fst sd)) n"
  using refresh_every [OF ok started, of doc n] attributeNames_iff [OF n, of doc "sm_element (fst sd)"]
  by (auto simp: tracked_def split: option.split)

lemma StringMapObserver_start_ok:
  "string_map_ok del (fst sd) \<Longrightarrow> string_map_ok del (fst (StringMapObserver_start del doc sd))"
proof -
  assume ok: "string_map_ok del (fst sd)"
  obtain s d where sd: "sd = (s, d)" by (cases sd)
  from ok have "string_map_ok del (fst (s\<lparr>sm_started := True\<rparr>, d))" by (simp add: sd string_map_ok_def)
  from fold_refreshAttribute_props [OF this] ok show ?thesis
    by (simp add: StringMapObserver_start_def StringMapObserver_refresh_def sd)
qed

lemma StringMapObserver_deliver_ok:
  "string_map_ok del (fst sd) \<Longrightarrow> string_map_ok del (fst (StringMapObserver_processMutations del doc ms sd))"
proof -
  have "string_map_ok del (fst (fold (StringMapObserver_processMutation del doc) ms sd))"
    if "string_map_ok del (fst sd)" for sd
    using that
    by (induction ms arbitrary: sd)
      (simp_all add: StringMapObserver_processMutation_def refreshAttribute_props split: option.split)
  then show "string_map_ok del (fst sd) \<Longrightarrow> ?thesis"
    by (simp add: StringMapObserver_processMutations_def)
qed

lemma StringMapObserver_stop_ok:
  "string_map_ok del (fst sd) \<Longrightarrow> string_map_ok del (fst (StringMapObserver_stop sd))"
  by (cases sd) (simp add: StringMapObserver_stop_def string_map_ok_def)

section \<open>What is reported\<close>

text \<open>
  A change of one attribute is reported with the new value exactly when it differs from the one
  last seen, a key is added with its first value and removed with its last.
\<close>

definition refresh_report :: "'d string_map_delegate \<Rightarrow> string \<Rightarrow> string \<Rightarrow> string option \<Rightarrow> string option \<Rightarrow> 'd \<Rightarrow> 'd" where
  "refresh_report del key name old new d =
     (let d = (if old = None then StringMapObserver_stringMapKeyAdded del key name d else d);
          d = (if old \<noteq> new then StringMapObserver_stringMapValueChanged del new key d else d)
      in if new = None then StringMapObserver_stringMapKeyRemoved del key name d else d)"

lemma refreshAttribute_report:
  "snd (StringMapObserver_refreshAttribute del doc name (s, d)) =
     (case getStringMapKeyForAttribute del name of
        None \<Rightarrow> d
      | Some key \<Rightarrow> refresh_report del key name (Map_get (stringMap s) name)
                     (getAttribute doc (sm_element s) name) d)"
  by (auto simp: StringMapObserver_refreshAttribute_def refresh_report_def Let_def map_of_eq_None_iff
      split: option.split)

section \<open>What the callbacks leave alone\<close>

definition callbacks_keep :: "'d string_map_delegate \<Rightarrow> ('d \<Rightarrow> 'x) \<Rightarrow> bool" where
  "callbacks_keep del f \<longleftrightarrow>
     (\<forall>key name d. f (StringMapObserver_stringMapKeyAdded del key name d) = f d) \<and>
     (\<forall>v key d. f (StringMapObserver_stringMapValueChanged del v key d) = f d) \<and>
     (\<forall>key name d. f (StringMapObserver_stringMapKeyRemoved del key name d) = f d)"

lemma refreshAttribute_keeps:
  "callbacks_keep del f \<Longrightarrow> f (snd (StringMapObserver_refreshAttribute del doc name sd)) = f (snd sd)"
  by (cases sd) (simp add: refreshAttribute_report refresh_report_def callbacks_keep_def Let_def split: option.split)

lemma StringMapObserver_start_keeps:
  assumes "callbacks_keep del f"
  shows "f (snd (StringMapObserver_start del doc sd)) = f (snd sd)"
proof -
  have "f (snd (fold (StringMapObserver_refreshAttribute del doc) names sd)) = f (snd sd)" for names sd
    by (induction names arbitrary: sd) (simp_all add: refreshAttribute_keeps [OF assms])
  then show ?thesis
    by (cases sd) (simp add: StringMapObserver_start_def StringMapObserver_refresh_def)
qed

lemma StringMapObserver_processMutations_keeps:
  assumes "callbacks_keep del f"
  shows "f (snd (StringMapObserver_processMutations del doc ms sd)) = f (snd sd)"
proof -
  have "f (snd (fold (StringMapObserver_processMutation del doc) ms sd)) = f (snd sd)" for sd
    by (induction ms arbitrary: sd)
      (simp_all add: StringMapObserver_processMutation_def refreshAttribute_keeps [OF assms] split: option.split)
  then show ?thesis by (simp add: StringMapObserver_processMutations_def)
qed

lemma StringMapObserver_stop_keeps [simp]: "snd (StringMapObserver_stop sd) = snd sd"
  by (cases sd) (simp add: StringMapObserver_stop_def)

end
