(* ===== verification/Router.thy ===== *)
theory Router
  imports ScopeObserver BindingObserver StringMapObserver Blessings
begin

text \<open>
  The classes \<open>ValueObserver\<close>, \<open>Context\<close>, \<open>Module\<close> and \<open>Router\<close> of
  \<^verbatim>\<open>src/gui/web/assets/scripts/stimulus.js\<close> (lines 1061-1225, 1327-1378, 1712-1820). A module
  belongs to a registered identifier and has a context for each of its scopes; the router tells
  the modules which scopes are connected. What the controllers do in their lifecycle methods is
  a parameter; an exception they throw goes to the log.
\<close>

section \<open>Controllers\<close>

text \<open>
  \<open>changed_method c name\<close> is the method \<open><name>Changed\<close>, which gets the current value; the
  model leaves it to the method to read it from the document.
\<close>

record 'u controller_class =
  value_declarations :: "(string \<times> type_constant) list"
  changed_method :: "string \<Rightarrow> (document \<Rightarrow> scope \<Rightarrow> 'u \<Rightarrow> 'u) option"
  initialize_method :: "document \<Rightarrow> scope \<Rightarrow> 'u \<Rightarrow> 'u \<times> string option"
  connect_method :: "document \<Rightarrow> scope \<Rightarrow> 'u \<Rightarrow> 'u \<times> string option"
  disconnect_method :: "document \<Rightarrow> scope \<Rightarrow> 'u \<Rightarrow> 'u \<times> string option"

record 'u env =
  env_dispatcher :: dispatcher
  env_user :: 'u
  env_log :: "(string \<times> string) list"

section \<open>The class ValueObserver\<close>

text \<open>
  A declaration of an unknown type throws already when the class is registered; the model lets
  such a class have no values.
\<close>

definition descriptors_of :: "'u controller_class \<Rightarrow> scope \<Rightarrow> (string \<times> value_descriptor) list" where
  "descriptors_of cls sc = (case valueDescriptorMap sc (value_declarations cls) of Inl _ \<Rightarrow> [] | Inr m \<Rightarrow> m)"

text \<open>
  The test \<open>attributeName in this.valueDescriptorMap\<close> is also true for the property
  \<open>constructor\<close> every object inherits, whose \<open>name\<close> is \<open>Object\<close> (and for \<^verbatim>\<open>__proto__\<close>, which has no name).
\<close>

definition ValueObserver_getStringMapKeyForAttribute ::
    "'u controller_class \<Rightarrow> scope \<Rightarrow> string \<Rightarrow> string option" where
  "ValueObserver_getStringMapKeyForAttribute cls sc attributeName =
     (case Map_get (descriptors_of cls sc) attributeName of
        Some vd \<Rightarrow> Some (v_name vd)
      | None \<Rightarrow> (if attributeName = ''constructor'' then Some ''Object'' else None))"

definition ValueObserver_invokeChangedCallbackForValue ::
    "'u controller_class \<Rightarrow> document \<Rightarrow> scope \<Rightarrow> string \<Rightarrow> 'u env \<Rightarrow> 'u env" where
  "ValueObserver_invokeChangedCallbackForValue cls doc sc name env =
     (case changed_method cls (name @ ''Changed'') of
        None \<Rightarrow> env
      | Some meth \<Rightarrow> env\<lparr>env_user := meth doc sc (env_user env)\<rparr>)"

definition ValueObserver_invokeChangedCallbacksForDefaultValues ::
    "'u controller_class \<Rightarrow> document \<Rightarrow> scope \<Rightarrow> 'u env \<Rightarrow> 'u env" where
  "ValueObserver_invokeChangedCallbacksForDefaultValues cls doc sc env =
     fold (\<lambda>(_, vd) env.
         if \<not> DataMap_has doc sc (v_key vd)
         then ValueObserver_invokeChangedCallbackForValue cls doc sc (v_name vd) env else env)
       (descriptors_of cls sc) env"

definition ValueObserver_delegate ::
    "'u controller_class \<Rightarrow> document \<Rightarrow> scope \<Rightarrow> 'u env string_map_delegate" where
  "ValueObserver_delegate cls doc sc =
     \<lparr>getStringMapKeyForAttribute = ValueObserver_getStringMapKeyForAttribute cls sc,
      stringMapKeyAdded = None,
      stringMapValueChanged = Some (\<lambda>v name. ValueObserver_invokeChangedCallbackForValue cls doc sc name),
      stringMapKeyRemoved = None\<rparr>"

section \<open>The class Context\<close>

record context_state =
  context_scope :: scope
  bindingObserver :: binding_observer
  valueObserver :: string_map_observer

text \<open>A lifecycle method in its \<^verbatim>\<open>try\<close> block.\<close>

definition lifecycle ::
    "(document \<Rightarrow> scope \<Rightarrow> 'u \<Rightarrow> 'u \<times> string option) \<Rightarrow> string \<Rightarrow> document \<Rightarrow> scope \<Rightarrow> 'u env \<Rightarrow> 'u env" where
  "lifecycle meth message doc sc env =
     (let (u, thrown) = meth doc sc (env_user env); env = env\<lparr>env_user := u\<rparr>
      in case thrown of
           None \<Rightarrow> env
         | Some e \<Rightarrow> env\<lparr>env_log := env_log env @ [(e, ''Error '' @ message)]\<rparr>)"

definition Context_new ::
    "'u controller_class \<Rightarrow> document \<Rightarrow> scope \<Rightarrow> 'u env \<Rightarrow> context_state \<times> 'u env" where
  "Context_new cls doc sc env =
     (let env = ValueObserver_invokeChangedCallbacksForDefaultValues cls doc sc env;
          env = lifecycle (initialize_method cls) ''initializing controller'' doc sc env
      in (\<lparr>context_scope = sc, bindingObserver = BindingObserver_new,
           valueObserver = StringMapObserver_new (scope_element sc)\<rparr>, env))"

definition Context_connect ::
    "schema \<Rightarrow> 'u controller_class \<Rightarrow> document \<Rightarrow> context_state \<times> 'u env \<Rightarrow> context_state \<times> 'u env" where
  "Context_connect sch cls doc ce =
     (let (c, env) = ce; sc = context_scope c;
          (bo, d) = BindingObserver_start sch sc doc (bindingObserver c, env_dispatcher env);
          env = env\<lparr>env_dispatcher := d\<rparr>;
          (vo, env) = StringMapObserver_start (ValueObserver_delegate cls doc sc) doc (valueObserver c, env);
          env = lifecycle (connect_method cls) ''connecting controller'' doc sc env
      in (c\<lparr>bindingObserver := bo, valueObserver := vo\<rparr>, env))"

definition Context_disconnect ::
    "'u controller_class \<Rightarrow> document \<Rightarrow> context_state \<times> 'u env \<Rightarrow> context_state \<times> 'u env" where
  "Context_disconnect cls doc ce =
     (let (c, env) = ce; sc = context_scope c;
          env = lifecycle (disconnect_method cls) ''disconnecting controller'' doc sc env;
          (vo, env) = StringMapObserver_stop (valueObserver c, env);
          (bo, d) = BindingObserver_stop (bindingObserver c, env_dispatcher env);
          env = env\<lparr>env_dispatcher := d\<rparr>
      in (c\<lparr>bindingObserver := bo, valueObserver := vo\<rparr>, env))"

section \<open>The class Module\<close>

text \<open>A module's contexts are known by their scopes; \<open>connectedContexts\<close> is the \<open>Set\<close> of those.\<close>

record 'u module =
  module_identifier :: string
  controllerConstructor :: "'u controller_class"
  contextsByScope :: "(scope \<times> context_state) list"
  connectedContexts :: "scope list"

definition Module_new :: "string \<Rightarrow> 'u controller_class \<Rightarrow> 'u module" where
  "Module_new ident cls =
     \<lparr>module_identifier = ident, controllerConstructor = cls, contextsByScope = [], connectedContexts = []\<rparr>"

definition Module_contexts :: "'u module \<Rightarrow> context_state list" where
  "Module_contexts m = map (\<lambda>sc. the (Map_get (contextsByScope m) sc)) (connectedContexts m)"

definition Module_fetchContextForScope ::
    "document \<Rightarrow> scope \<Rightarrow> 'u module \<times> 'u env \<Rightarrow> ('u module \<times> 'u env) \<times> context_state" where
  "Module_fetchContextForScope doc sc me =
     (let (m, env) = me
      in case Map_get (contextsByScope m) sc of
           Some c \<Rightarrow> ((m, env), c)
         | None \<Rightarrow>
             (let (c, env) = Context_new (controllerConstructor m) doc sc env
              in ((m\<lparr>contextsByScope := Map_set sc c (contextsByScope m)\<rparr>, env), c)))"

definition Module_connectContextForScope ::
    "schema \<Rightarrow> document \<Rightarrow> scope \<Rightarrow> 'u module \<times> 'u env \<Rightarrow> 'u module \<times> 'u env" where
  "Module_connectContextForScope sch doc sc me =
     (let ((m, env), c) = Module_fetchContextForScope doc sc me;
          m = m\<lparr>connectedContexts := Set_add sc (connectedContexts m)\<rparr>;
          (c, env) = Context_connect sch (controllerConstructor m) doc (c, env)
      in (m\<lparr>contextsByScope := Map_set sc c (contextsByScope m)\<rparr>, env))"

definition Module_disconnectContextForScope ::
    "document \<Rightarrow> scope \<Rightarrow> 'u module \<times> 'u env \<Rightarrow> 'u module \<times> 'u env" where
  "Module_disconnectContextForScope doc sc me =
     (let (m, env) = me
      in case Map_get (contextsByScope m) sc of
           None \<Rightarrow> (m, env)
         | Some c \<Rightarrow>
             (let m = m\<lparr>connectedContexts := Set_delete sc (connectedContexts m)\<rparr>;
                  (c, env) = Context_disconnect (controllerConstructor m) doc (c, env)
              in (m\<lparr>contextsByScope := Map_set sc c (contextsByScope m)\<rparr>, env)))"

section \<open>The class Router\<close>

record 'u router =
  scopesByIdentifier :: "(string, scope) multimap_state"
  modulesByIdentifier :: "(string \<times> 'u module) list"

definition Router_new :: "'u router" where
  "Router_new = \<lparr>scopesByIdentifier = Multimap_new, modulesByIdentifier = []\<rparr>"

definition Router_createScopeForElementAndIdentifier :: "nat \<Rightarrow> string \<Rightarrow> scope" where
  "Router_createScopeForElementAndIdentifier e ident = \<lparr>scope_element = e, scope_identifier = ident\<rparr>"

definition Router_scopeConnected ::
    "schema \<Rightarrow> document \<Rightarrow> scope \<Rightarrow> 'u router \<times> 'u env \<Rightarrow> 'u router \<times> 'u env" where
  "Router_scopeConnected sch doc sc re =
     (let (r, env) = re;
          r = r\<lparr>scopesByIdentifier := Multimap_add (scopesByIdentifier r) (scope_identifier sc) sc\<rparr>
      in case Map_get (modulesByIdentifier r) (scope_identifier sc) of
           None \<Rightarrow> (r, env)
         | Some m \<Rightarrow>
             (let (m, env) = Module_connectContextForScope sch doc sc (m, env)
              in (r\<lparr>modulesByIdentifier := Map_set (scope_identifier sc) m (modulesByIdentifier r)\<rparr>, env)))"

definition Router_scopeDisconnected ::
    "document \<Rightarrow> scope \<Rightarrow> 'u router \<times> 'u env \<Rightarrow> 'u router \<times> 'u env" where
  "Router_scopeDisconnected doc sc re =
     (let (r, env) = re;
          r = r\<lparr>scopesByIdentifier := Multimap_delete (scopesByIdentifier r) (scope_identifier sc) sc\<rparr>
      in case Map_get (modulesByIdentifier r) (scope_identifier sc) of
           None \<Rightarrow> (r, env)
         | Some m \<Rightarrow>
             (let (m, env) = Module_disconnectContextForScope doc sc (m, env)
              in (r\<lparr>modulesByIdentifier := Map_set (scope_identifier sc) m (modulesByIdentifier r)\<rparr>, env)))"

definition Router_connectModule ::
    "schema \<Rightarrow> document \<Rightarrow> 'u module \<Rightarrow> 'u router \<times> 'u env \<Rightarrow> 'u router \<times> 'u env" where
  "Router_connectModule sch doc m re =
     (let (r, env) = re;
          scopes = Multimap_getValuesForKey (scopesByIdentifier r) (module_identifier m);
          (m, env) = fold (Module_connectContextForScope sch doc) scopes (m, env)
      in (r\<lparr>modulesByIdentifier := Map_set (module_identifier m) m (modulesByIdentifier r)\<rparr>, env))"

definition Router_disconnectModule ::
    "document \<Rightarrow> 'u module \<Rightarrow> 'u router \<times> 'u env \<Rightarrow> 'u router \<times> 'u env" where
  "Router_disconnectModule doc m re =
     (let (r, env) = re;
          r = r\<lparr>modulesByIdentifier := Map_delete (module_identifier m) (modulesByIdentifier r)\<rparr>;
          scopes = Multimap_getValuesForKey (scopesByIdentifier r) (module_identifier m);
          (m, env) = fold (Module_disconnectContextForScope doc) scopes (m, env)
      in (r, env))"

definition Router_unloadIdentifier :: "document \<Rightarrow> string \<Rightarrow> 'u router \<times> 'u env \<Rightarrow> 'u router \<times> 'u env" where
  "Router_unloadIdentifier doc ident re =
     (case Map_get (modulesByIdentifier (fst re)) ident of
        None \<Rightarrow> re
      | Some m \<Rightarrow> Router_disconnectModule doc m re)"

definition Router_loadDefinition ::
    "schema \<Rightarrow> document \<Rightarrow> string \<times> 'u controller_class \<Rightarrow> 'u router \<times> 'u env \<Rightarrow> 'u router \<times> 'u env" where
  "Router_loadDefinition sch doc definition re =
     (let (ident, cls) = definition;
          re = Router_unloadIdentifier doc ident re;
          m = Module_new ident cls
      in Router_connectModule sch doc m re)"

definition Router_contexts :: "'u router \<Rightarrow> context_state list" where
  "Router_contexts r =
     foldl (\<lambda>contexts m. contexts @ Module_contexts m) [] (map snd (modulesByIdentifier r))"

definition Router_getContextForElementAndIdentifier :: "nat \<Rightarrow> string \<Rightarrow> 'u router \<Rightarrow> context_state option" where
  "Router_getContextForElementAndIdentifier e ident r =
     (case Map_get (modulesByIdentifier r) ident of
        None \<Rightarrow> None
      | Some m \<Rightarrow> List.find (\<lambda>c. scope_element (context_scope c) = e) (Module_contexts m))"

definition Router_delegate :: "schema \<Rightarrow> ('u router \<times> 'u env) scope_delegate" where
  "Router_delegate sch =
     \<lparr>createScopeForElementAndIdentifier = Router_createScopeForElementAndIdentifier,
      scopeConnected = Router_scopeConnected sch,
      scopeDisconnected = Router_scopeDisconnected\<rparr>"

end
