(* ===== verification/Router_Invariant.thy ===== *)
theory Router_Invariant
  imports Router
begin

text \<open>
  The invariant of the router: whatever is registered, started and changed, a module has exactly
  the scopes of its identifier connected, a connected context observes its actions and a
  disconnected one has no binding, and the dispatcher has the bindings of the contexts and no
  others.
\<close>

section \<open>What leaves the dispatcher alone\<close>

lemma lifecycle_dispatcher [simp]: "env_dispatcher (lifecycle meth message doc sc env) = env_dispatcher env"
  by (simp add: lifecycle_def Let_def split: prod.split option.split)

lemma changed_dispatcher [simp]:
  "env_dispatcher (ValueObserver_invokeChangedCallbackForValue cls doc sc name env) = env_dispatcher env"
  by (simp add: ValueObserver_invokeChangedCallbackForValue_def split: option.split)

lemma defaults_dispatcher [simp]:
  "env_dispatcher (ValueObserver_invokeChangedCallbacksForDefaultValues cls doc sc env) = env_dispatcher env"
proof -
  have "env_dispatcher (fold (\<lambda>(_, vd) env. if P vd then ValueObserver_invokeChangedCallbackForValue cls doc sc (v_name vd) env
      else env) vds env) = env_dispatcher env" for P vds
    by (induction vds arbitrary: env) auto
  then show ?thesis by (simp add: ValueObserver_invokeChangedCallbacksForDefaultValues_def)
qed

lemma value_callbacks_keep: "callbacks_keep (ValueObserver_delegate cls doc sc) env_dispatcher"
  by (simp add: callbacks_keep_def ValueObserver_delegate_def StringMapObserver_stringMapKeyAdded_def
      StringMapObserver_stringMapValueChanged_def StringMapObserver_stringMapKeyRemoved_def)

section \<open>Contexts\<close>

definition context_ok :: "schema \<Rightarrow> scope \<Rightarrow> bool \<Rightarrow> context_state \<Rightarrow> bool" where
  "context_ok sch sc connected c \<longleftrightarrow> context_scope c = sc \<and> binding_observer_ok sch sc (bindingObserver c) \<and>
     (valueListObserver (bindingObserver c) \<noteq> None \<longleftrightarrow> connected)"

abbreviation context_bindings :: "scope \<Rightarrow> context_state \<Rightarrow> binding set" where
  "context_bindings sc c \<equiv> bindings_of sc (bindingObserver c)"

lemma Context_new_ok:
  "Context_new cls doc sc env = (c, env') \<Longrightarrow>
     context_ok sch sc False c \<and> context_bindings sc c = {} \<and> env_dispatcher env' = env_dispatcher env"
  by (auto simp: Context_new_def context_ok_def Let_def) (simp_all add: BindingObserver_new_def)

lemma Context_connect_ok:
  assumes c: "context_ok sch sc b c" and B0: "\<forall>b\<in>B0. binding_scope b \<noteq> sc"
    and d: "dispatcher_has (B0 \<union> context_bindings sc c) (env_dispatcher env)"
    and r: "Context_connect sch cls doc (c, env) = (c', env')"
  shows "context_ok sch sc True c' \<and> dispatcher_has (B0 \<union> context_bindings sc c') (env_dispatcher env')"
proof -
  have sc: "context_scope c = sc" and bo: "binding_observer_ok sch sc (bindingObserver c)"
    using c by (simp_all add: context_ok_def)
  obtain bo' d' where b: "BindingObserver_start sch sc doc (bindingObserver c, env_dispatcher env) = (bo', d')"
    by (cases "BindingObserver_start sch sc doc (bindingObserver c, env_dispatcher env)")
  note ok = BindingObserver_start_ok [OF bo B0 d b]
  obtain vo env2 where v: "StringMapObserver_start (ValueObserver_delegate cls doc sc) doc
      (valueObserver c, env\<lparr>env_dispatcher := d'\<rparr>) = (vo, env2)"
    by (cases "StringMapObserver_start (ValueObserver_delegate cls doc sc) doc
      (valueObserver c, env\<lparr>env_dispatcher := d'\<rparr>)")
  then have "env_dispatcher env2 = d'"
    using StringMapObserver_start_keeps [OF value_callbacks_keep, of cls doc sc doc
        "(valueObserver c, env\<lparr>env_dispatcher := d'\<rparr>)"] by simp
  then have "env_dispatcher env' = d'" "bindingObserver c' = bo'" "context_scope c' = sc"
    using r sc b v by (auto simp: Context_connect_def Let_def)
  with ok show ?thesis by (simp add: context_ok_def)
qed

lemma Context_disconnect_ok:
  assumes c: "context_ok sch sc b c" and B0: "\<forall>b\<in>B0. binding_scope b \<noteq> sc"
    and d: "dispatcher_has (B0 \<union> context_bindings sc c) (env_dispatcher env)"
    and r: "Context_disconnect cls doc (c, env) = (c', env')"
  shows "context_ok sch sc False c' \<and> dispatcher_has (B0 \<union> context_bindings sc c') (env_dispatcher env')"
proof -
  have sc: "context_scope c = sc" and bo: "binding_observer_ok sch sc (bindingObserver c)"
    using c by (simp_all add: context_ok_def)
  obtain bo' d' where b: "BindingObserver_stop (bindingObserver c, env_dispatcher env) = (bo', d')"
    by (cases "BindingObserver_stop (bindingObserver c, env_dispatcher env)")
  note ok = BindingObserver_stop_ok [OF bo B0 d b]
  have "env_dispatcher env' = d'" "bindingObserver c' = bo'" "context_scope c' = sc"
    using r sc b by (auto simp: Context_disconnect_def Let_def StringMapObserver_stop_def split: if_splits)
  with ok show ?thesis by (simp add: context_ok_def) (simp add: BindingObserver_new_def)
qed

section \<open>Modules\<close>

definition module_bindings :: "'u module \<Rightarrow> binding set" where
  "module_bindings m = {b. \<exists>sc c. Map_get (contextsByScope m) sc = Some c \<and> b \<in> context_bindings sc c}"

definition module_ok :: "schema \<Rightarrow> string \<Rightarrow> scope set \<Rightarrow> 'u module \<Rightarrow> bool" where
  "module_ok sch ident C m \<longleftrightarrow> module_identifier m = ident \<and> set (connectedContexts m) = C \<and>
     distinct (connectedContexts m) \<and> Map_wf (contextsByScope m) \<and>
     (\<forall>sc\<in>C. Map_get (contextsByScope m) sc \<noteq> None) \<and>
     (\<forall>sc c. Map_get (contextsByScope m) sc = Some c \<longrightarrow>
        scope_identifier sc = ident \<and> context_ok sch sc (sc \<in> C) c)"

definition other_bindings :: "scope \<Rightarrow> 'u module \<Rightarrow> binding set" where
  "other_bindings sc m =
     {b. \<exists>sc' c. sc' \<noteq> sc \<and> Map_get (contextsByScope m) sc' = Some c \<and> b \<in> context_bindings sc' c}"

lemma scope_of_bindings: "b \<in> bindings_of sc s \<Longrightarrow> binding_scope b = sc"
  by (auto simp: bindings_for_def)

lemma module_bindings_scope:
  "module_ok sch ident C m \<Longrightarrow> b \<in> module_bindings m \<Longrightarrow> scope_identifier (binding_scope b) = ident"
  by (auto simp: module_bindings_def module_ok_def dest!: scope_of_bindings)

lemma other_bindings_scope: "\<forall>b\<in>other_bindings sc m. binding_scope b \<noteq> sc"
  by (auto simp: other_bindings_def dest: scope_of_bindings)

lemma module_bindings_split:
  "module_bindings m = other_bindings sc m \<union>
     (case Map_get (contextsByScope m) sc of None \<Rightarrow> {} | Some c \<Rightarrow> context_bindings sc c)"
proof (intro set_eqI iffI)
  fix b assume "b \<in> module_bindings m"
  then obtain sc' c where c: "Map_get (contextsByScope m) sc' = Some c" "b \<in> context_bindings sc' c"
    by (auto simp: module_bindings_def)
  show "b \<in> other_bindings sc m \<union>
     (case Map_get (contextsByScope m) sc of None \<Rightarrow> {} | Some c \<Rightarrow> context_bindings sc c)"
  proof (cases "sc' = sc")
    case False
    with c show ?thesis by (auto simp: other_bindings_def)
  qed (use c in simp)
qed (auto simp: module_bindings_def other_bindings_def split: option.splits)

lemma module_set_context:
  assumes "module_ok sch ident C m" "scope_identifier sc = ident" "context_ok sch sc b c"
    and "C' = (if b then insert sc C else C - {sc})"
    and "set cs = C'" "distinct cs"
  shows "module_ok sch ident C'
      (m\<lparr>connectedContexts := cs, contextsByScope := Map_set sc c (contextsByScope m)\<rparr>)"
    and "module_bindings (m\<lparr>connectedContexts := cs, contextsByScope := Map_set sc c (contextsByScope m)\<rparr>) =
      other_bindings sc m \<union> context_bindings sc c"
proof -
  show "module_ok sch ident C'
      (m\<lparr>connectedContexts := cs, contextsByScope := Map_set sc c (contextsByScope m)\<rparr>)"
    using assms unfolding module_ok_def by (cases b) auto
  show "module_bindings (m\<lparr>connectedContexts := cs, contextsByScope := Map_set sc c (contextsByScope m)\<rparr>) =
      other_bindings sc m \<union> context_bindings sc c"
    by (auto simp: module_bindings_def other_bindings_def split: if_splits)
qed

lemma Module_fetch_ok:
  assumes m: "module_ok sch ident C m"
    and f: "Module_fetchContextForScope doc sc (m, env) = ((m1, env1), c)"
  shows "(\<exists>b. context_ok sch sc b c) \<and> env_dispatcher env1 = env_dispatcher env \<and>
    module_bindings m = other_bindings sc m \<union> context_bindings sc c \<and>
    connectedContexts m1 = connectedContexts m \<and>
    m1\<lparr>connectedContexts := cs, contextsByScope := Map_set sc c' (contextsByScope m1)\<rparr> =
      m\<lparr>connectedContexts := cs, contextsByScope := Map_set sc c' (contextsByScope m)\<rparr>"
proof (cases "Map_get (contextsByScope m) sc")
  case None
  obtain c1 env2 where n: "Context_new (controllerConstructor m) doc sc env = (c1, env2)"
    by (cases "Context_new (controllerConstructor m) doc sc env")
  with f None have "c = c1" "env1 = env2" "m1 = m\<lparr>contextsByScope := Map_set sc c1 (contextsByScope m)\<rparr>"
    by (auto simp: Module_fetchContextForScope_def)
  with Context_new_ok [OF n, of sch] module_bindings_split [of m sc] None show ?thesis by auto
next
  case (Some c1)
  with f have "c = c1" "env1 = env" "m1 = m" by (simp_all add: Module_fetchContextForScope_def)
  moreover have "context_ok sch sc (sc \<in> C) c1" using m Some unfolding module_ok_def by blast
  ultimately show ?thesis using module_bindings_split [of m sc] Some by auto
qed

lemma Module_connect_ok:
  assumes m: "module_ok sch ident C m" and sc: "scope_identifier sc = ident"
    and B0: "\<forall>b\<in>B0. scope_identifier (binding_scope b) \<noteq> ident"
    and d: "dispatcher_has (B0 \<union> module_bindings m) (env_dispatcher env)"
    and r: "Module_connectContextForScope sch doc sc (m, env) = (m', env')"
  shows "module_ok sch ident (insert sc C) m' \<and> dispatcher_has (B0 \<union> module_bindings m') (env_dispatcher env')"
proof -
  obtain m1 env1 c where f: "Module_fetchContextForScope doc sc (m, env) = ((m1, env1), c)"
    by (metis prod.exhaust)
  note fetched = Module_fetch_ok [OF m f]
  define B1 where "B1 = B0 \<union> other_bindings sc m"
  have B1: "\<forall>b\<in>B1. binding_scope b \<noteq> sc"
    using B0 sc other_bindings_scope unfolding B1_def by blast
  obtain c' env2 where cc: "Context_connect sch (controllerConstructor m1) doc (c, env1) = (c', env2)"
    by (cases "Context_connect sch (controllerConstructor m1) doc (c, env1)")
  have "dispatcher_has (B1 \<union> context_bindings sc c) (env_dispatcher env1)"
    using d fetched by (simp add: B1_def Un_assoc)
  from fetched Context_connect_ok [OF _ B1 this cc]
  have ok: "context_ok sch sc True c'" "dispatcher_has (B1 \<union> context_bindings sc c') (env_dispatcher env2)"
    by blast+
  let ?cs = "Set_add sc (connectedContexts m)"
  have "set ?cs = insert sc C" "distinct ?cs" using m by (simp_all add: module_ok_def)
  note new = module_set_context [OF m sc ok(1), of "insert sc C", OF _ this]
  have "m' = m\<lparr>connectedContexts := ?cs, contextsByScope := Map_set sc c' (contextsByScope m)\<rparr>" "env' = env2"
    using r f cc fetched by (auto simp: Module_connectContextForScope_def Let_def)
  with new ok(2) show ?thesis by (simp add: B1_def Un_assoc)
qed

lemma Module_disconnect_ok:
  assumes m: "module_ok sch ident C m" and sc: "scope_identifier sc = ident" "sc \<in> C"
    and B0: "\<forall>b\<in>B0. scope_identifier (binding_scope b) \<noteq> ident"
    and d: "dispatcher_has (B0 \<union> module_bindings m) (env_dispatcher env)"
    and r: "Module_disconnectContextForScope doc sc (m, env) = (m', env')"
  shows "module_ok sch ident (C - {sc}) m' \<and> dispatcher_has (B0 \<union> module_bindings m') (env_dispatcher env')"
proof -
  obtain c where c: "Map_get (contextsByScope m) sc = Some c"
    using m sc(2) unfolding module_ok_def by blast
  have "context_ok sch sc (sc \<in> C) c" using m c unfolding module_ok_def by blast
  with sc(2) have cok: "context_ok sch sc True c" by simp
  define B1 where "B1 = B0 \<union> other_bindings sc m"
  have B1: "\<forall>b\<in>B1. binding_scope b \<noteq> sc"
    using B0 sc other_bindings_scope unfolding B1_def by blast
  obtain c' env2 where cc: "Context_disconnect (controllerConstructor m) doc (c, env) = (c', env2)"
    by (cases "Context_disconnect (controllerConstructor m) doc (c, env)")
  have "dispatcher_has (B1 \<union> context_bindings sc c) (env_dispatcher env)"
    using d c module_bindings_split [of m sc] by (simp add: B1_def Un_assoc)
  note ok = Context_disconnect_ok [OF cok B1 this cc]
  let ?cs = "Set_delete sc (connectedContexts m)"
  have "set ?cs = C - {sc}" "distinct ?cs" using m by (simp_all add: module_ok_def)
  note new = module_set_context [OF m sc(1) conjunct1 [OF ok], of "C - {sc}", OF _ this]
  have "m' = m\<lparr>connectedContexts := ?cs, contextsByScope := Map_set sc c' (contextsByScope m)\<rparr>" "env' = env2"
    using r c cc by (auto simp: Module_disconnectContextForScope_def Let_def)
  with new ok show ?thesis by (simp add: B1_def Un_assoc)
qed

lemma Module_connect_all:
  assumes "module_ok sch ident C m" "\<forall>sc\<in>set scs. scope_identifier sc = ident"
    and B0: "\<forall>b\<in>B0. scope_identifier (binding_scope b) \<noteq> ident"
    and "dispatcher_has (B0 \<union> module_bindings m) (env_dispatcher env)"
    and "fold (Module_connectContextForScope sch doc) scs (m, env) = (m', env')"
  shows "module_ok sch ident (C \<union> set scs) m' \<and> dispatcher_has (B0 \<union> module_bindings m') (env_dispatcher env')"
  using assms(1,2,4,5)
proof (induction scs arbitrary: C m env)
  case (Cons sc scs)
  obtain m1 env1 where one: "Module_connectContextForScope sch doc sc (m, env) = (m1, env1)"
    by (cases "Module_connectContextForScope sch doc sc (m, env)")
  note ok = Module_connect_ok [OF Cons.prems(1) _ B0 Cons.prems(3) one]
  with Cons.IH [of "insert sc C" m1 env1] Cons.prems one show ?case by simp
qed simp

lemma Module_disconnect_all:
  assumes "module_ok sch ident C m" "\<forall>sc\<in>set scs. scope_identifier sc = ident" "set scs \<subseteq> C" "distinct scs"
    and B0: "\<forall>b\<in>B0. scope_identifier (binding_scope b) \<noteq> ident"
    and "dispatcher_has (B0 \<union> module_bindings m) (env_dispatcher env)"
    and "fold (Module_disconnectContextForScope doc) scs (m, env) = (m', env')"
  shows "module_ok sch ident (C - set scs) m' \<and> dispatcher_has (B0 \<union> module_bindings m') (env_dispatcher env')"
  using assms(1-4,6,7)
proof (induction scs arbitrary: C m env)
  case (Cons sc scs)
  obtain m1 env1 where one: "Module_disconnectContextForScope doc sc (m, env) = (m1, env1)"
    by (cases "Module_disconnectContextForScope doc sc (m, env)")
  have "scope_identifier sc = ident" "sc \<in> C" using Cons.prems by auto
  note ok = Module_disconnect_ok [OF Cons.prems(1) this B0 Cons.prems(5) one]
  have "set scs \<subseteq> C - {sc}" using Cons.prems by auto
  moreover have "C - {sc} - set scs = C - set (sc # scs)" by auto
  ultimately show ?case using Cons.IH [of "C - {sc}" m1 env1] Cons.prems one ok by simp
qed simp

section \<open>The router\<close>

definition router_bindings :: "(string \<times> 'u module) list \<Rightarrow> binding set" where
  "router_bindings ms = {b. \<exists>ident m. Map_get ms ident = Some m \<and> b \<in> module_bindings m}"

definition scopes_with :: "string \<Rightarrow> scope set \<Rightarrow> scope set" where
  "scopes_with ident S = {sc \<in> S. scope_identifier sc = ident}"

definition router_ok :: "schema \<Rightarrow> scope set \<Rightarrow> 'u router \<times> 'u env \<Rightarrow> bool" where
  "router_ok sch S re \<longleftrightarrow>
     Multimap_wf (scopesByIdentifier (fst re)) \<and>
     Multimap_rel (scopesByIdentifier (fst re)) = (\<lambda>sc. (scope_identifier sc, sc)) ` S \<and>
     Map_wf (modulesByIdentifier (fst re)) \<and>
     (\<forall>ident m. Map_get (modulesByIdentifier (fst re)) ident = Some m \<longrightarrow>
        module_ok sch ident (scopes_with ident S) m) \<and>
     dispatcher_has (router_bindings (modulesByIdentifier (fst re))) (env_dispatcher (snd re))"

lemma router_bindings_set:
  "router_bindings (Map_set ident m ms) = router_bindings (Map_delete ident ms) \<union> module_bindings m"
  by (auto simp: router_bindings_def split: if_splits)

lemma router_bindings_split:
  "router_bindings ms = router_bindings (Map_delete ident ms) \<union>
     (case Map_get ms ident of None \<Rightarrow> {} | Some m \<Rightarrow> module_bindings m)"
proof (cases "Map_get ms ident")
  case None
  then have "Map_get (Map_delete ident ms) = Map_get ms" by (auto simp: fun_eq_iff)
  with None show ?thesis by (simp add: router_bindings_def)
next
  case (Some m)
  then have "Map_get (Map_set ident m ms) = Map_get ms" by (auto simp: fun_eq_iff)
  then have "router_bindings (Map_set ident m ms) = router_bindings ms" by (simp add: router_bindings_def)
  with Some router_bindings_set [of ident m ms] show ?thesis by simp
qed

lemma router_scopes:
  assumes "router_ok sch S re"
  shows "set (Multimap_getValuesForKey (scopesByIdentifier (fst re)) ident) = scopes_with ident S"
    and "distinct (Multimap_getValuesForKey (scopesByIdentifier (fst re)) ident)"
  using assms by (auto simp: router_ok_def mm.values_rel mm.distinct_values scopes_with_def)

lemma rest_bindings:
  assumes "router_ok sch S re"
  shows "\<forall>b\<in>router_bindings (Map_delete ident (modulesByIdentifier (fst re))).
    scope_identifier (binding_scope b) \<noteq> ident"
proof
  fix b assume "b \<in> router_bindings (Map_delete ident (modulesByIdentifier (fst re)))"
  then obtain i m where "Map_get (Map_delete ident (modulesByIdentifier (fst re))) i = Some m"
    and b: "b \<in> module_bindings m"
    unfolding router_bindings_def by blast
  then have i: "i \<noteq> ident" "Map_get (modulesByIdentifier (fst re)) i = Some m"
    by (simp_all split: if_splits)
  with assms have "module_ok sch i (scopes_with i S) m" unfolding router_ok_def by blast
  with b i(1) show "scope_identifier (binding_scope b) \<noteq> ident" by (simp add: module_bindings_scope)
qed

lemma scopes_with_insert:
  "scopes_with ident (insert sc S) =
     (if ident = scope_identifier sc then insert sc (scopes_with ident S) else scopes_with ident S)"
  "scopes_with ident (S - {sc}) =
     (if ident = scope_identifier sc then scopes_with ident S - {sc} else scopes_with ident S)"
  by (auto simp: scopes_with_def)

lemma router_ok_new: "dispatcher_has {} (env_dispatcher env) \<Longrightarrow> router_ok sch {} (Router_new, env)"
  by (simp add: router_ok_def Router_new_def mm.wf_empty mm.rel_empty router_bindings_def)

lemma Router_scopeConnected_ok:
  assumes ok: "router_ok sch S re" and new: "sc \<notin> S"
  shows "router_ok sch (insert sc S) (Router_scopeConnected sch doc sc re)"
proof -
  let ?id = "scope_identifier sc"
  obtain r env where re: "re = (r, env)" by (cases re)
  let ?r = "r\<lparr>scopesByIdentifier := Multimap_add (scopesByIdentifier r) ?id sc\<rparr>"
  let ?rest = "router_bindings (Map_delete ?id (modulesByIdentifier r))"
  have mm: "Multimap_wf (scopesByIdentifier ?r)"
    "Multimap_rel (scopesByIdentifier ?r) = (\<lambda>sc. (scope_identifier sc, sc)) ` insert sc S"
    using ok by (simp_all add: router_ok_def re mm.wf_add mm.rel_add)
  show ?thesis
  proof (cases "Map_get (modulesByIdentifier r) ?id")
    case None
    have "module_ok sch ident (scopes_with ident (insert sc S)) m"
      if "Map_get (modulesByIdentifier r) ident = Some m" for ident m
      using that None ok by (auto simp: router_ok_def re scopes_with_insert)
    with None mm ok show ?thesis
      by (simp add: Router_scopeConnected_def re router_ok_def)
  next
    case (Some m)
    obtain m' env' where one: "Module_connectContextForScope sch doc sc (m, env) = (m', env')"
      by (cases "Module_connectContextForScope sch doc sc (m, env)")
    have "module_ok sch ?id (scopes_with ?id S) m" using ok Some by (simp add: router_ok_def re)
    moreover have "dispatcher_has (?rest \<union> module_bindings m) (env_dispatcher env)"
      using ok router_bindings_split [of "modulesByIdentifier r" ?id] Some by (simp add: router_ok_def re)
    ultimately have m': "module_ok sch ?id (insert sc (scopes_with ?id S)) m'"
        "dispatcher_has (?rest \<union> module_bindings m') (env_dispatcher env')"
      using Module_connect_ok [OF _ refl rest_bindings [OF ok] _ one, where C = "scopes_with ?id S"] by (simp_all add: re)
    have "module_ok sch ident (scopes_with ident (insert sc S)) m1"
      if "Map_get (Map_set ?id m' (modulesByIdentifier r)) ident = Some m1" for ident m1
      using that ok m'(1) by (auto simp: router_ok_def re scopes_with_insert split: if_splits)
    moreover have "Router_scopeConnected sch doc sc re =
        (?r\<lparr>modulesByIdentifier := Map_set ?id m' (modulesByIdentifier r)\<rparr>, env')"
      by (simp add: Router_scopeConnected_def re Some one)
    ultimately show ?thesis
      using ok mm m'(2) by (simp add: router_ok_def re router_bindings_set del: Map_get_set)
  qed
qed

lemma Router_scopeDisconnected_ok:
  assumes ok: "router_ok sch S re" and old: "sc \<in> S"
  shows "router_ok sch (S - {sc}) (Router_scopeDisconnected doc sc re)"
proof -
  let ?id = "scope_identifier sc"
  obtain r env where re: "re = (r, env)" by (cases re)
  let ?r = "r\<lparr>scopesByIdentifier := Multimap_delete (scopesByIdentifier r) ?id sc\<rparr>"
  let ?rest = "router_bindings (Map_delete ?id (modulesByIdentifier r))"
  have mm: "Multimap_wf (scopesByIdentifier ?r)"
    "Multimap_rel (scopesByIdentifier ?r) = (\<lambda>sc. (scope_identifier sc, sc)) ` (S - {sc})"
    using ok by (auto simp: router_ok_def re mm.wf_delete mm.rel_delete)
  show ?thesis
  proof (cases "Map_get (modulesByIdentifier r) ?id")
    case None
    have "module_ok sch ident (scopes_with ident (S - {sc})) m"
      if "Map_get (modulesByIdentifier r) ident = Some m" for ident m
      using that None ok by (auto simp: router_ok_def re scopes_with_insert)
    with None mm ok show ?thesis
      by (simp add: Router_scopeDisconnected_def re router_ok_def)
  next
    case (Some m)
    obtain m' env' where one: "Module_disconnectContextForScope doc sc (m, env) = (m', env')"
      by (cases "Module_disconnectContextForScope doc sc (m, env)")
    have "module_ok sch ?id (scopes_with ?id S) m" using ok Some by (simp add: router_ok_def re)
    moreover have "sc \<in> scopes_with ?id S" using old by (simp add: scopes_with_def)
    moreover have "dispatcher_has (?rest \<union> module_bindings m) (env_dispatcher env)"
      using ok router_bindings_split [of "modulesByIdentifier r" ?id] Some by (simp add: router_ok_def re)
    ultimately have m': "module_ok sch ?id (scopes_with ?id S - {sc}) m'"
        "dispatcher_has (?rest \<union> module_bindings m') (env_dispatcher env')"
      using Module_disconnect_ok [OF _ refl _ rest_bindings [OF ok] _ one, where C = "scopes_with ?id S"]
      by (simp_all add: re)
    have "module_ok sch ident (scopes_with ident (S - {sc})) m1"
      if "Map_get (Map_set ?id m' (modulesByIdentifier r)) ident = Some m1" for ident m1
      using that ok m'(1) by (auto simp: router_ok_def re scopes_with_insert split: if_splits)
    moreover have "Router_scopeDisconnected doc sc re =
        (?r\<lparr>modulesByIdentifier := Map_set ?id m' (modulesByIdentifier r)\<rparr>, env')"
      by (simp add: Router_scopeDisconnected_def re Some one)
    ultimately show ?thesis
      using ok mm m'(2) by (simp add: router_ok_def re router_bindings_set del: Map_get_set)
  qed
qed

interpretation router_scopes: scope_client "Router_delegate sch" doc "router_ok sch" for sch doc
  by unfold_locales
    (simp_all add: Router_delegate_def Router_createScopeForElementAndIdentifier_def
      Router_scopeConnected_ok Router_scopeDisconnected_ok)

section \<open>Loading and unloading definitions\<close>

lemma Router_unload_ok:
  assumes ok: "router_ok sch S re"
  shows "router_ok sch S (Router_unloadIdentifier doc ident re) \<and>
    Map_get (modulesByIdentifier (fst (Router_unloadIdentifier doc ident re))) ident = None \<and>
    scopesByIdentifier (fst (Router_unloadIdentifier doc ident re)) = scopesByIdentifier (fst re) \<and>
    modulesByIdentifier (fst (Router_unloadIdentifier doc ident re)) =
      Map_delete ident (modulesByIdentifier (fst re))"
proof -
  obtain r env where re: "re = (r, env)" by (cases re)
  let ?rest = "router_bindings (Map_delete ident (modulesByIdentifier r))"
  show ?thesis
  proof (cases "Map_get (modulesByIdentifier r) ident")
    case None
    then have "Map_delete ident (modulesByIdentifier r) = modulesByIdentifier r"
      by (auto simp: map_of_eq_None_iff delete_id)
    with None ok show ?thesis by (simp add: Router_unloadIdentifier_def re)
  next
    case (Some m)
    let ?scs = "Multimap_getValuesForKey (scopesByIdentifier r) ident"
    have m: "module_ok sch ident (scopes_with ident S) m" using ok Some by (simp add: router_ok_def re)
    then have id: "module_identifier m = ident" by (simp add: module_ok_def)
    obtain m' env' where all: "fold (Module_disconnectContextForScope doc) ?scs (m, env) = (m', env')"
      by (cases "fold (Module_disconnectContextForScope doc) ?scs (m, env)")
    have scs: "set ?scs = scopes_with ident S" "distinct ?scs" using router_scopes [OF ok] by (simp_all add: re)
    have "dispatcher_has (?rest \<union> module_bindings m) (env_dispatcher env)"
      using ok router_bindings_split [of "modulesByIdentifier r" ident] Some by (simp add: router_ok_def re)
    from Module_disconnect_all [OF m _ _ _ _ this all] rest_bindings [OF ok, of ident] scs
    have m': "module_ok sch ident {} m'" "dispatcher_has (?rest \<union> module_bindings m') (env_dispatcher env')"
      by (simp_all add: re scopes_with_def)
    have "context_bindings sc c = {}" if "Map_get (contextsByScope m') sc = Some c" for sc c
    proof -
      have "context_ok sch sc False c" using m'(1) that by (simp add: module_ok_def)
      then show ?thesis
        by (cases "valueListObserver (bindingObserver c)") (simp_all add: context_ok_def binding_observer_ok_def)
    qed
    then have "module_bindings m' = {}" by (auto simp: module_bindings_def)
    moreover have eq: "Router_unloadIdentifier doc ident re =
        (r\<lparr>modulesByIdentifier := Map_delete ident (modulesByIdentifier r)\<rparr>, env')"
      by (simp add: Router_unloadIdentifier_def Router_disconnectModule_def re Some id all Let_def)
    ultimately show ?thesis
      using ok m'(2) unfolding eq by (auto simp: router_ok_def re split: if_splits)
  qed
qed

lemma Router_load_ok:
  assumes ok: "router_ok sch S re"
  shows "router_ok sch S (Router_loadDefinition sch doc (ident, cls) re) \<and>
    (\<exists>m. Map_get (modulesByIdentifier (fst (Router_loadDefinition sch doc (ident, cls) re))) ident = Some m \<and>
       module_ok sch ident (scopes_with ident S) m \<and>
       modulesByIdentifier (fst (Router_loadDefinition sch doc (ident, cls) re)) =
         Map_set ident m (Map_delete ident (modulesByIdentifier (fst re))))"
proof -
  obtain r env where re: "Router_unloadIdentifier doc ident re = (r, env)"
    by (cases "Router_unloadIdentifier doc ident re")
  from Router_unload_ok [OF ok, of doc ident] have ok': "router_ok sch S (r, env)"
    and none: "Map_get (modulesByIdentifier r) ident = None"
    and modules: "modulesByIdentifier r = Map_delete ident (modulesByIdentifier (fst re))" by (simp_all add: re)
  let ?m = "Module_new ident cls" and ?scs = "Multimap_getValuesForKey (scopesByIdentifier r) ident"
  obtain m' env' where all: "fold (Module_connectContextForScope sch doc) ?scs (?m, env) = (m', env')"
    by (cases "fold (Module_connectContextForScope sch doc) ?scs (?m, env)")
  have scs: "set ?scs = scopes_with ident S" using router_scopes [OF ok'] by simp
  have m: "module_ok sch ident {} ?m" by (simp add: module_ok_def Module_new_def)
  have del: "Map_delete ident (modulesByIdentifier r) = modulesByIdentifier r"
    using none by (auto simp: map_of_eq_None_iff delete_id)
  have "module_bindings ?m = {}" by (simp add: module_bindings_def Module_new_def)
  then have "dispatcher_has (router_bindings (modulesByIdentifier r) \<union> module_bindings ?m) (env_dispatcher env)"
    using ok' by (simp add: router_ok_def)
  from Module_connect_all [OF m _ _ this all] rest_bindings [OF ok', of ident] scs
  have m': "module_ok sch ident (scopes_with ident S) m'"
      "dispatcher_has (router_bindings (modulesByIdentifier r) \<union> module_bindings m') (env_dispatcher env')"
    by (simp_all add: del scopes_with_def)
  have "module_identifier ?m = ident" "module_identifier m' = ident"
    using m'(1) by (simp_all add: Module_new_def module_ok_def)
  then have eq: "Router_loadDefinition sch doc (ident, cls) re =
      (r\<lparr>modulesByIdentifier := Map_set ident m' (modulesByIdentifier r)\<rparr>, env')"
    by (simp add: Router_loadDefinition_def re Router_connectModule_def all Let_def)
  have "module_ok sch i (scopes_with i S) m1" if "Map_get (Map_set ident m' (modulesByIdentifier r)) i = Some m1"
    for i m1 using that ok' m'(1) by (auto simp: router_ok_def split: if_splits)
  then have "router_ok sch S (r\<lparr>modulesByIdentifier := Map_set ident m' (modulesByIdentifier r)\<rparr>, env')"
    using ok' m' by (simp add: router_ok_def router_bindings_set del del: Map_get_set)
  moreover have "Map_get (Map_set ident m' (modulesByIdentifier r)) ident = Some m'" by simp
  ultimately show ?thesis unfolding eq fst_conv using m'(1) modules by (intro conjI exI [of _ m']) simp_all
qed

end
