(* ===== verification/Application.thy ===== *)
theory Application
  imports Router_Invariant
begin

text \<open>
  The class \<open>Application\<close> of \<^verbatim>\<open>src/gui/web/assets/scripts/stimulus.js\<close> (lines 1821-1975):
  the dispatcher, the router with its scope observer, and the runs of an application: starting
  (once the document is ready), stopping, loading and unloading definitions, and the records the
  browser delivers to the observers, in any order and for any documents.
\<close>

section \<open>The class Application\<close>

record 'u application =
  app_schema :: schema
  app_observers :: "element_observer \<times> token_list_observer \<times> scope value_list_observer \<times> scope_observer"
  app_router :: "'u router"
  app_env :: "'u env"

definition app_stack :: "'u application \<Rightarrow> ('u router \<times> 'u env) scope_stack" where
  "app_stack a =
     (case app_observers a of (eo, tlo, vlo, so) \<Rightarrow> (eo, tlo, vlo, so, app_router a, app_env a))"

definition with_stack :: "('u router \<times> 'u env) scope_stack \<Rightarrow> 'u application \<Rightarrow> 'u application" where
  "with_stack st a =
     (case st of (eo, tlo, vlo, so, r, env) \<Rightarrow>
        a\<lparr>app_observers := (eo, tlo, vlo, so), app_router := r, app_env := env\<rparr>)"

definition with_router :: "'u router \<times> 'u env \<Rightarrow> 'u application \<Rightarrow> 'u application" where
  "with_router re a = a\<lparr>app_router := fst re, app_env := snd re\<rparr>"

definition Application_new :: "nat \<Rightarrow> schema \<Rightarrow> 'u \<Rightarrow> 'u application" where
  "Application_new e sch u =
     \<lparr>app_schema = sch,
      app_observers = (ElementObserver_new e, TokenListObserver_new, ValueListObserver_new, ScopeObserver_new),
      app_router = Router_new,
      app_env = \<lparr>env_dispatcher = Dispatcher_new, env_user = u, env_log = []\<rparr>\<rparr>"

definition Router_start :: "document \<Rightarrow> 'u application \<Rightarrow> 'u application" where
  "Router_start doc a =
     with_stack (ScopeObserver_start (app_schema a) (Router_delegate (app_schema a)) doc (app_stack a)) a"

definition Router_stop :: "'u application \<Rightarrow> 'u application" where
  "Router_stop a = with_stack (ScopeObserver_stop (app_stack a)) a"

definition map_dispatcher :: "(dispatcher \<Rightarrow> dispatcher) \<Rightarrow> 'u application \<Rightarrow> 'u application" where
  "map_dispatcher f a =
     a\<lparr>app_env := (app_env a)\<lparr>env_dispatcher := f (env_dispatcher (app_env a))\<rparr>\<rparr>"

text \<open>What \<open>start\<close> does once \<open>domReady\<close> has resolved.\<close>

definition Application_start :: "document \<Rightarrow> 'u application \<Rightarrow> 'u application" where
  "Application_start doc a = Router_start doc (map_dispatcher Dispatcher_start a)"

definition Application_stop :: "'u application \<Rightarrow> 'u application" where
  "Application_stop a = Router_stop (map_dispatcher Dispatcher_stop a)"

definition Application_load ::
    "document \<Rightarrow> (string \<times> 'u controller_class) list \<Rightarrow> 'u application \<Rightarrow> 'u application" where
  "Application_load doc definitions a =
     with_router (fold (Router_loadDefinition (app_schema a) doc) definitions (app_router a, app_env a)) a"

definition Application_register ::
    "document \<Rightarrow> string \<Rightarrow> 'u controller_class \<Rightarrow> 'u application \<Rightarrow> 'u application" where
  "Application_register doc ident cls a = Application_load doc [(ident, cls)] a"

definition Application_unload :: "document \<Rightarrow> string list \<Rightarrow> 'u application \<Rightarrow> 'u application" where
  "Application_unload doc idents a =
     with_router (fold (Router_unloadIdentifier doc) idents (app_router a, app_env a)) a"

definition Application_controllers :: "'u application \<Rightarrow> context_state list" where
  "Application_controllers a = Router_contexts (app_router a)"

definition Application_getControllerForElementAndIdentifier ::
    "nat \<Rightarrow> string \<Rightarrow> 'u application \<Rightarrow> context_state option" where
  "Application_getControllerForElementAndIdentifier e ident a =
     Router_getContextForElementAndIdentifier e ident (app_router a)"

text \<open>The browser's deliveries.\<close>

definition deliver_scopes :: "document \<Rightarrow> mutation list \<Rightarrow> 'u application \<Rightarrow> 'u application" where
  "deliver_scopes doc ms a =
     with_stack (ScopeObserver_deliver (app_schema a) (Router_delegate (app_schema a)) doc ms (app_stack a)) a"

definition map_context ::
    "('u controller_class \<Rightarrow> context_state \<times> 'u env \<Rightarrow> context_state \<times> 'u env) \<Rightarrow> scope \<Rightarrow> 'u application \<Rightarrow> 'u application" where
  "map_context f sc a =
     (case Map_get (modulesByIdentifier (app_router a)) (scope_identifier sc) of
        None \<Rightarrow> a
      | Some m \<Rightarrow>
          (case Map_get (contextsByScope m) sc of
             None \<Rightarrow> a
           | Some c \<Rightarrow>
               (let (c, env) = f (controllerConstructor m) (c, app_env a);
                    m = m\<lparr>contextsByScope := Map_set sc c (contextsByScope m)\<rparr>;
                    r = (app_router a)\<lparr>modulesByIdentifier :=
                          Map_set (scope_identifier sc) m (modulesByIdentifier (app_router a))\<rparr>
                in a\<lparr>app_router := r, app_env := env\<rparr>)))"

definition context_records :: "mutation list \<Rightarrow> context_state \<times> 'u env \<Rightarrow> context_state \<times> 'u env" where
  "context_records ms ce =
     (let (c, env) = ce in (c\<lparr>bindingObserver := BindingObserver_record ms (bindingObserver c)\<rparr>, env))"

definition context_actions ::
    "schema \<Rightarrow> document \<Rightarrow> scope \<Rightarrow> context_state \<times> 'u env \<Rightarrow> context_state \<times> 'u env" where
  "context_actions sch doc sc ce =
     (let (c, env) = ce;
          (bo, d) = BindingObserver_deliver sch sc doc (bindingObserver c, env_dispatcher env)
      in (c\<lparr>bindingObserver := bo\<rparr>, env\<lparr>env_dispatcher := d\<rparr>))"

definition context_values ::
    "'u controller_class \<Rightarrow> document \<Rightarrow> string option list \<Rightarrow> scope \<Rightarrow> context_state \<times> 'u env \<Rightarrow>
       context_state \<times> 'u env" where
  "context_values cls doc ms sc ce =
     (let (c, env) = ce;
          (vo, env) = StringMapObserver_processMutations (ValueObserver_delegate cls doc sc) doc ms
                        (valueObserver c, env)
      in (c\<lparr>valueObserver := vo\<rparr>, env))"

inductive app_step :: "'u application \<Rightarrow> 'u application \<Rightarrow> bool" where
  start: "app_step a (Application_start doc a)"
| stop: "app_step a (Application_stop a)"
| load: "app_step a (Application_load doc definitions a)"
| unload: "app_step a (Application_unload doc idents a)"
| scopes: "app_step a (deliver_scopes doc ms a)"
| records: "app_step a (map_context (\<lambda>_. context_records ms) sc a)"
| actions: "app_step a (map_context (\<lambda>_. context_actions (app_schema a) doc sc) sc a)"
| changes: "app_step a (map_context (\<lambda>cls. context_values cls doc vs sc) sc a)"

inductive app_reachable :: "'u application \<Rightarrow> bool" where
  new: "app_reachable (Application_new e sch u)"
| step: "app_reachable a \<Longrightarrow> app_step a a' \<Longrightarrow> app_reachable a'"

section \<open>The invariant\<close>

definition app_scopes :: "'u application \<Rightarrow> token \<Rightarrow> scope option" where
  "app_scopes a = (case app_observers a of (eo, tlo, vlo, so) \<Rightarrow> values_of (all_tokens tlo) vlo)"

definition app_ok :: "'u application \<Rightarrow> bool" where
  "app_ok a \<longleftrightarrow> element_client.ok
     (tokens_inv (controllerAttribute (app_schema a))
       (values_inv scope_parsed (scopes_inv (router_ok (app_schema a))))) (app_stack a)"

lemma app_ok_iff:
  "app_ok a \<longleftrightarrow> (case app_observers a of (eo, tlo, vlo, so) \<Rightarrow>
     tokens_ok (controllerAttribute (app_schema a)) (set (elements eo)) tlo \<and>
     values_ok scope_parsed (all_tokens tlo) vlo \<and> scopes_local (app_scopes a) so \<and>
     router_ok (app_schema a) (ran (app_scopes a)) (app_router a, app_env a))"
  unfolding app_ok_def router_scopes.scope_values.tokens.attributes.observer.ok_def
  by (simp add: app_stack_def tokens_inv_def values_inv_def scopes_inv_def app_scopes_def split: prod.split)

lemma app_router_ok: "app_ok a \<Longrightarrow> router_ok (app_schema a) (ran (app_scopes a)) (app_router a, app_env a)"
  by (simp add: app_ok_iff split: prod.splits)

lemma app_stack_with [simp]:
  "app_stack (with_stack st a) = st" "app_schema (with_stack st a) = app_schema a"
  by (simp_all add: app_stack_def with_stack_def split: prod.split)

lemma app_ok_with_router:
  "app_ok a \<Longrightarrow> router_ok (app_schema a) (ran (app_scopes a)) re \<Longrightarrow> app_ok (with_router re a)"
  by (cases re) (auto simp: app_ok_iff with_router_def app_scopes_def split: prod.splits)

lemma app_ok_new: "app_ok (Application_new e sch u)"
proof -
  have "dispatcher_has {} Dispatcher_new" by (simp add: dispatcher_has_def)
  then show ?thesis
    by (simp add: app_ok_iff app_scopes_def Application_new_def tokens_ok_new values_ok_new router_ok_new
        scopes_local_def ScopeObserver_new_def cached_scope_def reference_count_def)
qed

lemma router_ok_dispatcher:
  assumes "router_ok sch S (r, env)"
    and "\<And>B d. dispatcher_has B d \<Longrightarrow> dispatcher_has B (f d)"
  shows "router_ok sch S (r, env\<lparr>env_dispatcher := f (env_dispatcher env)\<rparr>)"
  using assms by (simp add: router_ok_def)

lemma app_ok_map_dispatcher:
  assumes "app_ok a" "\<And>B d. dispatcher_has B d \<Longrightarrow> dispatcher_has B (f d)"
  shows "app_ok (map_dispatcher f a)"
proof -
  have "map_dispatcher f a = with_router (app_router a, (app_env a)\<lparr>env_dispatcher := f (env_dispatcher (app_env a))\<rparr>) a"
    by (simp add: map_dispatcher_def with_router_def)
  then show ?thesis
    using app_ok_with_router [OF assms(1) router_ok_dispatcher [OF app_router_ok [OF assms(1)] assms(2)]] by simp
qed

lemma dispatcher_has_start_stop:
  "dispatcher_has B d \<Longrightarrow> dispatcher_has B (Dispatcher_start d)"
  "dispatcher_has B d \<Longrightarrow> dispatcher_has B (Dispatcher_stop d)"
  by (simp_all add: dispatcher_has_def Dispatcher_start_props Dispatcher_stop_props)

lemma Router_start_ok: "app_ok a \<Longrightarrow> app_ok (Router_start doc a)"
  unfolding Router_start_def ScopeObserver_start_def ValueListObserver_start_def
    TokenListObserver_start_def AttributeObserver_start_def app_ok_def app_stack_with
  by (rule router_scopes.scope_values.tokens.attributes.observer.ok_start)

lemma Router_stop_ok: "app_ok a \<Longrightarrow> app_ok (Router_stop a)"
  unfolding Router_stop_def ScopeObserver_stop_def ValueListObserver_stop_def
    TokenListObserver_stop_def AttributeObserver_stop_def app_ok_def app_stack_with
  by (rule router_scopes.scope_values.tokens.attributes.observer.ok_stop)

lemma deliver_scopes_ok: "app_ok a \<Longrightarrow> app_ok (deliver_scopes doc ms a)"
  unfolding deliver_scopes_def ScopeObserver_deliver_def app_ok_def app_stack_with
  by (rule router_scopes.scope_values.tokens.attributes.observer.ok_processMutations)

lemma load_ok: "router_ok sch S re \<Longrightarrow> router_ok sch S (fold (Router_loadDefinition sch doc) ds re)"
proof (induction ds arbitrary: re)
  case (Cons p ds)
  then show ?case by (cases p) (simp add: Router_load_ok)
qed simp

lemma unload_ok: "router_ok sch S re \<Longrightarrow> router_ok sch S (fold (Router_unloadIdentifier doc) names re)"
  by (induction names arbitrary: re) (simp_all add: Router_unload_ok)

lemma map_context_ok:
  assumes ok: "app_ok a"
    and f: "\<And>cls B0 b c env c' env'. context_ok (app_schema a) sc b c \<Longrightarrow> \<forall>b\<in>B0. binding_scope b \<noteq> sc \<Longrightarrow>
      dispatcher_has (B0 \<union> context_bindings sc c) (env_dispatcher env) \<Longrightarrow> f cls (c, env) = (c', env') \<Longrightarrow>
      context_ok (app_schema a) sc b c' \<and> dispatcher_has (B0 \<union> context_bindings sc c') (env_dispatcher env')"
  shows "app_ok (map_context f sc a)"
proof (cases "Map_get (modulesByIdentifier (app_router a)) (scope_identifier sc)")
  case None
  with ok show ?thesis by (simp add: map_context_def)
next
  case (Some m)
  let ?id = "scope_identifier sc" and ?r = "app_router a" and ?S = "ran (app_scopes a)"
  have r: "router_ok (app_schema a) ?S (?r, app_env a)" by (rule app_router_ok [OF ok])
  then have m: "module_ok (app_schema a) ?id (scopes_with ?id ?S) m" using Some by (simp add: router_ok_def)
  show ?thesis
  proof (cases "Map_get (contextsByScope m) sc")
    case None
    with Some ok show ?thesis by (simp add: map_context_def)
  next
    case c: (Some c)
    let ?b = "sc \<in> scopes_with ?id ?S"
    have cok: "context_ok (app_schema a) sc ?b c" using m c unfolding module_ok_def by blast
    obtain c' env' where fc: "f (controllerConstructor m) (c, app_env a) = (c', env')"
      by (cases "f (controllerConstructor m) (c, app_env a)")
    let ?rest = "router_bindings (Map_delete ?id (modulesByIdentifier ?r))"
    define B0 where "B0 = ?rest \<union> other_bindings sc m"
    have "\<forall>b\<in>B0. binding_scope b \<noteq> sc"
      using rest_bindings [OF r, of ?id] other_bindings_scope unfolding B0_def by fastforce
    moreover have "dispatcher_has (B0 \<union> context_bindings sc c) (env_dispatcher (app_env a))"
      using r router_bindings_split [of "modulesByIdentifier ?r" ?id] Some module_bindings_split [of m sc] c
      by (simp add: router_ok_def B0_def Un_assoc)
    ultimately have new: "context_ok (app_schema a) sc ?b c'"
        "dispatcher_has (B0 \<union> context_bindings sc c') (env_dispatcher env')"
      using f [OF cok _ _ fc] by blast+
    let ?m = "m\<lparr>contextsByScope := Map_set sc c' (contextsByScope m)\<rparr>"
    have cs: "set (connectedContexts m) = (if ?b then insert sc (scopes_with ?id ?S) else scopes_with ?id ?S - {sc})"
      "distinct (connectedContexts m)" using m by (auto simp: module_ok_def)
    note mod = module_set_context [OF m refl new(1) refl cs]
    have meq: "m\<lparr>connectedContexts := connectedContexts m, contextsByScope := Map_set sc c' (contextsByScope m)\<rparr> = ?m"
      by simp
    have mok: "module_ok (app_schema a) ?id (scopes_with ?id ?S) ?m" and mb: "module_bindings ?m =
        other_bindings sc m \<union> context_bindings sc c'"
      using mod unfolding meq by (auto simp: insert_absorb split: if_splits)
    let ?r' = "?r\<lparr>modulesByIdentifier := Map_set ?id ?m (modulesByIdentifier ?r)\<rparr>"
    have "module_ok (app_schema a) i (scopes_with i ?S) m1"
      if "Map_get (Map_set ?id ?m (modulesByIdentifier ?r)) i = Some m1" for i m1
      using that r mok by (auto simp: router_ok_def split: if_splits)
    then have "router_ok (app_schema a) ?S (?r', env')"
      using r new(2) mb by (simp add: router_ok_def router_bindings_set B0_def Un_assoc del: Map_get_set)
    moreover have "map_context f sc a = with_router (?r', env') a"
      by (simp add: map_context_def Some c fc with_router_def)
    ultimately show ?thesis using app_ok_with_router [OF ok] by simp
  qed
qed

lemma app_schema_simps [simp]:
  "app_schema (map_dispatcher f a) = app_schema a" "app_schema (with_router re a) = app_schema a"
  by (simp_all add: map_dispatcher_def with_router_def)

lemma record_context_ok:
  "context_ok sch sc b (c\<lparr>bindingObserver := BindingObserver_record ms (bindingObserver c)\<rparr>) = context_ok sch sc b c"
  by (simp add: context_ok_def BindingObserver_record_ok del: not_None_eq)

lemma app_step_ok: "app_step a a' \<Longrightarrow> app_ok a \<Longrightarrow> app_ok a'"
proof (induction rule: app_step.induct)
  case (start a doc)
  then show ?case
    by (simp add: Application_start_def Router_start_ok app_ok_map_dispatcher dispatcher_has_start_stop)
next
  case (stop a)
  then show ?case
    by (simp add: Application_stop_def Router_stop_ok app_ok_map_dispatcher dispatcher_has_start_stop)
next
  case (load a doc definitions)
  then show ?case by (simp add: Application_load_def app_ok_with_router load_ok app_router_ok)
next
  case (unload a doc idents)
  then show ?case by (simp add: Application_unload_def app_ok_with_router unload_ok app_router_ok)
next
  case (scopes a doc ms)
  then show ?case by (rule deliver_scopes_ok)
next
  case (records a ms sc)
  then show ?case
    by (rule map_context_ok) (auto simp: context_records_def record_context_ok BindingObserver_record_ok)
next
  case (actions a doc sc)
  show ?case
  proof (rule map_context_ok [OF actions])
    fix B0 b c and env :: "'a env" and c' env'
    assume c: "context_ok (app_schema a) sc b c" and B0: "\<forall>b\<in>B0. binding_scope b \<noteq> sc"
      and d: "dispatcher_has (B0 \<union> context_bindings sc c) (env_dispatcher env)"
      and r: "context_actions (app_schema a) doc sc (c, env) = (c', env')"
    obtain bo d' where bo: "BindingObserver_deliver (app_schema a) sc doc (bindingObserver c, env_dispatcher env) = (bo, d')"
      by (cases "BindingObserver_deliver (app_schema a) sc doc (bindingObserver c, env_dispatcher env)")
    have "binding_observer_ok (app_schema a) sc (bindingObserver c)" using c by (simp add: context_ok_def)
    from BindingObserver_deliver_ok [OF this B0 d bo] c r bo
    show "context_ok (app_schema a) sc b c' \<and> dispatcher_has (B0 \<union> context_bindings sc c') (env_dispatcher env')"
      by (auto simp: context_actions_def context_ok_def)
  qed
next
  case (changes a doc vs sc)
  show ?case
  proof (rule map_context_ok [OF changes])
    fix cls :: "'a controller_class" and B0 b c and env :: "'a env" and c' env'
    assume c: "context_ok (app_schema a) sc b c"
      and d: "dispatcher_has (B0 \<union> context_bindings sc c) (env_dispatcher env)"
      and r: "context_values cls doc vs sc (c, env) = (c', env')"
    obtain vo env2 where v: "StringMapObserver_processMutations (ValueObserver_delegate cls doc sc) doc vs
        (valueObserver c, env) = (vo, env2)"
      by (cases "StringMapObserver_processMutations (ValueObserver_delegate cls doc sc) doc vs (valueObserver c, env)")
    then have "env_dispatcher env2 = env_dispatcher env"
      using StringMapObserver_processMutations_keeps [OF value_callbacks_keep, of cls doc sc doc vs "(valueObserver c, env)"]
      by simp
    with c d r v
    show "context_ok (app_schema a) sc b c' \<and> dispatcher_has (B0 \<union> context_bindings sc c') (env_dispatcher env')"
      by (auto simp: context_values_def context_ok_def)
  qed
qed

lemma app_reachable_ok: "app_reachable a \<Longrightarrow> app_ok a"
  by (induction rule: app_reachable.induct) (auto intro: app_ok_new app_step_ok)

section \<open>Which controllers there are\<close>

lemma app_scopes_value:
  assumes "app_ok a" "app_observers a = (eo, tlo, vlo, so)"
  shows "app_scopes a t = (if t \<in> all_tokens tlo then Some (token_scope t) else None)"
proof (cases "t \<in> all_tokens tlo")
  have v: "values_ok scope_parsed (all_tokens tlo) vlo" using assms by (simp add: app_ok_iff)
  case True
  then obtain r where "Map_get (parseResultsByToken vlo) t = Some r" "scope_parsed t r"
    using v unfolding values_ok_def by (meson not_None_eq)
  with True show ?thesis by (simp add: app_scopes_def assms(2) values_of_def scope_parsed_def)
qed (simp add: app_scopes_def assms(2) values_of_def)

lemma app_scopes_tokens:
  assumes "app_ok a" "app_observers a = (eo, tlo, vlo, so)"
  shows "ran (app_scopes a) = token_scope ` all_tokens tlo"
  by (auto simp: app_scopes_value [OF assms] ran_def image_iff split: if_splits)

text \<open>The scope of every word of the controller attribute of every element of the document.\<close>

definition document_scopes :: "schema \<Rightarrow> document \<Rightarrow> scope set" where
  "document_scopes sch doc =
     {sc. isConnected doc (scope_element sc) \<and>
          scope_identifier sc \<in> set (attribute_words (controllerAttribute sch) doc (scope_element sc))}"

lemma attribute_words_has: "w \<in> set (attribute_words a doc e) \<Longrightarrow> hasAttribute doc e a"
  by (cases "getAttribute doc e a") (auto simp: attribute_words_def hasAttribute_def)

lemma synced_scopes:
  assumes ok: "app_ok a" and obs: "app_observers a = (eo, tlo, vlo, so)"
    and sync: "tokens_synced (controllerAttribute (app_schema a)) doc (set (elements eo)) tlo"
    and els: "set (elements eo) = {e. isConnected doc e \<and> hasAttribute doc e (controllerAttribute (app_schema a))}"
  shows "ran (app_scopes a) = document_scopes (app_schema a) doc"
proof -
  let ?a = "controllerAttribute (app_schema a)"
  have t: "tokens_ok ?a (set (elements eo)) tlo" using ok obs by (simp add: app_ok_iff)
  have in_words: "w \<in> set (attribute_words ?a doc e) \<longleftrightarrow> (\<exists>t\<in>set (tokens_of tlo e). content t = w)"
    if "e \<in> set (elements eo)" for e w
    using sync that unfolding tokens_synced_def by (metis image_iff image_set)
  show ?thesis
    unfolding app_scopes_tokens [OF ok obs]
  proof (intro set_eqI iffI)
    fix sc assume "sc \<in> token_scope ` all_tokens tlo"
    then obtain t e where te: "sc = token_scope t" "t \<in> set (tokens_of tlo e)" by (auto simp: all_tokens_def)
    then have "e \<in> set (elements eo)" "token_element t = e"
      using t by (auto simp: tokens_ok_def)
    with te in_words [of e "content t"] els show "sc \<in> document_scopes (app_schema a) doc"
      by (auto simp: document_scopes_def token_scope_def)
  next
    fix sc assume sc: "sc \<in> document_scopes (app_schema a) doc"
    then have e: "scope_element sc \<in> set (elements eo)"
      using els by (auto simp: document_scopes_def dest: attribute_words_has)
    then obtain t' where t': "t' \<in> set (tokens_of tlo (scope_element sc))" "content t' = scope_identifier sc"
      using sc in_words by (auto simp: document_scopes_def)
    then have "token_element t' = scope_element sc" using t by (auto simp: tokens_ok_def)
    with t' show "sc \<in> token_scope ` all_tokens tlo"
      by (intro image_eqI [of _ _ t']) (auto simp: token_scope_def all_tokens_def)
  qed
qed

lemma contains_root: "document_wf doc \<Longrightarrow> contains doc (nid (root doc)) e \<longleftrightarrow> isConnected doc e"
  using get_node_in_tree [of doc "root doc" "root doc"]
  by (simp add: contains_def isConnected_def trees_def)

lemma started_elements:
  assumes wf: "document_wf doc" and eo: "eo = ElementObserver_new (nid (root doc))"
    and r: "ElementObserver_start (AttributeObserver_new name adel) doc (eo, d) = (eo', d')"
  shows "set (elements eo') = {e. isConnected doc e \<and> hasAttribute doc e name}"
proof -
  let ?s = "eo\<lparr>started := True, mutationObserver := Some []\<rparr>" and ?r = "nid (root doc)"
  have get: "get_node doc ?r = Some (root doc)"
    using get_node_in_tree [OF wf, of "root doc" "root doc"] by (simp add: trees_def)
  have s: "started ?s" "elements ?s = []" "element ?s = ?r" by (simp_all add: eo ElementObserver_new_def)
  have act: "ElementObserver_elementIsActive doc ?s e \<longleftrightarrow> isConnected doc e" for e
    using contains_root [OF wf, of e] s(3) by (simp add: ElementObserver_elementIsActive_def isConnected_def)
  have "ElementObserver_start (AttributeObserver_new name adel) doc (eo, d) =
      ElementObserver_refresh (AttributeObserver_new name adel) doc (?s, d)"
    by (simp add: ElementObserver_start_def eo ElementObserver_new_def)
  then have "elements eo' = filter (\<lambda>e. ElementObserver_elementIsActive doc ?s e)
      (Set_of_array (matchElementsInTree (AttributeObserver_new name adel) doc ?r))"
    using r refresh_eq [of ?s "AttributeObserver_new name adel" doc d] s by simp
  then have "set (elements eo') = {e \<in> set (AttributeObserver_matchElementsInTree name doc ?r). isConnected doc e}"
    using act by (simp add: AttributeObserver_new_def)
  then show ?thesis
    using set_matchElementsInTree [OF wf get, of name] contains_root [OF wf] by auto
qed

text \<open>A module's connected contexts, and the lookup of a controller.\<close>

lemma connected_scopes:
  assumes "module_ok sch ident C m"
  shows "map context_scope (Module_contexts m) = connectedContexts m"
proof -
  have "context_scope (the (Map_get (contextsByScope m) sc)) = sc" if "sc \<in> set (connectedContexts m)" for sc
    using assms that unfolding module_ok_def context_ok_def by fastforce
  then show ?thesis by (simp add: Module_contexts_def map_idI)
qed

lemma module_contexts:
  assumes "app_ok a" "Map_get (modulesByIdentifier (app_router a)) ident = Some m"
  shows "set (map context_scope (Module_contexts m)) = scopes_with ident (ran (app_scopes a))"
proof -
  have m: "module_ok (app_schema a) ident (scopes_with ident (ran (app_scopes a))) m"
    using app_router_ok [OF assms(1)] assms(2) by (simp add: router_ok_def)
  then show ?thesis unfolding connected_scopes [OF m] by (simp add: module_ok_def)
qed

lemma controller_lookup:
  assumes ok: "app_ok a"
  shows "Application_getControllerForElementAndIdentifier e ident a \<noteq> None \<longleftrightarrow>
    Map_has (modulesByIdentifier (app_router a)) ident \<and>
    \<lparr>scope_element = e, scope_identifier = ident\<rparr> \<in> ran (app_scopes a)"
proof (cases "Map_get (modulesByIdentifier (app_router a)) ident")
  case None
  then show ?thesis
    by (simp add: Application_getControllerForElementAndIdentifier_def
        Router_getContextForElementAndIdentifier_def Map_has_iff)
next
  case (Some m)
  then have has: "Map_has (modulesByIdentifier (app_router a)) ident" by (auto simp: Map_has_iff)
  note cs = module_contexts [OF ok Some]
  have "List.find (\<lambda>c. scope_element (context_scope c) = e) (Module_contexts m) \<noteq> None \<longleftrightarrow>
      (\<exists>sc\<in>set (map context_scope (Module_contexts m)). scope_element sc = e)"
    by (auto simp: find_None_iff)
  also have "\<dots> \<longleftrightarrow> \<lparr>scope_element = e, scope_identifier = ident\<rparr> \<in> ran (app_scopes a)"
  proof
    assume "\<exists>sc\<in>set (map context_scope (Module_contexts m)). scope_element sc = e"
    then obtain sc where "sc \<in> ran (app_scopes a)" "scope_identifier sc = ident" "scope_element sc = e"
      unfolding cs by (auto simp: scopes_with_def)
    moreover from this(2,3) have "sc = \<lparr>scope_element = e, scope_identifier = ident\<rparr>" by (cases sc) simp
    ultimately show "\<lparr>scope_element = e, scope_identifier = ident\<rparr> \<in> ran (app_scopes a)" by simp
  next
    assume "\<lparr>scope_element = e, scope_identifier = ident\<rparr> \<in> ran (app_scopes a)"
    then have "\<lparr>scope_element = e, scope_identifier = ident\<rparr> \<in> set (map context_scope (Module_contexts m))"
      unfolding cs by (simp add: scopes_with_def)
    then show "\<exists>sc\<in>set (map context_scope (Module_contexts m)). scope_element sc = e"
      by (rule rev_bexI) simp
  qed
  finally show ?thesis
    using has by (simp add: Application_getControllerForElementAndIdentifier_def
        Router_getContextForElementAndIdentifier_def Some)
qed

section \<open>Which bindings there are\<close>

lemma disconnected_bindings: "context_ok sch sc False c \<Longrightarrow> context_bindings sc c = {}"
  by (cases "valueListObserver (bindingObserver c)") (simp_all add: context_ok_def binding_observer_ok_def)

lemma app_dispatcher:
  "app_ok a \<Longrightarrow> dispatcher_ok (env_dispatcher (app_env a)) \<and>
     Collect (registered (env_dispatcher (app_env a))) = router_bindings (modulesByIdentifier (app_router a))"
  using app_router_ok [of a] by (simp add: router_ok_def dispatcher_has_def)

lemma registered_contexts:
  assumes ok: "app_ok a"
  shows "registered (env_dispatcher (app_env a)) b \<longleftrightarrow>
    (\<exists>m c. Map_get (modulesByIdentifier (app_router a)) (scope_identifier (binding_scope b)) = Some m \<and>
       binding_scope b \<in> set (connectedContexts m) \<and> Map_get (contextsByScope m) (binding_scope b) = Some c \<and>
       b \<in> context_bindings (binding_scope b) c)"
proof -
  let ?S = "ran (app_scopes a)" and ?ms = "modulesByIdentifier (app_router a)"
  have mod: "module_ok (app_schema a) i (scopes_with i ?S) m" if "Map_get ?ms i = Some m" for i m
    using app_router_ok [OF ok] that by (simp add: router_ok_def)
  have "registered (env_dispatcher (app_env a)) b \<longleftrightarrow> b \<in> router_bindings ?ms"
    using app_dispatcher [OF ok] by blast
  also have "\<dots> \<longleftrightarrow> (\<exists>m c. Map_get ?ms (scope_identifier (binding_scope b)) = Some m \<and>
       binding_scope b \<in> set (connectedContexts m) \<and> Map_get (contextsByScope m) (binding_scope b) = Some c \<and>
       b \<in> context_bindings (binding_scope b) c)"
  proof
    assume "b \<in> router_bindings ?ms"
    then obtain i m sc c where m: "Map_get ?ms i = Some m" "Map_get (contextsByScope m) sc = Some c"
      "b \<in> context_bindings sc c" by (auto simp: router_bindings_def module_bindings_def)
    have sc: "binding_scope b = sc" by (rule scope_of_bindings [OF m(3)])
    have c: "scope_identifier sc = i" "context_ok (app_schema a) sc (sc \<in> scopes_with i ?S) c"
      "set (connectedContexts m) = scopes_with i ?S"
      using mod [OF m(1)] m(2) by (simp_all add: module_ok_def)
    then have "sc \<in> set (connectedContexts m)" using disconnected_bindings [of _ sc c] m(3) by auto
    with m c sc show "\<exists>m c. Map_get ?ms (scope_identifier (binding_scope b)) = Some m \<and>
       binding_scope b \<in> set (connectedContexts m) \<and> Map_get (contextsByScope m) (binding_scope b) = Some c \<and>
       b \<in> context_bindings (binding_scope b) c" by blast
  qed (auto simp: router_bindings_def module_bindings_def)
  finally show ?thesis .
qed

end
