(* ===== verification/Dom_Tree.thy ===== *)
theory Dom_Tree
  imports Dom "HOL-Library.Multiset"
begin

text \<open>
  Changes of the tree of a document: an element is made, taken out of its parent, or put into a
  parent. An element that is taken out stays in the document as a detached tree. What the
  observers see of a change is which elements contain which, so each operation has one lemma
  about \<open>contains\<close>.
\<close>

section \<open>Operations\<close>

fun prune :: "nat \<Rightarrow> node \<Rightarrow> node" where
  "prune r (Node i t a ks) =
     Node i t a (concat (map (\<lambda>k. if nid k = r then [] else [prune r k]) ks))"

definition insert_child :: "nat \<Rightarrow> node \<Rightarrow> node \<Rightarrow> node" where
  "insert_child k s n = Node (nid n) (ntag n) (nattrs n) (take k (nkids n) @ s # drop k (nkids n))"

definition top_level :: "document \<Rightarrow> nat \<Rightarrow> bool" where
  "top_level doc r \<longleftrightarrow> r \<in> set (map nid (trees doc))"

text \<open>Taking an element out of its parent; the root of a tree has none.\<close>

definition detach_node :: "nat \<Rightarrow> document \<Rightarrow> document" where
  "detach_node r doc =
     (case get_node doc r of
        None \<Rightarrow> doc
      | Some s \<Rightarrow>
          (if top_level doc r then doc
           else doc\<lparr>root := prune r (root doc), detached := map (prune r) (detached doc) @ [s]\<rparr>))"

text \<open>
  The root \<open>r\<close> of a detached tree can become a child of the element \<open>p\<close> of another tree, at the
  position \<open>k\<close> among the children. (The browser takes an element that has a parent out of it first.)
\<close>

definition attachable :: "document \<Rightarrow> nat \<Rightarrow> nat \<Rightarrow> bool" where
  "attachable doc p r \<longleftrightarrow> r \<in> set (map nid (detached doc)) \<and> get_node doc p \<noteq> None \<and> \<not> contains doc r p"

definition attach_node :: "nat \<Rightarrow> nat \<Rightarrow> nat \<Rightarrow> document \<Rightarrow> document" where
  "attach_node p k r doc =
     (case get_node doc r of
        None \<Rightarrow> doc
      | Some s \<Rightarrow>
          (if attachable doc p r then
             update_document p (insert_child k s) (doc\<lparr>detached := filter (\<lambda>t. nid t \<noteq> r) (detached doc)\<rparr>)
           else doc))"

definition create_element :: "nat \<Rightarrow> string \<Rightarrow> document \<Rightarrow> document" where
  "create_element i tag doc =
     (if get_node doc i = None then doc\<lparr>detached := detached doc @ [Node i tag [] []]\<rparr> else doc)"

section \<open>Ancestors\<close>

lemma ids_Node: "ids (Node i t a ks) = i # concat (map ids ks)"
  by (simp add: ids_def [abs_def] map_concat comp_def)

lemma mset_concat_map: "mset (concat (map f xs)) = (\<Sum>x\<in>#mset xs. mset (f x))"
  by (induction xs) simp_all

lemma mem_ids: "i \<in> set (ids n) \<longleftrightarrow> (\<exists>m\<in>set (nodes n). nid m = i)"
  by (auto simp: ids_def)

lemma ids_below: "m \<in> set (nodes n) \<Longrightarrow> set (ids m) \<subseteq> set (ids n)"
  using nodes_trans by (fastforce simp: mem_ids)

lemma ids_kid: "k \<in> set ks \<Longrightarrow> i \<in> set (ids k) \<Longrightarrow> i \<in> set (ids (Node j t a ks))"
  by (auto simp: ids_Node)

lemma distinct_ids_kid:
  assumes "distinct (ids (Node i t a ks))" "k \<in> set ks"
  shows "distinct (ids k)" "i \<notin> set (ids k)"
  using assms by (auto simp: ids_Node distinct_concat_iff)

lemma same_node: "distinct (ids t) \<Longrightarrow> n \<in> set (nodes t) \<Longrightarrow> m \<in> set (nodes t) \<Longrightarrow> nid n = nid m \<Longrightarrow> n = m"
  by (auto simp: ids_def distinct_map inj_on_def)

lemma same_kid:
  assumes "distinct (concat (map ids ks))" "k \<in> set ks" "k' \<in> set ks" "i \<in> set (ids k)" "i \<in> set (ids k')"
  shows "k = k'"
proof (rule ccontr)
  assume "k \<noteq> k'"
  moreover obtain as bs where "ks = as @ k # bs" using assms(2) by (blast dest: split_list)
  ultimately show False using assms(1,3,4,5) by auto
qed

lemma comparable:
  assumes "distinct (ids t)" "n \<in> set (nodes t)" "m \<in> set (nodes t)" "i \<in> set (ids n)" "i \<in> set (ids m)"
  shows "n \<in> set (nodes m) \<or> m \<in> set (nodes n)"
  using assms
proof (induction t rule: nodes.induct)
  case (1 j t a ks)
  show ?case
  proof (cases "n = Node j t a ks \<or> m = Node j t a ks")
    case False
    with "1.prems" obtain k k' where k: "k \<in> set ks" "n \<in> set (nodes k)" "k' \<in> set ks" "m \<in> set (nodes k')"
      by auto
    then have "i \<in> set (ids k)" "i \<in> set (ids k')" using "1.prems"(4,5) ids_below by blast+
    with "1.prems"(1) k have "k = k'" by (intro same_kid [of ks]) (auto simp: ids_Node)
    with 1 k show ?thesis using distinct_ids_kid [OF "1.prems"(1)] by blast
  qed (use "1.prems" in auto)
qed

lemma strictly_below:
  assumes "distinct (ids n)" "m \<in> set (nodes n)" "m \<noteq> n"
  shows "nid n \<notin> set (ids m)"
proof -
  obtain i t a ks where n: "n = Node i t a ks" by (cases n)
  with assms obtain k where "k \<in> set ks" "m \<in> set (nodes k)" by auto
  then show ?thesis
    using distinct_ids_kid [of i t a ks k] ids_below assms(1) n by auto
qed

lemma tree_of:
  assumes "get_node doc x = Some n"
  obtains t where "t \<in> set (trees doc)" "n \<in> set (nodes t)" "nid n = x"
  using get_node_SomeD [OF assms] by (auto simp: all_nodes_def)

lemma distinct_tree:
  assumes "document_wf doc" "t \<in> set (trees doc)"
  shows "distinct (ids t)"
proof -
  have "distinct (map nid (concat (map nodes (trees doc))))"
    using assms(1) by (simp add: document_wf_def all_nodes_def)
  then show ?thesis using assms(2) by (simp add: ids_def distinct_map_nodesD)
qed

lemma document_wf_ids: "document_wf doc \<longleftrightarrow> distinct (concat (map ids (trees doc)))"
proof -
  have "map nid (all_nodes doc) = concat (map ids (trees doc))"
    by (simp add: all_nodes_def map_concat comp_def ids_def [abs_def])
  then show ?thesis by (simp add: document_wf_def)
qed

lemma same_tree:
  "document_wf doc \<Longrightarrow> t \<in> set (trees doc) \<Longrightarrow> t' \<in> set (trees doc) \<Longrightarrow> i \<in> set (ids t) \<Longrightarrow> i \<in> set (ids t') \<Longrightarrow> t = t'"
  by (rule same_kid [of "trees doc"]) (simp_all add: document_wf_ids)

lemma containsE:
  assumes "contains doc x e" "document_wf doc"
  obtains t n where "t \<in> set (trees doc)" "n \<in> set (nodes t)" "nid n = x" "get_node doc x = Some n"
    "e \<in> set (ids n)" "e \<in> set (ids t)" "distinct (ids t)"
proof -
  from assms(1) obtain n where n: "get_node doc x = Some n" "e \<in> set (ids n)"
    by (auto simp: contains_def split: option.splits)
  obtain t where "t \<in> set (trees doc)" "n \<in> set (nodes t)" "nid n = x" by (rule tree_of [OF n(1)])
  with n that show ?thesis using ids_below distinct_tree [OF assms(2)] by blast
qed

lemma contains_trans:
  assumes "document_wf doc" "contains doc x y" "contains doc y e"
  shows "contains doc x e"
proof -
  from assms(2,1) obtain n where n: "get_node doc x = Some n" "y \<in> set (ids n)"
    by (auto elim: containsE)
  from assms(3,1) obtain m where m: "get_node doc y = Some m" "e \<in> set (ids m)"
    by (auto elim: containsE)
  obtain m' where "m' \<in> set (nodes n)" "nid m' = y" using n(2) by (auto simp: mem_ids)
  with get_node_below [OF assms(1) n(1)] m(1) have "m \<in> set (nodes n)" by auto
  with n m ids_below show ?thesis by (auto simp: contains_def)
qed

lemma contains_linear:
  assumes "document_wf doc" "contains doc x e" "contains doc y e"
  shows "contains doc x y \<or> contains doc y x"
proof -
  obtain t n where n: "t \<in> set (trees doc)" "n \<in> set (nodes t)" "nid n = x" "get_node doc x = Some n"
    "e \<in> set (ids n)" "e \<in> set (ids t)" "distinct (ids t)" using containsE [OF assms(2,1)] .
  obtain t' m where m: "t' \<in> set (trees doc)" "m \<in> set (nodes t')" "nid m = y" "get_node doc y = Some m"
    "e \<in> set (ids m)" "e \<in> set (ids t')" using containsE [OF assms(3,1)] .
  have "t = t'" using same_tree [OF assms(1) n(1) m(1) n(6) m(6)] .
  with comparable [OF n(7,2) _ n(5) m(5)] m(2) have "n \<in> set (nodes m) \<or> m \<in> set (nodes n)" by blast
  with n m show ?thesis by (auto simp: contains_def mem_ids)
qed

lemma contains_antisym:
  assumes "document_wf doc" "contains doc x y" "contains doc y x"
  shows "x = y"
proof -
  obtain t n where n: "t \<in> set (trees doc)" "n \<in> set (nodes t)" "nid n = x" "get_node doc x = Some n"
    "y \<in> set (ids n)" "distinct (ids t)" using containsE [OF assms(2,1)] .
  obtain m where m: "m \<in> set (nodes n)" "nid m = y" using n(5) by (auto simp: mem_ids)
  then have "get_node doc y = Some m" using get_node_below [OF assms(1) n(4)] by blast
  then have "nid n \<in> set (ids m)" using assms(3) n(3) by (simp add: contains_def)
  moreover have "distinct (ids n)" using distinct_ids [OF assms(1) n(4)] by (simp add: ids_def)
  ultimately have "m = n" using strictly_below m(1) by blast
  with m n show ?thesis by simp
qed

lemma contains_self: "document_wf doc \<Longrightarrow> contains doc x e \<Longrightarrow> contains doc x x \<and> contains doc e e"
proof -
  assume wf: "document_wf doc" and c: "contains doc x e"
  obtain t n where n: "t \<in> set (trees doc)" "n \<in> set (nodes t)" "nid n = x" "get_node doc x = Some n"
    "e \<in> set (ids n)" using containsE [OF c wf] .
  then obtain m where "m \<in> set (nodes n)" "nid m = e" by (auto simp: mem_ids)
  then have "get_node doc e = Some m" using get_node_below [OF wf n(4)] by blast
  with n(4) show ?thesis by (auto intro: contains_refl)
qed

lemma contains_connected:
  assumes "document_wf doc" "contains doc x e"
  shows "isConnected doc x \<longleftrightarrow> isConnected doc e"
proof -
  obtain t n where n: "t \<in> set (trees doc)" "n \<in> set (nodes t)" "nid n = x" "e \<in> set (ids t)"
    using containsE [OF assms(2,1)] .
  then have "x \<in> set (ids t)" by (auto simp: mem_ids)
  moreover have "i \<in> set (ids t) \<Longrightarrow> i \<in> set (ids (root doc)) \<longleftrightarrow> t = root doc" for i
    using same_tree [OF assms(1) n(1), of "root doc" i] by (auto simp: trees_def)
  ultimately show ?thesis using n(4) by (simp add: isConnected_def)
qed

section \<open>Pruning and inserting\<close>

lemma prune_simps [simp]: "nid (prune r n) = nid n" "nattrs (prune r n) = nattrs n" "ntag (prune r n) = ntag n"
  by (cases n; simp)+

lemma insert_child_simps [simp]:
  "nid (insert_child k s n) = nid n" "nattrs (insert_child k s n) = nattrs n" "ntag (insert_child k s n) = ntag n"
  by (simp_all add: insert_child_def)

lemma update_insert_simps [simp]:
  "nid (update_node p (insert_child k s) n) = nid n" "nattrs (update_node p (insert_child k s) n) = nattrs n"
  by (cases n; simp)+

lemma concat_singles: "\<forall>x\<in>set xs. f x = [x] \<Longrightarrow> concat (map f xs) = xs"
  by (induction xs) simp_all

lemma prune_outside: "r \<notin> set (ids n) \<Longrightarrow> prune r n = n"
proof (induction n rule: nodes.induct)
  case (1 i t a ks)
  have "\<forall>k\<in>set ks. (if nid k = r then [] else [prune r k]) = [k]"
  proof
    fix k assume k: "k \<in> set ks"
    then have "r \<notin> set (ids k)" using "1.prems" ids_kid by blast
    then show "(if nid k = r then [] else [prune r k]) = [k]" using "1.IH" [OF k] ids_self [of k] by auto
  qed
  then show ?case by (simp add: concat_singles)
qed

lemma prune_kids:
  assumes "\<forall>k\<in>set ks. r \<notin> set (ids k)"
  shows "concat (map (\<lambda>k. if nid k = r then [] else [prune r k]) ks) = ks"
proof (rule concat_singles, rule)
  fix k assume "k \<in> set ks"
  then have "r \<notin> set (ids k)" using assms by blast
  then show "(if nid k = r then [] else [prune r k]) = [k]" using prune_outside ids_self [of k] by auto
qed

lemma prune_absent: "r \<notin> set (tl (ids n)) \<Longrightarrow> prune r n = n"
  by (cases n) (simp add: ids_Node prune_kids)

lemma tl_ids: "i \<notin> set (ids n) \<Longrightarrow> i \<notin> set (tl (ids n))"
  by (cases n) (simp add: ids_Node)

text \<open>Where a node is inside a tree: at its root, or in exactly one of the children.\<close>

lemma kid_split:
  assumes "distinct (ids (Node i t a ks))" "s \<in> set (nodes (Node i t a ks))" "s \<noteq> Node i t a ks"
  obtains as k bs where "ks = as @ k # bs" "s \<in> set (nodes k)" "distinct (ids k)"
    "\<forall>k'\<in>set as \<union> set bs. nid s \<notin> set (ids k')"
proof -
  from assms(2,3) obtain k where k: "k \<in> set ks" "s \<in> set (nodes k)" by auto
  then obtain as bs where ks: "ks = as @ k # bs" by (blast dest: split_list)
  have "nid s \<in> set (ids k)" using k by (auto simp: mem_ids)
  then have "\<forall>k'\<in>set as \<union> set bs. nid s \<notin> set (ids k')"
    using assms(1) ks by (auto simp: ids_Node)
  then show ?thesis using that ks k distinct_ids_kid [OF assms(1) k(1)] by blast
qed

lemma prune_split:
  assumes "\<forall>k'\<in>set as \<union> set bs. r \<notin> set (ids k')"
  shows "prune r (Node i t a (as @ k # bs)) =
    Node i t a (as @ (if nid k = r then [] else [prune r k]) @ bs)"
  using assms prune_kids [of as r] prune_kids [of bs r] by simp

lemma mset_ids_prune:
  assumes "distinct (ids n)" "s \<in> set (nodes n)" "s \<noteq> n"
  shows "mset (ids n) = mset (ids (prune (nid s) n)) + mset (ids s)"
  using assms
proof (induction n rule: nodes.induct)
  case (1 i t a ks)
  obtain as k bs where k: "ks = as @ k # bs" "s \<in> set (nodes k)" "distinct (ids k)"
    "\<forall>k'\<in>set as \<union> set bs. nid s \<notin> set (ids k')"
    by (rule kid_split [OF "1.prems"])
  show ?case
  proof (cases "s = k")
    case True
    with k show ?thesis by (simp only: prune_split) (simp add: ids_Node)
  next
    case False
    then have "nid k \<noteq> nid s" using same_node [OF k(3,2), of k] by auto
    with k False 1(1) [OF _ k(3,2) False] show ?thesis by (simp only: prune_split) (simp add: ids_Node)
  qed
qed

lemma set_nodes_prune:
  assumes "distinct (ids n)" "s \<in> set (nodes n)" "s \<noteq> n"
  shows "set (nodes (prune (nid s) n)) \<union> set (nodes s) = prune (nid s) ` set (nodes n)"
  using assms
proof (induction n rule: nodes.induct)
  case (1 i t a ks)
  let ?r = "nid s"
  obtain as k bs where k: "ks = as @ k # bs" "s \<in> set (nodes k)" "distinct (ids k)"
    "\<forall>k'\<in>set as \<union> set bs. ?r \<notin> set (ids k')"
    by (rule kid_split [OF "1.prems"])
  have id: "prune ?r m = m" if "?r \<notin> set (ids k')" "m \<in> set (nodes k')" for m k'
    using that ids_below prune_outside by blast
  have same: "prune ?r ` set (nodes k') = set (nodes k')" if "k' \<in> set as \<union> set bs" for k'
    using id [of k'] k(4) that by (auto simp: image_iff)
  have s: "prune ?r ` set (nodes s) = set (nodes s)"
  proof -
    have "?r \<notin> set (tl (ids m))" if "m \<in> set (nodes s)" for m
    proof (cases "m = s")
      case True
      have "distinct (ids s)" using distinct_subtree [OF k(2)] k(3) by (simp add: ids_def)
      then show ?thesis using True by (cases s) (simp add: ids_Node)
    next
      case False
      have "distinct (ids s)" using distinct_subtree [OF k(2)] k(3) by (simp add: ids_def)
      from strictly_below [OF this that False] show ?thesis by (rule tl_ids)
    qed
    then show ?thesis using prune_absent by (auto simp: image_iff)
  qed
  have at: "nid k = ?r \<longleftrightarrow> s = k" using same_node [OF k(3,2), of k] by auto
  have kid: "(if s = k then {} else set (nodes (prune ?r k))) \<union> set (nodes s) = prune ?r ` set (nodes k)"
    using s "1.IH" [OF _ k(3,2)] k(1) by (cases "s = k") simp_all
  have "set (nodes (prune ?r (Node i t a ks))) =
      insert (prune ?r (Node i t a ks)) (\<Union>(set ` nodes ` set as) \<union> \<Union>(set ` nodes ` set bs) \<union>
        (if s = k then {} else set (nodes (prune ?r k))))"
    unfolding k(1) prune_split [OF k(4)] at by auto
  then have "set (nodes (prune ?r (Node i t a ks))) \<union> set (nodes s) =
      insert (prune ?r (Node i t a ks)) (\<Union>(set ` nodes ` set as) \<union> \<Union>(set ` nodes ` set bs) \<union> prune ?r ` set (nodes k))"
    unfolding kid [symmetric] by blast
  also have "\<dots> = prune ?r ` set (nodes (Node i t a ks))"
    using same unfolding k(1) by (simp add: image_Un image_UN Un_commute Un_left_commute)
  finally show ?case .
qed

lemma insert_split:
  assumes "i \<noteq> p" "\<forall>k'\<in>set as \<union> set bs. p \<notin> set (ids k')"
  shows "update_node p f (Node i t a (as @ k # bs)) = Node i t a (as @ update_node p f k # bs)"
  using assms by (simp add: update_node_unchanged map_idI)

lemma node_split:
  assumes "distinct (ids (Node i t a ks))" "p \<in> set (ids (Node i t a ks))" "p \<noteq> i"
  obtains as k bs where "ks = as @ k # bs" "p \<in> set (ids k)" "distinct (ids k)"
    "\<forall>k'\<in>set as \<union> set bs. p \<notin> set (ids k')"
proof -
  obtain m where m: "m \<in> set (nodes (Node i t a ks))" "nid m = p" using assms(2) unfolding mem_ids by blast
  then have "m \<noteq> Node i t a ks" using assms(3) by auto
  from kid_split [OF assms(1) m(1) this] obtain as k bs where "ks = as @ k # bs" "m \<in> set (nodes k)"
    "distinct (ids k)" "\<forall>k'\<in>set as \<union> set bs. p \<notin> set (ids k')" unfolding m(2) by blast
  then show ?thesis using that m(2) mem_ids by blast
qed

lemma mset_ids_insert:
  assumes "distinct (ids n)" "p \<in> set (ids n)"
  shows "mset (ids (update_node p (insert_child j s) n)) = mset (ids n) + mset (ids s)"
  using assms
proof (induction n rule: nodes.induct)
  case (1 i t a ks)
  show ?case
  proof (cases "i = p")
    case True
    have "mset (concat (map ids ks)) = mset (concat (map ids (take j ks @ drop j ks)))"
      by (simp only: append_take_drop_id)
    then show ?thesis using True by (simp add: insert_child_def ids_Node del: append_take_drop_id)
  next
    case False
    then obtain as k bs where k: "ks = as @ k # bs" "p \<in> set (ids k)" "distinct (ids k)"
      "\<forall>k'\<in>set as \<union> set bs. p \<notin> set (ids k')"
      using node_split [OF "1.prems"] by metis
    have "mset (ids (update_node p (insert_child j s) k)) = mset (ids k) + mset (ids s)"
      using "1.IH" [OF _ k(3,2)] k(1) by simp
    then show ?thesis unfolding k(1) insert_split [OF False k(4)] by (simp add: ids_Node)
  qed
qed

lemma set_nodes_insert:
  assumes "distinct (ids n)" "p \<in> set (ids n)"
  shows "set (nodes (update_node p (insert_child j s) n)) =
    update_node p (insert_child j s) ` set (nodes n) \<union> set (nodes s)"
  using assms
proof (induction n rule: nodes.induct)
  case (1 i t a ks)
  let ?u = "update_node p (insert_child j s)"
  have id: "?u ` set (nodes k') = set (nodes k')" if "p \<notin> set (ids k')" for k'
  proof -
    have "?u m = m" if "m \<in> set (nodes k')" for m
      using \<open>p \<notin> set (ids k')\<close> that ids_below by (intro update_node_unchanged) blast
    then show ?thesis by (auto simp: image_iff)
  qed
  show ?case
  proof (cases "i = p")
    case True
    then have "?u ` set (nodes k) = set (nodes k)" if "k \<in> set ks" for k
      using id distinct_ids_kid [OF "1.prems"(1) that] by simp
    then have "?u ` (\<Union>k\<in>set ks. set (nodes k)) = (\<Union>k\<in>set ks. set (nodes k))"
      by (simp add: image_UN)
    moreover have "set (nodes (?u (Node i t a ks))) =
        insert (?u (Node i t a ks)) ((\<Union>k\<in>set ks. set (nodes k)) \<union> set (nodes s))"
    proof -
      have "(\<Union>k\<in>set ks. set (nodes k)) = (\<Union>k\<in>set (take j ks @ drop j ks). set (nodes k))"
        by (simp only: append_take_drop_id)
      then show ?thesis using True by (simp add: insert_child_def Un_ac del: append_take_drop_id)
    qed
    ultimately show ?thesis by (simp add: image_UN)
  next
    case False
    then obtain as k bs where k: "ks = as @ k # bs" "p \<in> set (ids k)" "distinct (ids k)"
      "\<forall>k'\<in>set as \<union> set bs. p \<notin> set (ids k')"
      using node_split [OF "1.prems"] by metis
    have "set (nodes (?u k)) = ?u ` set (nodes k) \<union> set (nodes s)"
      using "1.IH" [OF _ k(3,2)] k(1) by simp
    moreover have "?u ` (\<Union>k'\<in>set as. set (nodes k')) = (\<Union>k'\<in>set as. set (nodes k'))"
      "?u ` (\<Union>k'\<in>set bs. set (nodes k')) = (\<Union>k'\<in>set bs. set (nodes k'))"
      using id k(4) by (simp_all add: image_UN)
    moreover have "set (nodes (Node i t a (as @ x # bs))) = insert (Node i t a (as @ x # bs))
        ((\<Union>k'\<in>set as. set (nodes k')) \<union> set (nodes x) \<union> (\<Union>k'\<in>set bs. set (nodes k')))" for x
      by auto
    moreover have "?u (Node i t a ks) = Node i t a (as @ ?u k # bs)"
      unfolding k(1) by (rule insert_split [OF False k(4)])
    moreover have "set (nodes (Node i t a ks)) = insert (Node i t a ks)
        ((\<Union>k'\<in>set as. set (nodes k')) \<union> set (nodes k) \<union> (\<Union>k'\<in>set bs. set (nodes k')))"
      unfolding k(1) by auto
    ultimately show ?thesis by (simp only: image_insert image_Un) blast
  qed
qed

section \<open>What the operations do to a document\<close>

lemma get_node_map:
  assumes "document_wf doc" "document_wf doc'" "set (all_nodes doc') = g ` set (all_nodes doc)"
    and "\<And>n. nid (g n) = nid n"
  shows "get_node doc' x = map_option g (get_node doc x)"
proof (cases "get_node doc x")
  case None
  then have "\<forall>n\<in>set (all_nodes doc'). nid n \<noteq> x"
    using assms(3,4) by (auto simp: get_node_def find_None_iff)
  then have "get_node doc' x = None" by (auto simp: get_node_def find_None_iff)
  with None show ?thesis by simp
next
  case (Some n)
  then have "g n \<in> set (all_nodes doc')" "nid (g n) = x"
    using get_node_SomeD [OF Some] assms(3,4) by auto
  then show ?thesis using Some by (simp add: get_node_iff [OF assms(2)])
qed

lemma getAttribute_map:
  "get_node doc' x = map_option g (get_node doc x) \<Longrightarrow> (\<And>n. nattrs (g n) = nattrs n) \<Longrightarrow>
     getAttribute doc' x name = getAttribute doc x name"
  by (simp add: getAttribute_def node_attribute_def split: option.split)

lemma wf_mset: "mset (concat (map ids (trees doc'))) = mset (concat (map ids (trees doc))) \<Longrightarrow>
    document_wf doc' = document_wf doc"
  unfolding document_wf_ids by (rule mset_eq_imp_distinct_iff)

lemma all_nodes_trees: "set (all_nodes doc) = (\<Union>t\<in>set (trees doc). set (nodes t))"
  by (simp add: all_nodes_def)

text \<open>The tree of an element among all trees of the document.\<close>

lemma tree_split:
  assumes "document_wf doc" "get_node doc r = Some s"
  obtains ts t us where "trees doc = ts @ t # us" "s \<in> set (nodes t)" "nid s = r" "distinct (ids t)"
    "\<forall>t'\<in>set ts \<union> set us. r \<notin> set (ids t')"
proof -
  obtain t where t: "t \<in> set (trees doc)" "s \<in> set (nodes t)" "nid s = r" by (rule tree_of [OF assms(2)])
  obtain ts us where tr: "trees doc = ts @ t # us" using split_list [OF t(1)] by blast
  have "r \<in> set (ids t)" using t by (auto simp: mem_ids)
  then have "\<forall>t'\<in>set ts \<union> set us. r \<notin> set (ids t')"
    using assms(1) unfolding document_wf_ids tr by auto
  with that tr t distinct_tree [OF assms(1) t(1)] show ?thesis by blast
qed

lemma detach_trees:
  assumes wf: "document_wf doc" and s: "get_node doc r = Some s" and top: "\<not> top_level doc r"
  shows "document_wf (detach_node r doc)"
    "get_node (detach_node r doc) x = map_option (prune r) (get_node doc x)"
    "nid (root (detach_node r doc)) = nid (root doc)"
proof -
  have tr: "trees (detach_node r doc) = map (prune r) (trees doc) @ [s]"
    using s top by (simp add: detach_node_def trees_def)
  obtain ts t us where t: "trees doc = ts @ t # us" "s \<in> set (nodes t)" "nid s = r" "distinct (ids t)"
    "\<forall>t'\<in>set ts \<union> set us. r \<notin> set (ids t')" by (rule tree_split [OF wf s])
  have st: "s \<noteq> t" using top t by (auto simp: top_level_def)
  have others: "map (prune r) ts = ts" "map (prune r) us = us" using t(5) by (simp_all add: prune_outside map_idI)
  note m = mset_ids_prune [OF t(4,2) st, unfolded t(3)] and n = set_nodes_prune [OF t(4,2) st, unfolded t(3)]
  have "mset (concat (map ids (trees (detach_node r doc)))) = mset (concat (map ids (trees doc)))"
    unfolding tr t(1) using m by (simp add: others)
  then show wf': "document_wf (detach_node r doc)" using wf wf_mset by blast
  have "prune r ` set (nodes t') = set (nodes t')" if "t' \<in> set ts \<union> set us" for t'
  proof -
    have "prune r m = m" if "m \<in> set (nodes t')" for m
      using \<open>t' \<in> set ts \<union> set us\<close> that t(5) ids_below prune_outside by blast
    then show ?thesis by (auto simp: image_iff)
  qed
  then have same: "prune r ` (\<Union>t'\<in>set ts. set (nodes t')) = (\<Union>t'\<in>set ts. set (nodes t'))"
    "prune r ` (\<Union>t'\<in>set us. set (nodes t')) = (\<Union>t'\<in>set us. set (nodes t'))"
    by (simp_all add: image_UN)
  have "set (all_nodes (detach_node r doc)) = prune r ` set (all_nodes doc)"
    unfolding all_nodes_trees tr t(1)
    by (simp add: others image_Un same flip: n) (simp add: Un_ac)
  then show "get_node (detach_node r doc) x = map_option (prune r) (get_node doc x)"
    by (rule get_node_map [OF wf wf']) simp
  show "nid (root (detach_node r doc)) = nid (root doc)"
    using s top by (simp add: detach_node_def)
qed

lemma contains_detach:
  assumes wf: "document_wf doc" and s: "get_node doc r = Some s" and top: "\<not> top_level doc r"
  shows "contains (detach_node r doc) x e \<longleftrightarrow>
    contains doc x e \<and> \<not> (x \<noteq> r \<and> contains doc x r \<and> contains doc r e)"
proof (cases "get_node doc x")
  case (Some n)
  have d: "distinct (ids n)" using distinct_ids [OF wf Some] by (simp add: ids_def)
  have x: "nid n = x" using get_node_SomeD [OF Some] by simp
  have new: "contains (detach_node r doc) x e \<longleftrightarrow> e \<in> set (ids (prune r n))"
    and old: "\<And>i. contains doc x i \<longleftrightarrow> i \<in> set (ids n)" "\<And>i. contains doc r i \<longleftrightarrow> i \<in> set (ids s)"
    by (simp_all add: contains_def detach_trees [OF assms] Some s)
  show ?thesis
  proof (cases "s \<in> set (nodes n) \<and> s \<noteq> n")
    case True
    have "nid s = r" using get_node_SomeD [OF s] by simp
    with True have "mset (ids n) = mset (ids (prune r n)) + mset (ids s)"
      using mset_ids_prune [OF d, of s] by simp
    then have m: "mset (ids n) = mset (ids (prune r n) @ ids s)" by simp
    then have "set (ids n) = set (ids (prune r n) @ ids s)" by (rule mset_eq_setD)
    moreover have "distinct (ids (prune r n) @ ids s)" using mset_eq_imp_distinct_iff [OF m] d by blast
    ultimately have "set (ids n) = set (ids (prune r n)) \<union> set (ids s)" "set (ids (prune r n)) \<inter> set (ids s) = {}"
      by simp_all
    moreover have "x \<noteq> r" using True x \<open>nid s = r\<close> same_node [OF d, of n s] by auto
    moreover have "r \<in> set (ids n)" using True \<open>nid s = r\<close> by (auto simp: mem_ids)
    ultimately show ?thesis unfolding new old by blast
  next
    case False
    have "r \<notin> set (tl (ids n))"
    proof
      assume r: "r \<in> set (tl (ids n))"
      then have "x \<noteq> r" using d x by (cases n) (auto simp: ids_Node)
      have "r \<in> set (ids n)" using r tl_ids by blast
      then obtain m where m: "m \<in> set (nodes n)" "nid m = r" unfolding mem_ids by blast
      then have "m = s" using get_node_below [OF wf Some m(1)] s by simp
      with m \<open>x \<noteq> r\<close> x False show False by auto
    qed
    then have "prune r n = n" by (rule prune_absent)
    moreover have "x \<noteq> r \<longrightarrow> r \<notin> set (ids n)"
      using \<open>r \<notin> set (tl (ids n))\<close> x by (cases n) (auto simp: ids_Node)
    ultimately show ?thesis unfolding new old by auto
  qed
qed (simp add: contains_def detach_trees [OF assms])

text \<open>Without a detached tree, all others stay as they were.\<close>

lemma detached_split:
  assumes wf: "document_wf doc" and a: "attachable doc p r"
  obtains s where "get_node doc r = Some s" "nid s = r"
    "mset (trees doc) = mset (root doc # filter (\<lambda>t. nid t \<noteq> r) (detached doc)) + {#s#}"
proof -
  obtain s where s: "s \<in> set (detached doc)" "nid s = r" using a by (auto simp: attachable_def)
  then have get: "get_node doc r = Some s" using get_node_in_tree [OF wf, of s s] by (auto simp: trees_def)
  obtain d1 d2 where d: "detached doc = d1 @ s # d2" using split_list [OF s(1)] by blast
  have "nid t \<noteq> r" if "t \<in> set (d1 @ d2)" for t
  proof
    assume "nid t = r"
    then have "r \<in> set (ids t)" using ids_self [of t] by simp
    moreover have "r \<in> set (ids s)" using s(2) ids_self [of s] by simp
    ultimately show False
      using wf that unfolding document_wf_ids trees_def d by auto
  qed
  then have "filter (\<lambda>t. nid t \<noteq> r) (detached doc) = d1 @ d2" using s(2) unfolding d by (simp add: filter_True)
  then show ?thesis using that [OF get s(2)] by (simp add: trees_def d)
qed

lemma attachable_apart:
  assumes wf: "document_wf doc" and a: "attachable doc p r"
  shows "\<not> isConnected doc r"
proof
  assume r: "isConnected doc r"
  obtain t where t: "t \<in> set (detached doc)" "nid t = r" using a by (auto simp: attachable_def)
  then have "r \<in> set (ids t)" using ids_self [of t] by simp
  moreover have "set (ids (root doc)) \<inter> (\<Union>t\<in>set (detached doc). set (ids t)) = {}"
    using wf by (simp add: document_wf_ids trees_def)
  ultimately show False using r t(1) unfolding isConnected_def by blast
qed

lemma attach_trees:
  assumes wf: "document_wf doc" and a: "attachable doc p r" and s: "get_node doc r = Some s"
  shows "document_wf (attach_node p k r doc)"
    "get_node (attach_node p k r doc) x = map_option (update_node p (insert_child k s)) (get_node doc x)"
    "nid (root (attach_node p k r doc)) = nid (root doc)"
proof -
  let ?u = "update_node p (insert_child k s)" and ?T = "root doc # filter (\<lambda>t. nid t \<noteq> r) (detached doc)"
  have ms: "mset (trees doc) = mset ?T + {#s#}" and r: "nid s = r"
    using detached_split [OF wf a] s by (metis option.inject)+
  have tr: "trees (attach_node p k r doc) = map ?u ?T"
    using s a by (simp add: attach_node_def trees_def update_document_def)
  obtain n where n: "get_node doc p = Some n" using a by (auto simp: attachable_def)
  obtain t where t: "t \<in> set (trees doc)" "n \<in> set (nodes t)" "nid n = p" by (rule tree_of [OF n])
  have p: "p \<in> set (ids t)" "p \<notin> set (ids s)"
    using t a s by (auto simp: mem_ids attachable_def contains_def)
  then have "t \<noteq> s" by auto
  moreover have "set (trees doc) = insert s (set ?T)" using mset_eq_setD [of "trees doc" "s # ?T"] ms by simp
  ultimately have "t \<in> set ?T" using t(1) by blast
  then obtain ts us where T: "?T = ts @ t # us" using split_list by metis
  have dt: "distinct (ids t)" using distinct_tree [OF wf t(1)] .
  have all: "mset (concat (map ids (trees doc))) = mset (concat (map ids (ts @ t # us))) + mset (ids s)"
  proof -
    have "mset (concat (map ids (trees doc))) = (\<Sum>x\<in>#mset (trees doc). mset (ids x))"
      by (rule mset_concat_map)
    also have "\<dots> = mset (concat (map ids (ts @ t # us))) + mset (ids s)"
      unfolding ms T by (simp add: mset_concat_map)
    finally show ?thesis .
  qed
  have "distinct (concat (map ids (ts @ t # us)) @ ids s)"
    using mset_eq_imp_distinct_iff [of "concat (map ids (ts @ t # us)) @ ids s" "concat (map ids (trees doc))"]
      all wf unfolding document_wf_ids by simp
  then have others: "p \<notin> set (ids t')" if "t' \<in> set ts \<union> set us" for t' using p(1) that by auto
  then have same: "map ?u ts = ts" "map ?u us = us" by (simp_all add: update_node_unchanged map_idI)
  have "mset (concat (map ids (trees (attach_node p k r doc)))) = mset (concat (map ids (trees doc)))"
    unfolding tr T all using mset_ids_insert [OF dt p(1), of k s] by (simp add: same)
  then show wf': "document_wf (attach_node p k r doc)" using wf wf_mset by blast
  have id: "?u ` set (nodes t') = set (nodes t')" if "p \<notin> set (ids t')" for t'
  proof -
    have "?u m = m" if "m \<in> set (nodes t')" for m
      using \<open>p \<notin> set (ids t')\<close> that ids_below by (intro update_node_unchanged) blast
    then show ?thesis by (auto simp: image_iff)
  qed
  then have img: "?u ` (\<Union>t'\<in>set ts. set (nodes t')) = (\<Union>t'\<in>set ts. set (nodes t'))"
    "?u ` (\<Union>t'\<in>set us. set (nodes t')) = (\<Union>t'\<in>set us. set (nodes t'))"
    using others by (simp_all add: image_UN)
  have "set (trees doc) = insert s (set (ts @ t # us))"
    using mset_eq_setD [of "trees doc" "s # ts @ t # us"] ms T by simp
  then have "set (all_nodes (attach_node p k r doc)) = ?u ` set (all_nodes doc)"
    unfolding all_nodes_trees tr T
    by (simp add: same image_Un img id [OF p(2)] set_nodes_insert [OF dt p(1)]) (simp add: Un_ac)
  then show "get_node (attach_node p k r doc) x = map_option ?u (get_node doc x)"
    by (rule get_node_map [OF wf wf']) simp
  show "nid (root (attach_node p k r doc)) = nid (root doc)"
    using s a by (simp add: attach_node_def update_document_def)
qed

lemma contains_attach:
  assumes wf: "document_wf doc" and a: "attachable doc p r"
  shows "contains (attach_node p k r doc) x e \<longleftrightarrow>
    contains doc x e \<or> (contains doc x p \<and> contains doc r e)"
proof -
  obtain s where s: "get_node doc r = Some s" using detached_split [OF wf a] by metis
  show ?thesis
  proof (cases "get_node doc x")
    case (Some n)
    have d: "distinct (ids n)" using distinct_ids [OF wf Some] by (simp add: ids_def)
    have new: "contains (attach_node p k r doc) x e \<longleftrightarrow> e \<in> set (ids (update_node p (insert_child k s) n))"
      and old: "\<And>i. contains doc x i \<longleftrightarrow> i \<in> set (ids n)" "\<And>i. contains doc r i \<longleftrightarrow> i \<in> set (ids s)"
      by (simp_all add: contains_def attach_trees [OF wf a s] Some s)
    show ?thesis
    proof (cases "p \<in> set (ids n)")
      case True
      then have "mset (ids (update_node p (insert_child k s) n)) = mset (ids n @ ids s)"
        using mset_ids_insert [OF d] by simp
      then have "set (ids (update_node p (insert_child k s) n)) = set (ids n @ ids s)" by (rule mset_eq_setD)
      with True show ?thesis unfolding new old by auto
    qed (simp add: new old update_node_unchanged)
  qed (simp add: contains_def attach_trees [OF wf a s])
qed

lemma create_trees:
  assumes wf: "document_wf doc" and new: "get_node doc i = None"
  shows "document_wf (create_element i tag doc)"
    "get_node (create_element i tag doc) x = (if x = i then Some (Node i tag [] []) else get_node doc x)"
    "root (create_element i tag doc) = root doc"
proof -
  have all: "all_nodes (create_element i tag doc) = all_nodes doc @ [Node i tag [] []]"
    using new by (simp add: create_element_def all_nodes_def trees_def)
  have "\<forall>n\<in>set (all_nodes doc). nid n \<noteq> i" using new by (auto simp: get_node_def find_None_iff)
  with wf show wf': "document_wf (create_element i tag doc)" by (auto simp: document_wf_def all)
  have "List.find (\<lambda>n. nid n = x) (ns @ [Node i tag [] []]) =
      (if x = i then Some (Node i tag [] []) else List.find (\<lambda>n. nid n = x) ns)" if "\<forall>n\<in>set ns. nid n \<noteq> i" for ns
    using that by (induction ns) auto
  with \<open>\<forall>n\<in>set (all_nodes doc). nid n \<noteq> i\<close>
  show "get_node (create_element i tag doc) x = (if x = i then Some (Node i tag [] []) else get_node doc x)"
    unfolding get_node_def all by simp
  show "root (create_element i tag doc) = root doc" by (simp add: create_element_def)
qed

lemma contains_create:
  "document_wf doc \<Longrightarrow> get_node doc i = None \<Longrightarrow>
     contains (create_element i tag doc) x e \<longleftrightarrow> contains doc x e \<or> (x = i \<and> e = i)"
  by (auto simp: contains_def create_trees ids_Node)

lemma set_nodes_update:
  assumes "distinct (ids t)"
  shows "set (nodes (update_node i (with_attrs f) t)) = update_node i (with_attrs f) ` set (nodes t)"
  using assms
proof (induction t rule: nodes.induct)
  case (1 j tag a ks)
  have d: "distinct (ids k)" "j \<notin> set (ids k)" if "k \<in> set ks" for k
    using distinct_ids_kid [OF "1.prems" that] by blast+
  show ?case
  proof (cases "j = i")
    case True
    have "update_node i (with_attrs f) m = m" if "k \<in> set ks" "m \<in> set (nodes k)" for k m
      using d [OF that(1)] ids_below [OF that(2)] True by (intro update_node_unchanged) blast
    then have "update_node i (with_attrs f) ` (\<Union>k\<in>set ks. set (nodes k)) = (\<Union>k\<in>set ks. set (nodes k))"
      by (auto simp: image_iff)
    moreover have "nodes (with_attrs f (Node i tag a ks)) = with_attrs f (Node i tag a ks) # concat (map nodes ks)"
      by (simp add: with_attrs_def)
    ultimately show ?thesis using True by simp
  next
    case False
    have "(\<Union>k\<in>set ks. set (nodes (update_node i (with_attrs f) k))) =
        (\<Union>k\<in>set ks. update_node i (with_attrs f) ` set (nodes k))"
      using "1.IH" d by simp
    with False show ?thesis by (simp add: image_UN)
  qed
qed

lemma contains_update [simp]:
  assumes "document_wf doc"
  shows "contains (update_document i (with_attrs f) doc) x e = contains doc x e"
proof -
  let ?doc = "update_document i (with_attrs f) doc" and ?u = "update_node i (with_attrs f)"
  have tr: "trees ?doc = map ?u (trees doc)" by (simp add: trees_def update_document_def)
  have "set (nodes (?u t)) = ?u ` set (nodes t)" if "t \<in> set (trees doc)" for t
    using distinct_tree [OF assms that] by (rule set_nodes_update)
  then have "set (all_nodes ?doc) = ?u ` set (all_nodes doc)"
    unfolding all_nodes_trees tr by (simp add: image_UN)
  moreover have "document_wf ?doc" using assms by (simp add: update_document_wf)
  ultimately have "get_node ?doc x = map_option ?u (get_node doc x)"
    by (intro get_node_map [OF assms]) simp_all
  then show ?thesis by (simp add: contains_def split: option.split)
qed

end
