(* ===== verification/Page_Changes.thy ===== *)
theory Page_Changes
  imports Dom_Tree TokenListObserver
begin

text \<open>
  What scripts do to a page, and the records the browser keeps of it for a mutation observer on
  one of its elements (the watched one) that asks for attributes and children in the whole
  subtree. An element that is taken out of an observed tree stays observed, with everything below
  it, until the records are delivered (the transient registered observers of the DOM standard), so
  a change inside it is still recorded.
\<close>

section \<open>Changes and their records\<close>

datatype page_change =
    Create_element nat string
  | Set_attribute nat string string
  | Remove_attribute nat string
  | Remove_node nat
  | Insert_node nat nat nat

record page_state =
  watched :: nat
  live :: document
  transient :: "nat list"
  queue :: "mutation list"

definition observed :: "page_state \<Rightarrow> nat \<Rightarrow> bool" where
  "observed ps e \<longleftrightarrow> list_ex (\<lambda>x. contains (live ps) x e) (watched ps # transient ps)"

text \<open>The parent of \<open>r\<close> is observed: something that contains \<open>r\<close> properly is.\<close>

definition parent_observed :: "page_state \<Rightarrow> nat \<Rightarrow> bool" where
  "parent_observed ps r \<longleftrightarrow>
     list_ex (\<lambda>x. x \<noteq> r \<and> contains (live ps) x r) (watched ps # transient ps)"

definition enqueue :: "bool \<Rightarrow> mutation \<Rightarrow> page_state \<Rightarrow> page_state" where
  "enqueue b m ps = (if b then ps\<lparr>queue := queue ps @ [m]\<rparr> else ps)"

text \<open>
  The browser writes attribute names in lower case; removing an attribute that is not there, or
  an element that has no parent, changes nothing.
\<close>

fun change_page :: "page_change \<Rightarrow> page_state \<Rightarrow> page_state" where
  "change_page (Create_element i tag) ps = ps\<lparr>live := create_element i tag (live ps)\<rparr>"
| "change_page (Set_attribute e name v) ps =
     enqueue (observed ps e) (Attributes e (asciiLower name)) (ps\<lparr>live := setAttribute e name v (live ps)\<rparr>)"
| "change_page (Remove_attribute e name) ps =
     (if hasAttribute (live ps) e name then
        enqueue (observed ps e) (Attributes e (asciiLower name)) (ps\<lparr>live := removeAttribute e name (live ps)\<rparr>)
      else ps)"
| "change_page (Remove_node r) ps =
     (if get_node (live ps) r = None \<or> top_level (live ps) r then ps
      else
        (let ps' = ps\<lparr>live := detach_node r (live ps)\<rparr>
         in if parent_observed ps r
            then enqueue True (ChildList [Element_node r] []) (ps'\<lparr>transient := r # transient ps\<rparr>) else ps'))"
| "change_page (Insert_node p k r) ps =
     (if attachable (live ps) p r then
        enqueue (observed ps p) (ChildList [] [Element_node r]) (ps\<lparr>live := attach_node p k r (live ps)\<rparr>)
      else ps)"

declare change_page.simps [simp del]

text \<open>The page after a batch of changes, with the records of the batch for an observer of \<open>r0\<close>.\<close>

definition watch :: "nat \<Rightarrow> document \<Rightarrow> page_state" where
  "watch r0 doc = \<lparr>watched = r0, live = doc, transient = [], queue = []\<rparr>"

definition page_changes :: "nat \<Rightarrow> page_change list \<Rightarrow> document \<Rightarrow> document \<times> mutation list" where
  "page_changes r0 cs doc = (let ps = fold change_page cs (watch r0 doc) in (live ps, queue ps))"

text \<open>The page does not depend on who watches it.\<close>

lemma change_page_live:
  "live ps = live ps' \<Longrightarrow> live (change_page c ps) = live (change_page c ps')"
  by (cases c) (auto simp: change_page.simps enqueue_def Let_def)

lemma change_page_watched [simp]: "watched (change_page c ps) = watched ps"
  by (cases c) (auto simp: change_page.simps enqueue_def Let_def)

lemma fold_change_live:
  "live ps = live ps' \<Longrightarrow> live (fold change_page cs ps) = live (fold change_page cs ps')"
  by (induction cs arbitrary: ps ps') (simp, metis change_page_live fold_simps(2))

lemma page_changes_live: "fst (page_changes r cs doc) = fst (page_changes r' cs doc)"
  using fold_change_live [of "watch r doc" "watch r' doc" cs] by (simp add: page_changes_def watch_def Let_def)

section \<open>What the records say\<close>

definition removes :: "document \<Rightarrow> nat \<Rightarrow> mutation \<Rightarrow> bool" where
  "removes doc e m \<longleftrightarrow> (case m of Attributes x n \<Rightarrow> False
     | ChildList rs as \<Rightarrow> \<exists>x. Element_node x \<in> set rs \<and> contains doc x e)"

definition adds :: "document \<Rightarrow> nat \<Rightarrow> mutation \<Rightarrow> bool" where
  "adds doc e m \<longleftrightarrow> (case m of Attributes x n \<Rightarrow> False
     | ChildList rs as \<Rightarrow> \<exists>x. Element_node x \<in> set as \<and> contains doc x e)"

definition revives :: "document \<Rightarrow> nat \<Rightarrow> mutation \<Rightarrow> bool" where
  "revives doc e m \<longleftrightarrow> adds doc e m \<or> (\<exists>n. m = Attributes e n)"

lemma record_simps [simp]:
  "\<not> removes doc e (Attributes x n)" "\<not> adds doc e (Attributes x n)"
  "revives doc e (Attributes x n) \<longleftrightarrow> x = e"
  "removes doc e (ChildList rs as) \<longleftrightarrow> (\<exists>x. Element_node x \<in> set rs \<and> contains doc x e)"
  "adds doc e (ChildList rs as) \<longleftrightarrow> (\<exists>x. Element_node x \<in> set as \<and> contains doc x e)"
  "revives doc e (ChildList rs as) \<longleftrightarrow> (\<exists>x. Element_node x \<in> set as \<and> contains doc x e)"
  by (auto simp: removes_def adds_def revives_def)

lemma records_cong:
  assumes "\<And>x. contains doc' x e = contains doc x e"
  shows "removes doc' e m = removes doc e m" "adds doc' e m = adds doc e m" "revives doc' e m = revives doc e m"
  by (cases m; simp add: assms)+

text \<open>A removal is followed by an addition.\<close>

fun covered :: "document \<Rightarrow> nat \<Rightarrow> mutation list \<Rightarrow> bool" where
  "covered doc e [] = True"
| "covered doc e (m # ms) = ((removes doc e m \<longrightarrow> (\<exists>m'\<in>set ms. adds doc e m')) \<and> covered doc e ms)"

lemma covered_append:
  "covered doc e (ms @ [m]) \<longleftrightarrow> \<not> removes doc e m \<and> (covered doc e ms \<or> adds doc e m)"
  by (induction ms) auto

lemma covered_cong:
  assumes "\<And>x. contains doc' x e = contains doc x e"
  shows "covered doc' e ms = covered doc e ms"
  by (induction ms) (simp_all add: records_cong [OF assms])

text \<open>
  The records account for the page: \<open>E\<close> are the elements with the attribute \<open>a\<close> when the records
  were last delivered, and \<open>W\<close> the words of its value then.
\<close>

definition accounts ::
    "nat \<Rightarrow> string \<Rightarrow> nat set \<Rightarrow> (nat \<Rightarrow> string list) \<Rightarrow> document \<Rightarrow> mutation list \<Rightarrow> bool" where
  "accounts r0 a E W doc ms \<longleftrightarrow>
     (\<forall>e. contains doc r0 e \<longrightarrow> covered doc e ms) \<and>
     (\<forall>e. e \<notin> E \<longrightarrow> contains doc r0 e \<longrightarrow> hasAttribute doc e a \<longrightarrow> (\<exists>m\<in>set ms. revives doc e m)) \<and>
     (\<forall>e\<in>E. W e \<noteq> attribute_words a doc e \<or> \<not> hasAttribute doc e a \<longrightarrow> Attributes e a \<in> set ms) \<and>
     (\<forall>e\<in>E. \<not> contains doc r0 e \<longrightarrow> (\<exists>m\<in>set ms. removes doc e m))"

text \<open>No element of a record is one the watched element is in: those are never moved.\<close>

definition apart :: "nat \<Rightarrow> document \<Rightarrow> mutation list \<Rightarrow> bool" where
  "apart r0 doc ms \<longleftrightarrow> (\<forall>rs as x. ChildList rs as \<in> set ms \<longrightarrow> Element_node x \<in> set rs \<union> set as \<longrightarrow> \<not> contains doc x r0)"

text \<open>Removed elements are still watched until the records are delivered.\<close>

definition kept_watching :: "page_state \<Rightarrow> bool" where
  "kept_watching ps \<longleftrightarrow> (\<forall>x rs as. ChildList rs as \<in> set (queue ps) \<longrightarrow> Element_node x \<in> set rs \<longrightarrow> x \<in> set (transient ps))"

definition recorded :: "string \<Rightarrow> nat set \<Rightarrow> (nat \<Rightarrow> string list) \<Rightarrow> page_state \<Rightarrow> bool" where
  "recorded a E W ps \<longleftrightarrow> document_wf (live ps) \<and> isConnected (live ps) (watched ps) \<and> (\<forall>e\<in>E. observed ps e) \<and>
     kept_watching ps \<and> apart (watched ps) (live ps) (queue ps) \<and>
     accounts (watched ps) a E W (live ps) (queue ps)"

lemma observed_iff:
  "observed ps e \<longleftrightarrow> (\<exists>x\<in>insert (watched ps) (set (transient ps)). contains (live ps) x e)"
  "parent_observed ps r \<longleftrightarrow>
     (\<exists>x\<in>insert (watched ps) (set (transient ps)). x \<noteq> r \<and> contains (live ps) x r)"
  by (auto simp: observed_def parent_observed_def list_ex_iff)

lemma root_contains: "document_wf doc \<Longrightarrow> contains doc (nid (root doc)) e \<longleftrightarrow> isConnected doc e"
  using get_node_in_tree [of doc "root doc" "root doc"]
  by (simp add: contains_def isConnected_def trees_def)

lemma inside_observed: "contains (live ps) (watched ps) e \<Longrightarrow> observed ps e"
  by (simp add: observed_def)

lemma connected_contains: "document_wf doc \<Longrightarrow> isConnected doc r \<Longrightarrow> contains doc r r"
  using contains_self [of doc "nid (root doc)" r] root_contains by blast

lemma apart_append: "apart r0 doc (ms @ [m]) \<longleftrightarrow> apart r0 doc ms \<and> apart r0 doc [m]"
  by (auto simp: apart_def)

section \<open>Every change is accounted for\<close>

text \<open>A change of an attribute: the tree is the same, and if the element is observed there is a record.\<close>

lemma recorded_attribute:
  assumes rec: "recorded a E W ps" and wf: "document_wf doc'"
    and same: "nid (root doc') = nid (root (live ps))" "\<And>x e. contains doc' x e = contains (live ps) x e"
    and attr: "\<And>x. x \<noteq> e \<or> name \<noteq> a \<Longrightarrow> getAttribute doc' x a = getAttribute (live ps) x a"
  shows "recorded a E W (enqueue (observed ps e) (Attributes e name) (ps\<lparr>live := doc'\<rparr>))"
proof -
  let ?ps = "enqueue (observed ps e) (Attributes e name) (ps\<lparr>live := doc'\<rparr>)" and ?doc = "live ps" and ?r0 = "watched ps"
  have wf0: "document_wf ?doc" using rec by (simp add: recorded_def)
  have conn: "isConnected doc' x = isConnected ?doc x" for x
    using root_contains [OF wf, of x] root_contains [OF wf0, of x] same by simp
  note rem = records_cong [OF same(2)] and cov = covered_cong [OF same(2)]
  have words: "attribute_words a doc' x = attribute_words a ?doc x" "hasAttribute doc' x a = hasAttribute ?doc x a"
    if "x \<noteq> e \<or> name \<noteq> a" for x using attr [OF that] by (simp_all add: attribute_words_def hasAttribute_def)
  have parts: "live ?ps = doc'" "transient ?ps = transient ps" "watched ?ps = ?r0"
    "queue ?ps = (if observed ps e then queue ps @ [Attributes e name] else queue ps)"
    by (simp_all add: enqueue_def)
  have here: "observed ps e" if "e \<in> E" using that rec by (simp add: recorded_def)
  have acc: "accounts ?r0 a E W ?doc (queue ps)" using rec by (simp add: recorded_def)
  have "accounts ?r0 a E W doc' (queue ?ps)"
    unfolding accounts_def parts(4) same(2)
  proof (intro conjI allI impI ballI)
    fix x assume "contains ?doc ?r0 x"
    then show "covered doc' x (if observed ps e then queue ps @ [Attributes e name] else queue ps)"
      using acc by (simp add: accounts_def covered_append cov)
  next
    fix x assume "x \<notin> E" "contains ?doc ?r0 x" "hasAttribute doc' x a"
    then show "\<exists>m\<in>set (if observed ps e then queue ps @ [Attributes e name] else queue ps). revives doc' x m"
      using acc inside_observed [of ps e] words(2) [of x] unfolding accounts_def rem by (cases "x = e") auto
  next
    fix x assume "x \<in> E" "W x \<noteq> attribute_words a doc' x \<or> \<not> hasAttribute doc' x a"
    then show "Attributes x a \<in> set (if observed ps e then queue ps @ [Attributes e name] else queue ps)"
      using acc here words [of x] unfolding accounts_def by (cases "x = e \<and> name = a") auto
  next
    fix x assume "x \<in> E" "\<not> contains ?doc ?r0 x"
    then show "\<exists>m\<in>set (if observed ps e then queue ps @ [Attributes e name] else queue ps). removes doc' x m"
      using acc unfolding accounts_def rem by auto
  qed
  moreover have "observed ?ps x = observed ps x" for x
    unfolding observed_def [of ?ps] observed_def [of ps x] parts(1-3) same ..
  moreover have list: "ChildList rs as \<in> set (queue ?ps) \<longleftrightarrow> ChildList rs as \<in> set (queue ps)" for rs as
    by (simp add: parts(4))
  moreover have "apart ?r0 doc' (queue ?ps)"
    using rec unfolding recorded_def apart_def list same by blast
  moreover have "kept_watching ?ps" using rec unfolding recorded_def kept_watching_def list parts(2) by blast
  ultimately show ?thesis using rec wf unfolding recorded_def parts(1,2,3) conn by blast
qed

lemma recorded_create:
  assumes rec: "recorded a E W ps" and new: "get_node (live ps) i = None"
  shows "recorded a E W (ps\<lparr>live := create_element i tag (live ps)\<rparr>)"
proof -
  let ?doc = "live ps" and ?doc' = "create_element i tag (live ps)" and ?r0 = "watched ps"
  have wf: "document_wf ?doc" and acc: "accounts ?r0 a E W ?doc (queue ps)" and obs: "\<forall>e\<in>E. observed ps e"
    and r0: "isConnected ?doc ?r0" and ap: "apart ?r0 ?doc (queue ps)"
    using rec by (simp_all add: recorded_def)
  note c = create_trees [OF wf new] contains_create [OF wf new]
  have old: "contains ?doc' x e \<longleftrightarrow> contains ?doc x e" if "e \<noteq> i" for x e using that by (simp add: c)
  have none: "\<not> contains ?doc x i" "\<not> contains ?doc i x" for x
    using contains_self [OF wf, of x i] new by (auto simp: contains_def)
  have ri: "?r0 \<noteq> i" using isConnected_get_node [OF r0] new by auto
  then have fresh: "i \<notin> E" using obs none unfolding observed_iff by blast
  have in_r0: "contains ?doc' ?r0 x = contains ?doc ?r0 x" for x using ri by (simp add: c)
  have conn: "isConnected ?doc' x = isConnected ?doc x" for x by (simp add: isConnected_def c)
  note rem = records_cong [OF old] and cov = covered_cong [OF old]
  have words: "attribute_words a ?doc' x = attribute_words a ?doc x" "hasAttribute ?doc' x a = hasAttribute ?doc x a"
    if "x \<noteq> i" for x using that by (simp_all add: attribute_words_def hasAttribute_def getAttribute_def c)
  have ne: "x \<noteq> i" if "x \<in> E \<or> contains ?doc ?r0 x" for x using that fresh none by blast
  have "accounts ?r0 a E W ?doc' (queue ps)"
    unfolding accounts_def in_r0
  proof (intro conjI allI impI ballI)
    fix x assume x: "contains ?doc ?r0 x"
    then have "x \<noteq> i" using ne by blast
    then show "covered ?doc' x (queue ps)" using acc x cov by (simp add: accounts_def)
  next
    fix x assume x: "x \<notin> E" "contains ?doc ?r0 x" "hasAttribute ?doc' x a"
    then have "x \<noteq> i" using ne by blast
    then show "\<exists>m\<in>set (queue ps). revives ?doc' x m" using acc x rem words by (simp add: accounts_def)
  next
    fix x assume x: "x \<in> E" "W x \<noteq> attribute_words a ?doc' x \<or> \<not> hasAttribute ?doc' x a"
    then have "x \<noteq> i" using ne by blast
    then show "Attributes x a \<in> set (queue ps)" using acc x words by (simp add: accounts_def)
  next
    fix x assume x: "x \<in> E" "\<not> contains ?doc ?r0 x"
    then have "x \<noteq> i" using ne by blast
    then show "\<exists>m\<in>set (queue ps). removes ?doc' x m" using acc x rem by (simp add: accounts_def)
  qed
  moreover have "observed (ps\<lparr>live := ?doc'\<rparr>) e" if "observed ps e" "e \<noteq> i" for e
    using that unfolding observed_iff by (simp add: old)
  moreover have "apart ?r0 ?doc' (queue ps)" using ap ri unfolding apart_def old [OF ri] by blast
  ultimately show ?thesis
    using rec fresh by (auto simp: recorded_def c conn kept_watching_def)
qed

text \<open>What was in a removed element stays in one: it is recorded when it is cut off.\<close>

lemma removal_stays:
  assumes wf: "document_wf (live ps)" and kw: "kept_watching ps"
    and s: "get_node (live ps) r = Some s" and top: "\<not> top_level (live ps) r"
    and m: "m \<in> set (queue ps)" "removes (live ps) e m"
  shows "\<exists>m\<in>set (queue (change_page (Remove_node r) ps)). removes (detach_node r (live ps)) e m"
proof -
  note below = contains_detach [OF wf s top]
  obtain x rs as where x: "m = ChildList rs as" "Element_node x \<in> set rs" "contains (live ps) x e"
    using m(2) by (auto simp: removes_def split: mutation.splits)
  have q: "queue (change_page (Remove_node r) ps) =
      (if parent_observed ps r then queue ps @ [ChildList [Element_node r] []] else queue ps)"
    using s top by (simp add: Let_def enqueue_def change_page.simps)
  show ?thesis
  proof (cases "contains (detach_node r (live ps)) x e")
    case True
    then have "removes (detach_node r (live ps)) e m" using x by auto
    with m(1) show ?thesis by (auto simp: q)
  next
    case False
    then have "x \<noteq> r" "contains (live ps) x r" "contains (live ps) r e" using x(3) below by blast+
    moreover have "x \<in> set (transient ps)" using kw m(1) x unfolding kept_watching_def by blast
    ultimately have "parent_observed ps r" "contains (detach_node r (live ps)) r e"
      using below unfolding observed_iff by blast+
    then show ?thesis by (auto simp: q)
  qed
qed

lemma kept_watching_remove: "kept_watching ps \<Longrightarrow> kept_watching (change_page (Remove_node r) ps)"
  by (auto simp: kept_watching_def change_page.simps Let_def enqueue_def)

lemma recorded_remove:
  assumes rec: "recorded a E W ps" and s: "get_node (live ps) r = Some s" and top: "\<not> top_level (live ps) r"
    and stay: "\<not> contains (live ps) r (watched ps)"
  shows "recorded a E W (change_page (Remove_node r) ps)"
proof -
  let ?doc = "live ps" and ?doc' = "detach_node r (live ps)" and ?ps = "change_page (Remove_node r) ps"
  let ?m = "ChildList [Element_node r] []" and ?r0 = "watched ps"
  have wf: "document_wf ?doc" and acc: "accounts ?r0 a E W ?doc (queue ps)" and obs: "\<forall>e\<in>E. observed ps e"
    and kw: "kept_watching ps" and r0: "isConnected ?doc ?r0" and ap: "apart ?r0 ?doc (queue ps)"
    using rec unfolding recorded_def by blast+
  note c = detach_trees [OF wf s top] and below = contains_detach [OF wf s top]
  have parts: "live ?ps = ?doc'" "watched ?ps = ?r0"
    "transient ?ps = (if parent_observed ps r then r # transient ps else transient ps)"
    "queue ?ps = (if parent_observed ps r then queue ps @ [?m] else queue ps)"
    using s top by (simp_all add: Let_def enqueue_def change_page.simps)
  have in_r0: "contains ?doc' ?r0 x \<longleftrightarrow> contains ?doc ?r0 x \<and> \<not> contains ?doc r x" for x
    using below [of ?r0 x] stay contains_linear [OF wf, of ?r0 x r] connected_contains [OF wf r0] by blast
  have attr: "getAttribute ?doc' x n = getAttribute ?doc x n" for x n
    by (rule getAttribute_map [OF c(2)]) simp
  have words: "attribute_words a ?doc' x = attribute_words a ?doc x" "hasAttribute ?doc' x a = hasAttribute ?doc x a" for x
    by (simp_all add: attribute_words_def hasAttribute_def attr)
  have same: "contains ?doc' x e = contains ?doc x e" if "\<not> contains ?doc r e" for x e using that below by blast
  note rem = records_cong [OF same] and cov = covered_cong [OF same]
  text \<open>What contains an element above \<open>r\<close> makes the parent of \<open>r\<close> observed.\<close>
  have cut: "parent_observed ps r \<and> contains ?doc' r e"
    if "x \<in> insert ?r0 (set (transient ps))" "contains ?doc x e" "\<not> contains ?doc' x e" for x e
    using that below unfolding observed_iff by blast
  have "accounts ?r0 a E W ?doc' (queue ?ps)"
    unfolding accounts_def in_r0 words
  proof (intro conjI allI impI ballI)
    fix e assume e: "contains ?doc ?r0 e \<and> \<not> contains ?doc r e"
    then have "covered ?doc' e (queue ps)" using acc cov by (simp add: accounts_def)
    moreover have "\<not> removes ?doc' e ?m" using e same by simp
    ultimately show "covered ?doc' e (queue ?ps)" by (simp add: parts(4) covered_append)
  next
    fix e assume "e \<notin> E" "contains ?doc ?r0 e \<and> \<not> contains ?doc r e" "hasAttribute ?doc e a"
    then have "\<exists>m\<in>set (queue ps). revives ?doc' e m" using acc rem unfolding accounts_def by auto
    then show "\<exists>m\<in>set (queue ?ps). revives ?doc' e m" by (auto simp: parts(4))
  next
    fix e assume "e \<in> E" "W e \<noteq> attribute_words a ?doc e \<or> \<not> hasAttribute ?doc e a"
    then have "Attributes e a \<in> set (queue ps)" using acc unfolding accounts_def by blast
    then show "Attributes e a \<in> set (queue ?ps)" by (simp add: parts(4))
  next
    fix e assume e: "e \<in> E" "\<not> (contains ?doc ?r0 e \<and> \<not> contains ?doc r e)"
    show "\<exists>m\<in>set (queue ?ps). removes ?doc' e m"
    proof (cases "contains ?doc ?r0 e")
      case True
      with e have "\<not> contains ?doc' ?r0 e" by (simp add: in_r0)
      then show ?thesis using cut [of ?r0 e] True by (simp add: parts(4))
    next
      case False
      then obtain m where "m \<in> set (queue ps)" "removes ?doc e m" using acc e unfolding accounts_def by blast
      then show ?thesis by (rule removal_stays [OF wf kw s top])
    qed
  qed
  moreover have "observed ?ps e" if "e \<in> E" for e
  proof -
    from obs that obtain x where x: "x \<in> insert ?r0 (set (transient ps))" "contains ?doc x e"
      unfolding observed_iff by blast
    show ?thesis
    proof (cases "contains ?doc' x e")
      case True
      then show ?thesis using x(1) unfolding observed_iff parts(1-3) by auto
    next
      case False
      then show ?thesis using cut [OF x] unfolding observed_iff parts(1-3) by auto
    qed
  qed
  moreover have "isConnected ?doc' ?r0"
    using below [of "nid (root ?doc)" ?r0] r0 stay root_contains [OF wf] root_contains [OF c(1)] by (simp add: c(3))
  moreover have "apart ?r0 ?doc' (queue ?ps)"
    using ap stay below unfolding apart_def parts(4) by (auto split: if_splits)
  ultimately show ?thesis
    using c(1) kept_watching_remove [OF kw, of r] unfolding recorded_def parts(1,2) by blast
qed

lemma recorded_insert:
  assumes rec: "recorded a E W ps" and att: "attachable (live ps) p r"
  shows "recorded a E W (change_page (Insert_node p k r) ps)"
proof -
  let ?doc = "live ps" and ?doc' = "attach_node p k r (live ps)" and ?ps = "change_page (Insert_node p k r) ps"
  let ?m = "ChildList [] [Element_node r]" and ?r0 = "watched ps"
  have wf: "document_wf ?doc" and acc: "accounts ?r0 a E W ?doc (queue ps)" and obs: "\<forall>e\<in>E. observed ps e"
    and kw: "kept_watching ps" and r0: "isConnected ?doc ?r0" and ap: "apart ?r0 ?doc (queue ps)"
    using rec unfolding recorded_def by blast+
  obtain s where s: "get_node ?doc r = Some s" using detached_split [OF wf att] by metis
  note c = attach_trees [OF wf att s, of k] and below = contains_attach [OF wf att, of k]
  have parts: "live ?ps = ?doc'" "transient ?ps = transient ps" "watched ?ps = ?r0"
    "queue ?ps = (if observed ps p then queue ps @ [?m] else queue ps)"
    using att by (simp_all add: enqueue_def change_page.simps)
  have free: "\<not> contains ?doc r ?r0" using attachable_apart [OF wf att] contains_connected [OF wf] r0 by blast
  have attr: "getAttribute ?doc' x n = getAttribute ?doc x n" for x n
    by (rule getAttribute_map [OF c(2)]) simp
  have words: "attribute_words a ?doc' x = attribute_words a ?doc x" "hasAttribute ?doc' x a = hasAttribute ?doc x a" for x
    by (simp_all add: attribute_words_def hasAttribute_def attr)
  have more: "contains ?doc x e \<Longrightarrow> contains ?doc' x e" for x e by (simp add: below)
  have same: "contains ?doc' x e = contains ?doc x e" if "\<not> contains ?doc r e" for x e using that below by blast
  have adds: "adds ?doc' e ?m \<and> \<not> removes ?doc' e ?m \<and> observed ps p"
    if "contains ?doc ?r0 p" "contains ?doc r e" for e
    using that more inside_observed by simp
  have "accounts ?r0 a E W ?doc' (queue ?ps)"
    unfolding accounts_def below [of ?r0] words
  proof (intro conjI allI impI ballI)
    fix e assume e: "contains ?doc ?r0 e \<or> contains ?doc ?r0 p \<and> contains ?doc r e"
    show "covered ?doc' e (queue ?ps)"
    proof (cases "contains ?doc r e")
      case True
      have "\<not> contains ?doc ?r0 e"
        using True r0 attachable_apart [OF wf att] contains_connected [OF wf] by blast
      with e True adds show ?thesis by (simp add: parts(4) covered_append)
    next
      case False
      have "covered ?doc' e (queue ps)"
        unfolding covered_cong [OF same [OF False]] using acc e False by (simp add: accounts_def)
      then show ?thesis by (simp add: parts(4) covered_append)
    qed
  next
    fix e assume e: "e \<notin> E" "contains ?doc ?r0 e \<or> contains ?doc ?r0 p \<and> contains ?doc r e" "hasAttribute ?doc e a"
    show "\<exists>m\<in>set (queue ?ps). revives ?doc' e m"
    proof (cases "contains ?doc ?r0 e")
      case True
      then obtain m where "m \<in> set (queue ps)" "revives ?doc e m" using acc e unfolding accounts_def by blast
      moreover from this(2) have "revives ?doc' e m" using more by (cases m) auto
      ultimately show ?thesis by (auto simp: parts(4))
    next
      case False
      then show ?thesis using e adds [of e] by (auto simp: parts(4) revives_def)
    qed
  next
    fix e assume "e \<in> E" "W e \<noteq> attribute_words a ?doc e \<or> \<not> hasAttribute ?doc e a"
    then have "Attributes e a \<in> set (queue ps)" using acc unfolding accounts_def by blast
    then show "Attributes e a \<in> set (queue ?ps)" by (simp add: parts(4))
  next
    fix e assume "e \<in> E" "\<not> (contains ?doc ?r0 e \<or> contains ?doc ?r0 p \<and> contains ?doc r e)"
    then obtain m where "m \<in> set (queue ps)" "removes ?doc e m" using acc unfolding accounts_def by blast
    moreover from this(2) have "removes ?doc' e m" using more by (cases m) auto
    ultimately show "\<exists>m\<in>set (queue ?ps). removes ?doc' e m" by (auto simp: parts(4))
  qed
  moreover have "observed ?ps e" if "e \<in> E" for e
    using obs that more unfolding observed_iff parts(1-3) by blast
  moreover have "isConnected ?doc' ?r0"
    using more [of "nid (root ?doc)" ?r0] r0 root_contains [OF wf] root_contains [OF c(1)] by (simp add: c(3))
  moreover have "apart ?r0 ?doc' (queue ?ps)"
    using ap free below [of _ ?r0] unfolding apart_def parts(4) by (auto split: if_splits)
  moreover have "kept_watching ?ps"
    using kw unfolding kept_watching_def parts by (auto split: if_splits)
  ultimately show ?thesis using c(1) unfolding recorded_def parts(1,3) by blast
qed

lemma root_update [simp]: "nid (root (update_document i (with_attrs f) doc)) = nid (root doc)"
  by (simp add: update_document_def)

text \<open>The watched element stays where it is: no element around it is removed.\<close>

definition moves :: "nat \<Rightarrow> page_state \<Rightarrow> page_change \<Rightarrow> bool" where
  "moves r0 ps c \<longleftrightarrow> (\<exists>r. c = Remove_node r \<and> \<not> top_level (live ps) r \<and> contains (live ps) r r0)"

lemma recorded_change:
  assumes "recorded a E W ps" "asciiLower a = a" and stay: "\<not> moves (watched ps) ps c"
  shows "recorded a E W (change_page c ps)"
proof (cases c)
  case (Create_element i tag)
  show ?thesis
  proof (cases "get_node (live ps) i")
    case None
    then show ?thesis using recorded_create [OF assms(1)] Create_element by (simp add: change_page.simps)
  next
    case (Some n)
    then have "change_page c ps = ps" by (simp add: Create_element create_element_def change_page.simps)
    then show ?thesis using assms(1) by simp
  qed
next
  case (Set_attribute e name v)
  have wf: "document_wf (live ps)" using assms(1) by (simp add: recorded_def)
  have "getAttribute (setAttribute e name v (live ps)) x a = getAttribute (live ps) x a"
    if "x \<noteq> e \<or> asciiLower name \<noteq> a" for x
  proof (cases "get_node (live ps) e = None")
    case True
    then show ?thesis by (rule getAttribute_absent [OF wf])
  next
    case False
    then show ?thesis using that assms(2) by (auto simp: getAttribute_setAttribute [OF wf])
  qed
  then have "recorded a E W (enqueue (observed ps e) (Attributes e (asciiLower name))
      (ps\<lparr>live := setAttribute e name v (live ps)\<rparr>))"
    by (intro recorded_attribute [OF assms(1)]) (simp_all add: setAttribute_def update_document_wf wf)
  then show ?thesis by (simp add: Set_attribute change_page.simps)
next
  case (Remove_attribute e name)
  have wf: "document_wf (live ps)" using assms(1) by (simp add: recorded_def)
  have "recorded a E W (enqueue (observed ps e) (Attributes e (asciiLower name))
      (ps\<lparr>live := removeAttribute e name (live ps)\<rparr>))"
    using assms(2) getAttribute_removeAttribute [OF wf, of e name]
    by (intro recorded_attribute [OF assms(1)]) (auto simp: removeAttribute_def update_document_wf wf)
  then show ?thesis using assms(1) by (simp add: Remove_attribute change_page.simps)
next
  case (Remove_node r)
  then show ?thesis using recorded_remove [OF assms(1), of r] assms(1) stay
    by (cases "get_node (live ps) r = None \<or> top_level (live ps) r") (auto simp: change_page.simps moves_def)
next
  case (Insert_node p k r)
  then show ?thesis using recorded_insert [OF assms(1), of p r k] assms(1)
    by (cases "attachable (live ps) p r") (auto simp: change_page.simps)
qed

lemma change_page_root:
  assumes "document_wf (live ps)"
  shows "document_wf (live (change_page c ps)) \<and> nid (root (live (change_page c ps))) = nid (root (live ps))"
proof (cases c)
  case (Create_element i tag)
  then show ?thesis
    using assms create_trees [OF assms, of i tag]
    by (cases "get_node (live ps) i") (simp_all add: change_page.simps create_element_def)
next
  case (Remove_node r)
  then show ?thesis
    using assms detach_trees [OF assms, of r]
    by (cases "get_node (live ps) r"; cases "top_level (live ps) r")
      (auto simp: change_page.simps enqueue_def Let_def)
next
  case (Insert_node p k r)
  show ?thesis
  proof (cases "attachable (live ps) p r")
    case True
    then obtain s where "get_node (live ps) r = Some s" using detached_split [OF assms] by metis
    from attach_trees [OF assms True this, of k] True Insert_node show ?thesis
      by (simp add: change_page.simps enqueue_def)
  qed (use assms Insert_node in \<open>simp add: change_page.simps\<close>)
qed (use assms in \<open>simp_all add: change_page.simps enqueue_def setAttribute_def removeAttribute_def update_document_wf\<close>)

lemma page_changes_root:
  assumes "document_wf doc" "page_changes r0 cs doc = (doc', ms)"
  shows "document_wf doc'" "nid (root doc') = nid (root doc)"
proof -
  have "document_wf (live (fold change_page cs ps)) \<and>
      nid (root (live (fold change_page cs ps))) = nid (root (live ps))" if "document_wf (live ps)" for ps
    using that by (induction cs arbitrary: ps) (simp_all add: change_page_root)
  from this [of "watch r0 doc"] assms
  show "document_wf doc'" "nid (root doc') = nid (root doc)" by (auto simp: page_changes_def watch_def Let_def)
qed

section \<open>Batches\<close>

text \<open>The watched element is not moved by a batch of changes.\<close>

fun stays :: "nat \<Rightarrow> page_change list \<Rightarrow> page_state \<Rightarrow> bool" where
  "stays r0 [] ps = True"
| "stays r0 (c # cs) ps = (\<not> moves r0 ps c \<and> stays r0 cs (change_page c ps))"

lemma recorded_changes:
  "recorded a E W ps \<Longrightarrow> asciiLower a = a \<Longrightarrow> stays (watched ps) cs ps \<Longrightarrow> recorded a E W (fold change_page cs ps)"
  by (induction cs arbitrary: ps) (simp_all add: recorded_change)

lemma recorded_watch:
  assumes "document_wf doc" "isConnected doc r0" "\<And>e. e \<in> E \<longleftrightarrow> contains doc r0 e \<and> hasAttribute doc e a"
    "\<And>e. e \<in> E \<Longrightarrow> W e = attribute_words a doc e"
  shows "recorded a E W (watch r0 doc)"
  using assms by (auto simp: recorded_def watch_def accounts_def apart_def kept_watching_def observed_def)

lemma page_changes_accounts:
  assumes "document_wf doc" "isConnected doc r0" "\<And>e. e \<in> E \<longleftrightarrow> contains doc r0 e \<and> hasAttribute doc e a"
    "\<And>e. e \<in> E \<Longrightarrow> W e = attribute_words a doc e" "asciiLower a = a" "stays r0 cs (watch r0 doc)"
    and changes: "page_changes r0 cs doc = (doc', ms)"
  shows "accounts r0 a E W doc' ms" "apart r0 doc' ms" "isConnected doc' r0"
proof -
  have w: "watched (fold change_page cs ps) = watched ps" for ps
    by (induction cs arbitrary: ps) simp_all
  have "recorded a E W (fold change_page cs (watch r0 doc))"
    using recorded_watch [OF assms(1-4)] assms(5,6) by (intro recorded_changes) (simp_all add: watch_def)
  with changes show "accounts r0 a E W doc' ms" "apart r0 doc' ms" "isConnected doc' r0"
    by (auto simp: recorded_def w page_changes_def Let_def) (simp_all add: watch_def)
qed

text \<open>The root is never moved.\<close>

lemma connected_root: "isConnected doc (nid (root doc))"
  by (simp add: isConnected_def)

lemma root_moves: "document_wf (live ps) \<Longrightarrow> \<not> moves (nid (root (live ps))) ps c"
proof
  let ?doc = "live ps" and ?R = "nid (root (live ps))"
  assume wf: "document_wf ?doc" and "moves ?R ps c"
  then obtain r where r: "\<not> top_level ?doc r" "contains ?doc r ?R" by (auto simp: moves_def)
  then have "isConnected ?doc r" using contains_connected [OF wf r(2)] connected_root by simp
  then have "r = ?R" using contains_antisym [OF wf r(2)] root_contains [OF wf] by blast
  with r(1) show False by (simp add: top_level_def trees_def)
qed

lemma root_stays: "document_wf (live ps) \<Longrightarrow> stays (nid (root (live ps))) cs ps"
proof (induction cs arbitrary: ps)
  case (Cons c cs)
  with change_page_root [OF Cons.prems, of c] root_moves [OF Cons.prems, of c] show ?case
    using Cons.IH [of "change_page c ps"] by simp
qed simp

text \<open>Whether an element is moved does not depend on who watches the page.\<close>

lemma moves_live: "live ps = live ps' \<Longrightarrow> moves r0 ps c = moves r0 ps' c"
  by (simp add: moves_def)

lemma stays_live: "live ps = live ps' \<Longrightarrow> stays r0 cs ps = stays r0 cs ps'"
proof (induction cs arbitrary: ps ps')
  case (Cons c cs)
  from Cons.IH [OF change_page_live [OF Cons.prems, of c]] moves_live [OF Cons.prems, of r0 c] show ?case by simp
qed simp

text \<open>Moving a connected element leaves a record for the observer of the root, until the end.\<close>

lemma removes_more: "(\<And>x. contains doc x e \<Longrightarrow> contains doc' x e) \<Longrightarrow> removes doc e m \<Longrightarrow> removes doc' e m"
  by (cases m) auto

lemma change_page_queue: "set (queue ps) \<subseteq> set (queue (change_page c ps))"
  by (cases c) (auto simp: change_page.simps enqueue_def Let_def)

lemma removed_record_stays:
  assumes wf: "document_wf (live ps)" and kw: "kept_watching ps" and m: "m \<in> set (queue ps)" "removes (live ps) e m"
  shows "\<exists>m\<in>set (queue (change_page c ps)). removes (live (change_page c ps)) e m"
proof (cases "\<exists>r. c = Remove_node r \<and> get_node (live ps) r \<noteq> None \<and> \<not> top_level (live ps) r")
  case True
  then obtain r s where c: "c = Remove_node r" "get_node (live ps) r = Some s" "\<not> top_level (live ps) r" by blast
  from removal_stays [OF wf kw c(2,3) m] show ?thesis
    using c by (simp add: change_page.simps Let_def enqueue_def split: if_splits)
next
  case False
  have "contains (live (change_page c ps)) x e" if "contains (live ps) x e" for x
  proof (cases c)
    case (Create_element i tag)
    then show ?thesis
      using that contains_create [OF wf, of i tag x e] by (cases "get_node (live ps) i") (auto simp: change_page.simps create_element_def)
  next
    case (Insert_node p k r)
    then show ?thesis
      using that contains_attach [OF wf, of p r k x e] by (auto simp: change_page.simps enqueue_def)
  qed (use False that wf in \<open>auto simp: change_page.simps enqueue_def setAttribute_def removeAttribute_def\<close>)
  from removes_more [OF this m(2)] have "removes (live (change_page c ps)) e m" .
  moreover have "m \<in> set (queue (change_page c ps))" by (rule subsetD [OF change_page_queue m(1)])
  ultimately show ?thesis by blast
qed

lemma kept_watching_change: "kept_watching ps \<Longrightarrow> kept_watching (change_page c ps)"
proof (cases c)
  case (Remove_node r)
  then show "kept_watching ps \<Longrightarrow> ?thesis" by (simp add: kept_watching_remove)
qed (auto simp: kept_watching_def change_page.simps enqueue_def)

lemma removed_record_stays_fold:
  "document_wf (live ps) \<Longrightarrow> kept_watching ps \<Longrightarrow> \<exists>m\<in>set (queue ps). removes (live ps) e m \<Longrightarrow>
     \<exists>m\<in>set (queue (fold change_page cs ps)). removes (live (fold change_page cs ps)) e m"
proof (induction cs arbitrary: ps)
  case (Cons c cs)
  then have "\<exists>m\<in>set (queue (change_page c ps)). removes (live (change_page c ps)) e m"
    using removed_record_stays by blast
  with Cons.IH [of "change_page c ps"] Cons.prems show ?case
    by (simp add: kept_watching_change change_page_root)
qed simp

lemma connected_unmoved:
  assumes wf: "document_wf (live ps)" and e: "isConnected (live ps) e" "\<not> moves e ps c"
  shows "isConnected (live (change_page c ps)) e"
proof -
  let ?R = "nid (root (live ps))"
  have wf': "document_wf (live (change_page c ps))" and R: "nid (root (live (change_page c ps))) = ?R"
    using change_page_root [OF wf] by blast+
  have in_R: "contains (live ps) ?R e" using e(1) root_contains [OF wf] by simp
  have "contains (live (change_page c ps)) ?R e"
  proof (cases c)
    case (Create_element i tag)
    then show ?thesis
      using in_R contains_create [OF wf, of i tag ?R e] by (cases "get_node (live ps) i") (auto simp: change_page.simps create_element_def)
  next
    case (Insert_node p k r)
    then show ?thesis
      using in_R contains_attach [OF wf, of p r k ?R e] by (auto simp: change_page.simps enqueue_def)
  next
    case (Remove_node r)
    then show ?thesis
      using in_R e(2) contains_detach [OF wf, of r] by (auto simp: change_page.simps enqueue_def Let_def moves_def)
  qed (use in_R wf in \<open>auto simp: change_page.simps enqueue_def setAttribute_def removeAttribute_def\<close>)
  then show ?thesis using root_contains [OF wf'] R by simp
qed

lemma moved_record:
  assumes "document_wf (live ps)" "kept_watching ps" "watched ps = nid (root (live ps))"
    "isConnected (live ps) e" "\<not> stays e cs ps"
  shows "\<exists>m\<in>set (queue (fold change_page cs ps)). removes (live (fold change_page cs ps)) e m"
  using assms
proof (induction cs arbitrary: ps)
  case (Cons c cs)
  note wf = Cons.prems(1)
  have next_ok: "document_wf (live (change_page c ps))" "kept_watching (change_page c ps)"
    "watched (change_page c ps) = nid (root (live (change_page c ps)))"
    using Cons.prems change_page_root [OF wf, of c] kept_watching_change [of ps c] by simp_all
  show ?case
  proof (cases "moves e ps c")
    case True
    then obtain r where r: "c = Remove_node r" "\<not> top_level (live ps) r" "contains (live ps) r e"
      by (auto simp: moves_def)
    then obtain s where s: "get_node (live ps) r = Some s" by (auto elim: containsE [OF _ wf])
    let ?R = "nid (root (live ps))"
    have "contains (live ps) ?R r" "?R \<noteq> r"
      using r contains_connected [OF wf r(3)] Cons.prems(4) root_contains [OF wf] by (auto simp: top_level_def trees_def)
    then have "parent_observed ps r" using Cons.prems(3) by (auto simp: observed_iff)
    then have "ChildList [Element_node r] [] \<in> set (queue (change_page c ps))"
      "live (change_page c ps) = detach_node r (live ps)"
      using r s by (simp_all add: change_page.simps Let_def enqueue_def)
    moreover have "contains (detach_node r (live ps)) r e"
      using contains_detach [OF wf s r(2)] r(3) by blast
    ultimately have "\<exists>m\<in>set (queue (change_page c ps)). removes (live (change_page c ps)) e m" by force
    from removed_record_stays_fold [OF next_ok(1,2) this] show ?thesis by simp
  next
    case False
    with Cons.prems(5) have "\<not> stays e cs (change_page c ps)" by simp
    from Cons.IH [OF next_ok connected_unmoved [OF wf Cons.prems(4) False] this] show ?thesis by simp
  qed
qed simp

end
