(* ===== verification/Delivery.thy ===== *)
theory Delivery
  imports Page_Changes
begin

text \<open>
  What an element observer makes of a batch of records: if the records account for the changes of
  the part of the page below the observed element (\<open>accounts\<close>), the observer has exactly the
  elements there with the attribute afterwards, with the tokens of its value.
\<close>

section \<open>Adding and removing elements\<close>

lemma token_stack_calls:
  "matchElement (token_stack a tdel) doc e \<longleftrightarrow> hasAttribute doc e a"
  "elementAttributeChanged (token_stack a tdel) =
     Some (AttributeObserver_elementAttributeChanged a (TokenListObserver_delegate a tdel))"
  "call_back (elementMatched (token_stack a tdel)) doc e sd = TokenListObserver_elementMatchedAttribute a tdel doc e sd"
  "call_back (elementUnmatched (token_stack a tdel)) doc e sd = TokenListObserver_elementUnmatchedAttribute tdel doc e sd"
  by (simp_all add: AttributeObserver_new_def AttributeObserver_matchElement_def call_back_def TokenListObserver_callbacks)

lemma token_stack_tree:
  assumes "document_wf doc"
  shows "set (matchElementsInTree (token_stack a tdel) doc t) = {e. contains doc t e \<and> hasAttribute doc e a}"
proof (cases "get_node doc t")
  case (Some n)
  then show ?thesis by (simp add: AttributeObserver_new_def set_matchElementsInTree [OF assms Some])
next
  case None
  then show ?thesis
    by (simp add: AttributeObserver_new_def AttributeObserver_matchElementsInTree_def AttributeObserver_matchElement_def
        hasAttribute_def getAttribute_def querySelectorAll_def contains_def)
qed

definition in_sync :: "string \<Rightarrow> document \<Rightarrow> token_list_observer \<Rightarrow> nat \<Rightarrow> bool" where
  "in_sync a doc tlo e \<longleftrightarrow> map content (tokens_of tlo e) = attribute_words a doc e"

text \<open>An observer of a connected element, with the tokens of its elements.\<close>

definition observing :: "string \<Rightarrow> nat \<Rightarrow> document \<Rightarrow> element_observer \<Rightarrow> token_list_observer \<Rightarrow> bool" where
  "observing a r0 doc eo tlo \<longleftrightarrow> element eo = r0 \<and> isConnected doc r0 \<and> tokens_ok a (set (elements eo)) tlo"

lemma observing_active:
  "document_wf doc \<Longrightarrow> observing a r0 doc eo tlo \<Longrightarrow> ElementObserver_elementIsActive doc eo e \<longleftrightarrow> contains doc r0 e"
  using contains_connected [of doc r0 e] by (auto simp: observing_def ElementObserver_elementIsActive_def)

lemma removeElement_effect:
  assumes "observing a r0 doc eo (fst sd)"
    and "ElementObserver_removeElement (token_stack a tdel) doc e (eo, sd) = (eo', sd')"
  shows "observing a r0 doc eo' (fst sd') \<and> started eo' = started eo \<and> set (elements eo') = set (elements eo) - {e} \<and>
    (\<forall>x. x \<noteq> e \<longrightarrow> tokens_of (fst sd') x = tokens_of (fst sd) x)"
proof (cases "e \<in> set (elements eo)")
  case True
  then have "(eo', sd') = (eo\<lparr>elements := Set_delete e (elements eo)\<rparr>, TokenListObserver_elementUnmatchedAttribute tdel doc e sd)"
    using assms(2) by (simp add: ElementObserver_removeElement_def token_stack_calls)
  moreover have "tokens_ok a (set (elements eo)) (fst sd)" using assms(1) by (simp add: observing_def)
  from elementUnmatched_replaces [OF this, of tdel doc e] calculation show ?thesis
    using assms(1) by (simp add: observing_def replaces_def)
next
  case False
  then show ?thesis using assms by (simp add: ElementObserver_removeElement_def)
qed

lemma addElement_effect:
  assumes "document_wf doc" "observing a r0 doc eo (fst sd)"
    and "ElementObserver_addElement (token_stack a tdel) doc e (eo, sd) = (eo', sd')"
  shows "observing a r0 doc eo' (fst sd') \<and> started eo' = started eo \<and>
    set (elements eo') = set (elements eo) \<union> {x. x = e \<and> contains doc r0 x} \<and>
    (\<forall>x\<in>set (elements eo') - set (elements eo). in_sync a doc (fst sd') x) \<and>
    (\<forall>x\<in>set (elements eo). tokens_of (fst sd') x = tokens_of (fst sd) x)"
proof (cases "e \<notin> set (elements eo) \<and> contains doc r0 e")
  case True
  then have new: "(eo', sd') = (eo\<lparr>elements := Set_add e (elements eo)\<rparr>, TokenListObserver_elementMatchedAttribute a tdel doc e sd)"
    using assms(3) observing_active [OF assms(1,2)] by (simp add: ElementObserver_addElement_def token_stack_calls)
  have "tokens_ok a (set (elements eo)) (fst sd)" using assms(2) by (simp add: observing_def)
  from elementMatched_replaces [OF this, of e tdel doc] True obtain cs
    where "replaces tdel doc a (insert e (set (elements eo))) e [] [] cs sd
        (TokenListObserver_elementMatchedAttribute a tdel doc e sd)" "map content cs = attribute_words a doc e" by blast
  with new True assms(2) show ?thesis by (auto simp: observing_def replaces_def in_sync_def)
next
  case False
  then have "(eo', sd') = (eo, sd)"
    using assms(3) observing_active [OF assms(1,2)] by (auto simp: ElementObserver_addElement_def split: if_splits)
  with False assms(2) show ?thesis by auto
qed

lemma removeElements_effect:
  fixes tdel :: "'d token_delegate"
  assumes "observing a r0 doc eo (fst sd)"
    and "fold (ElementObserver_removeElement (token_stack a tdel) doc) xs (eo, sd) = (eo', sd')"
  shows "observing a r0 doc eo' (fst sd') \<and> started eo' = started eo \<and> set (elements eo') = set (elements eo) - set xs \<and>
    (\<forall>x. x \<notin> set xs \<longrightarrow> tokens_of (fst sd') x = tokens_of (fst sd) x)"
  using assms
proof (induction xs arbitrary: eo sd)
  case (Cons x xs)
  obtain eo1 sd1 where r: "ElementObserver_removeElement (token_stack a tdel) doc x (eo, sd) = (eo1, sd1)"
    by (metis prod.exhaust)
  note one = removeElement_effect [OF Cons.prems(1) r]
  have "fold (ElementObserver_removeElement (token_stack a tdel) doc) xs (eo1, sd1) = (eo', sd')"
    using Cons.prems(2) r by simp
  with Cons.IH one show ?case by (auto dest: Cons.IH [rotated])
qed simp

lemma addElements_effect:
  fixes tdel :: "'d token_delegate"
  assumes "document_wf doc" "observing a r0 doc eo (fst sd)"
    and "fold (ElementObserver_addElement (token_stack a tdel) doc) xs (eo, sd) = (eo', sd')"
  shows "observing a r0 doc eo' (fst sd') \<and> started eo' = started eo \<and>
    set (elements eo') = set (elements eo) \<union> {x \<in> set xs. contains doc r0 x} \<and>
    (\<forall>x\<in>set (elements eo') - set (elements eo). in_sync a doc (fst sd') x) \<and>
    (\<forall>x\<in>set (elements eo). tokens_of (fst sd') x = tokens_of (fst sd) x)"
  using assms(2,3)
proof (induction xs arbitrary: eo sd)
  case (Cons x xs)
  obtain eo1 sd1 where r: "ElementObserver_addElement (token_stack a tdel) doc x (eo, sd) = (eo1, sd1)"
    by (metis prod.exhaust)
  note one = addElement_effect [OF assms(1) Cons.prems(1) r]
  have "fold (ElementObserver_addElement (token_stack a tdel) doc) xs (eo1, sd1) = (eo', sd')"
    using Cons.prems(2) r by simp
  from Cons.IH [OF _ this] one have rest: "observing a r0 doc eo' (fst sd')" "started eo' = started eo1"
    "set (elements eo') = set (elements eo1) \<union> {x \<in> set xs. contains doc r0 x}"
    "\<forall>x\<in>set (elements eo') - set (elements eo1). in_sync a doc (fst sd') x"
    "\<forall>x\<in>set (elements eo1). tokens_of (fst sd') x = tokens_of (fst sd1) x" by blast+
  have "in_sync a doc (fst sd') y" if "y \<in> set (elements eo') - set (elements eo)" for y
    using that one rest(4,5) by (cases "y \<in> set (elements eo1)") (auto simp: in_sync_def)
  then show ?case using one rest by auto
qed simp

section \<open>Child lists\<close>

definition node_trees :: "(nat \<Rightarrow> nat list) \<Rightarrow> dom_node list \<Rightarrow> nat list" where
  "node_trees f ns = concat (map (\<lambda>n. case n of Element_node e \<Rightarrow> f e | Other_node \<Rightarrow> []) ns)"

lemma set_node_trees: "set (node_trees f ns) = {x. \<exists>e. Element_node e \<in> set ns \<and> x \<in> set (f e)}"
  by (fastforce simp: node_trees_def split: dom_node.splits)

lemma processRemovedNodes_fold:
  "ElementObserver_processRemovedNodes del doc ns sd =
     fold (ElementObserver_removeElement del doc) (node_trees (matchElementsInTree del doc) ns) sd"
  by (induction ns arbitrary: sd)
    (simp_all add: ElementObserver_processRemovedNodes_def node_trees_def ElementObserver_elementFromNode_def
      ElementObserver_processTree_def split: dom_node.split)

lemma processAddedNodes_fold:
  assumes "document_wf doc" "observing a r0 doc eo (fst sd)"
  shows "ElementObserver_processAddedNodes (token_stack a tdel) doc ns (eo, sd) =
     fold (ElementObserver_addElement (token_stack a tdel) doc)
       (node_trees (\<lambda>e. if contains doc r0 e then matchElementsInTree (token_stack a tdel) doc e else []) ns) (eo, sd)"
  using assms(2)
proof (induction ns arbitrary: eo sd)
  case (Cons n ns)
  let ?f = "\<lambda>e. if contains doc r0 e then matchElementsInTree (token_stack a tdel) doc e else []"
  let ?xs = "case n of Element_node e \<Rightarrow> ?f e | Other_node \<Rightarrow> []"
  obtain eo1 sd1 where r: "fold (ElementObserver_addElement (token_stack a tdel) doc) ?xs (eo, sd) = (eo1, sd1)"
    by (metis prod.exhaust)
  have "ElementObserver_processAddedNodes (token_stack a tdel) doc (n # ns) (eo, sd) =
      ElementObserver_processAddedNodes (token_stack a tdel) doc ns (eo1, sd1)"
    using r observing_active [OF assms(1) Cons.prems]
    by (auto simp: ElementObserver_processAddedNodes_def ElementObserver_elementFromNode_def
        ElementObserver_processTree_def split: dom_node.splits)
  moreover have "observing a r0 doc eo1 (fst sd1)"
    using addElements_effect [OF assms(1) Cons.prems r] by simp
  ultimately show ?case using Cons.IH r by (simp add: node_trees_def)
qed (simp add: ElementObserver_processAddedNodes_def node_trees_def)

lemma processChildList_effect:
  fixes tdel :: "'d token_delegate"
  assumes wf: "document_wf doc" and obs: "observing a r0 doc eo (fst sd)"
    and apart: "apart r0 doc [ChildList rs as]"
    and r: "ElementObserver_processMutation (token_stack a tdel) doc (ChildList rs as) (eo, sd) = (eo', sd')"
  defines "R \<equiv> {x. hasAttribute doc x a \<and> removes doc x (ChildList rs as)}"
    and "A \<equiv> {x. hasAttribute doc x a \<and> contains doc r0 x \<and> adds doc x (ChildList rs as)}"
  shows "observing a r0 doc eo' (fst sd') \<and> started eo' = started eo \<and>
    set (elements eo') = set (elements eo) - R \<union> A \<and>
    (\<forall>x\<in>set (elements eo'). in_sync a doc (fst sd') x \<or>
       (x \<in> set (elements eo) - R \<and> tokens_of (fst sd') x = tokens_of (fst sd) x))"
proof -
  let ?rs = "node_trees (matchElementsInTree (token_stack a tdel) doc) rs"
  let ?as = "node_trees (\<lambda>e. if contains doc r0 e then matchElementsInTree (token_stack a tdel) doc e else []) as"
  obtain eo1 sd1 where one: "fold (ElementObserver_removeElement (token_stack a tdel) doc) ?rs (eo, sd) = (eo1, sd1)"
    by (metis prod.exhaust)
  note e1 = removeElements_effect [OF obs one]
  have two: "fold (ElementObserver_addElement (token_stack a tdel) doc) ?as (eo1, sd1) = (eo', sd')"
    using r one processAddedNodes_fold [OF wf, of a r0 eo1 sd1 tdel as] e1
    by (simp add: ElementObserver_processMutation_def processRemovedNodes_fold)
  note e2 = addElements_effect [OF wf _ two, where ?r0.0 = r0]
  have R: "set ?rs = R" by (auto simp: set_node_trees token_stack_tree [OF wf] R_def)
  have "contains doc r0 y" if "Element_node y \<in> set as" "contains doc y x" "contains doc r0 x" for y x
    using contains_linear [OF wf that(2,3)] apart that(1) by (auto simp: apart_def)
  then have A: "{x \<in> set ?as. contains doc r0 x} = A"
    by (auto simp: set_node_trees token_stack_tree [OF wf] A_def split: if_splits)
  have "set (elements eo1) = set (elements eo) - R" "observing a r0 doc eo1 (fst sd1)" "started eo1 = started eo"
    "\<forall>x. x \<notin> R \<longrightarrow> tokens_of (fst sd1) x = tokens_of (fst sd) x" using e1 unfolding R by blast+
  moreover from e2 this(2) have "observing a r0 doc eo' (fst sd')" "started eo' = started eo1"
    "set (elements eo') = set (elements eo1) \<union> A"
    "\<forall>x\<in>set (elements eo') - set (elements eo1). in_sync a doc (fst sd') x"
    "\<forall>x\<in>set (elements eo1). tokens_of (fst sd') x = tokens_of (fst sd1) x" unfolding A by blast+
  ultimately show ?thesis by auto
qed

section \<open>Records\<close>

lemma processAttributes_effect:
  fixes tdel :: "'d token_delegate"
  assumes wf: "document_wf doc" and obs: "observing a r0 doc eo (fst sd)"
    and r: "ElementObserver_processMutation (token_stack a tdel) doc (Attributes e name) (eo, sd) = (eo', sd')"
  shows "observing a r0 doc eo' (fst sd') \<and> started eo' = started eo \<and>
    (\<forall>x. x \<noteq> e \<longrightarrow> (x \<in> set (elements eo') \<longleftrightarrow> x \<in> set (elements eo)) \<and> tokens_of (fst sd') x = tokens_of (fst sd) x) \<and>
    (e \<in> set (elements eo') \<longleftrightarrow> hasAttribute doc e a \<and> (e \<in> set (elements eo) \<or> contains doc r0 e)) \<and>
    (e \<in> set (elements eo') \<longrightarrow> in_sync a doc (fst sd') e \<or>
       (e \<in> set (elements eo) \<and> name \<noteq> a \<and> tokens_of (fst sd') e = tokens_of (fst sd) e))"
proof (cases "e \<in> set (elements eo)")
  case True
  show ?thesis
  proof (cases "hasAttribute doc e a")
    case has: True
    have ok: "tokens_ok a (set (elements eo)) (fst sd)" using obs by (simp add: observing_def)
    show ?thesis
    proof (cases "name = a")
      case True
      then have new: "(eo', sd') = (eo, TokenListObserver_elementAttributeValueChanged a tdel doc e sd)"
        using r \<open>e \<in> set (elements eo)\<close> has token_stack_calls(1) [of a tdel]
        by (simp add: ElementObserver_processMutation_def ElementObserver_processAttributeChange_def
            token_stack_calls TokenListObserver_callbacks)
      obtain ps us cs where rep: "replaces tdel doc a (set (elements eo)) e ps us cs sd
          (TokenListObserver_elementAttributeValueChanged a tdel doc e sd)"
        "map content (ps @ cs) = attribute_words a doc e"
        using attributeChanged_replaces [OF ok \<open>e \<in> set (elements eo)\<close>, of tdel doc] by blast
      from rep(2) have "map content ps @ map content cs = attribute_words a doc e" by simp
      with new rep(1) \<open>e \<in> set (elements eo)\<close> has obs show ?thesis
        by (auto simp: observing_def replaces_def in_sync_def)
    next
      case False
      then have "(eo', sd') = (eo, sd)"
        using r \<open>e \<in> set (elements eo)\<close> has
        by (simp add: ElementObserver_processMutation_def ElementObserver_processAttributeChange_def
            token_stack_calls AttributeObserver_elementAttributeChanged_def split: option.splits)
      with False obs \<open>e \<in> set (elements eo)\<close> has show ?thesis by simp
    qed
  next
    case False
    then have "ElementObserver_removeElement (token_stack a tdel) doc e (eo, sd) = (eo', sd')"
      using r True
      by (simp add: ElementObserver_processMutation_def ElementObserver_processAttributeChange_def token_stack_calls)
    from removeElement_effect [OF obs this] False show ?thesis by simp
  qed
next
  case False
  show ?thesis
  proof (cases "hasAttribute doc e a")
    case True
    then have "ElementObserver_addElement (token_stack a tdel) doc e (eo, sd) = (eo', sd')"
      using r False
      by (simp add: ElementObserver_processMutation_def ElementObserver_processAttributeChange_def token_stack_calls)
    from addElement_effect [OF wf obs this] True False obs show ?thesis by (auto simp: observing_def tokens_ok_def)
  next
    case no: False
    then have "(eo', sd') = (eo, sd)"
      using r False
      by (simp add: ElementObserver_processMutation_def ElementObserver_processAttributeChange_def token_stack_calls)
    with no False obs show ?thesis by simp
  qed
qed

text \<open>In the middle of a delivery, the records to come (\<open>ms\<close>) put right what is not right yet.\<close>

definition tracking :: "string \<Rightarrow> nat \<Rightarrow> document \<Rightarrow> mutation list \<Rightarrow> nat set \<Rightarrow> token_list_observer \<Rightarrow> bool" where
  "tracking a r0 doc ms E tlo \<longleftrightarrow>
     (\<forall>e. contains doc r0 e \<longrightarrow> covered doc e ms) \<and>
     (\<forall>e. e \<notin> E \<longrightarrow> contains doc r0 e \<longrightarrow> hasAttribute doc e a \<longrightarrow> (\<exists>m\<in>set ms. revives doc e m)) \<and>
     (\<forall>e\<in>E. contains doc r0 e \<longrightarrow> in_sync a doc tlo e \<or> Attributes e a \<in> set ms \<or> (\<exists>m\<in>set ms. removes doc e m)) \<and>
     (\<forall>e\<in>E. \<not> hasAttribute doc e a \<longrightarrow> Attributes e a \<in> set ms) \<and>
     (\<forall>e\<in>E. \<not> contains doc r0 e \<longrightarrow> hasAttribute doc e a \<longrightarrow> (\<exists>m\<in>set ms. removes doc e m))"

lemma accounts_tracking:
  "accounts r0 a E (\<lambda>e. map content (tokens_of tlo e)) doc ms \<Longrightarrow> tracking a r0 doc ms E tlo"
  unfolding accounts_def tracking_def in_sync_def by blast

lemma tracking_Attributes:
  assumes t: "tracking a r0 doc (Attributes e name # ms) E tlo"
    and other: "\<And>x. x \<noteq> e \<Longrightarrow> (x \<in> E' \<longleftrightarrow> x \<in> E) \<and> tokens_of tlo' x = tokens_of tlo x"
    and here: "e \<in> E' \<longleftrightarrow> hasAttribute doc e a \<and> (e \<in> E \<or> contains doc r0 e)"
    and sync: "e \<in> E' \<Longrightarrow> in_sync a doc tlo' e \<or> (e \<in> E \<and> name \<noteq> a \<and> tokens_of tlo' e = tokens_of tlo e)"
  shows "tracking a r0 doc ms E' tlo'"
  unfolding tracking_def
proof (intro conjI allI impI ballI)
  fix x assume "contains doc r0 x"
  then show "covered doc x ms" using t by (simp add: tracking_def)
next
  fix x assume x: "x \<notin> E'" "contains doc r0 x" "hasAttribute doc x a"
  then have "x \<noteq> e" using here by blast
  with x other t show "\<exists>m\<in>set ms. revives doc x m" by (auto simp: tracking_def)
next
  fix x assume x: "x \<in> E'" "contains doc r0 x"
  show "in_sync a doc tlo' x \<or> Attributes x a \<in> set ms \<or> (\<exists>m\<in>set ms. removes doc x m)"
  proof (cases "x = e")
    case True
    with sync x t show ?thesis by (auto simp: tracking_def in_sync_def)
  next
    case False
    with other x t show ?thesis by (auto simp: tracking_def in_sync_def)
  qed
next
  fix x assume x: "x \<in> E'" "\<not> hasAttribute doc x a"
  then have "x \<noteq> e" using here by blast
  with x other t show "Attributes x a \<in> set ms" by (auto simp: tracking_def)
next
  fix x assume x: "x \<in> E'" "\<not> contains doc r0 x" "hasAttribute doc x a"
  then have "x \<in> E" using here other by (cases "x = e") blast+
  with x t show "\<exists>m\<in>set ms. removes doc x m" by (auto simp: tracking_def)
qed

lemma tracking_ChildList:
  assumes t: "tracking a r0 doc (ChildList rs as # ms) E tlo"
  defines "R \<equiv> {x. hasAttribute doc x a \<and> removes doc x (ChildList rs as)}"
    and "A \<equiv> {x. hasAttribute doc x a \<and> contains doc r0 x \<and> adds doc x (ChildList rs as)}"
  assumes E': "E' = E - R \<union> A"
    and sync: "\<And>x. x \<in> E' \<Longrightarrow> in_sync a doc tlo' x \<or> (x \<in> E - R \<and> tokens_of tlo' x = tokens_of tlo x)"
  shows "tracking a r0 doc ms E' tlo'"
  unfolding tracking_def
proof (intro conjI allI impI ballI)
  fix x assume "contains doc r0 x"
  then show "covered doc x ms" using t by (simp add: tracking_def)
next
  fix x assume x: "x \<notin> E'" "contains doc r0 x" "hasAttribute doc x a"
  show "\<exists>m\<in>set ms. revives doc x m"
  proof (cases "x \<in> R")
    case True
    then have "\<exists>m\<in>set ms. adds doc x m" using t x by (auto simp: tracking_def R_def)
    then show ?thesis by (auto simp: revives_def)
  next
    case False
    then have "x \<notin> E" "\<not> adds doc x (ChildList rs as)" using x E' by (auto simp: A_def)
    with t x show ?thesis unfolding tracking_def by (auto simp: revives_def)
  qed
next
  fix x assume x: "x \<in> E'" "contains doc r0 x"
  show "in_sync a doc tlo' x \<or> Attributes x a \<in> set ms \<or> (\<exists>m\<in>set ms. removes doc x m)"
  proof (cases "in_sync a doc tlo' x")
    case False
    with sync [OF x(1)] have old: "x \<in> E" "x \<notin> R" "\<not> in_sync a doc tlo x" by (auto simp: in_sync_def)
    then have or: "Attributes x a \<in> set ms \<or> (\<exists>m\<in>set (ChildList rs as # ms). removes doc x m)"
      using t x(2) unfolding tracking_def by fastforce
    show ?thesis
    proof (cases "hasAttribute doc x a")
      case True
      with old(2) have "\<not> removes doc x (ChildList rs as)" by (simp add: R_def)
      with or show ?thesis by auto
    next
      case False
      with t old(1) have "Attributes x a \<in> set (ChildList rs as # ms)" unfolding tracking_def by blast
      then show ?thesis by simp
    qed
  qed simp
next
  fix x assume x: "x \<in> E'" "\<not> hasAttribute doc x a"
  then have "x \<in> E" using E' by (auto simp: A_def)
  with t x(2) have "Attributes x a \<in> set (ChildList rs as # ms)" unfolding tracking_def by blast
  then show "Attributes x a \<in> set ms" by simp
next
  fix x assume x: "x \<in> E'" "\<not> contains doc r0 x" "hasAttribute doc x a"
  then have "x \<in> E" "\<not> removes doc x (ChildList rs as)" using E' by (auto simp: A_def R_def)
  with t x(2,3) show "\<exists>m\<in>set ms. removes doc x m" unfolding tracking_def by fastforce
qed

lemma processMutations_tracking:
  fixes tdel :: "'d token_delegate"
  assumes wf: "document_wf doc" and obs: "observing a r0 doc eo (fst sd)" and ap: "apart r0 doc ms"
    and t: "tracking a r0 doc ms (set (elements eo)) (fst sd)"
    and r: "fold (ElementObserver_processMutation (token_stack a tdel) doc) ms (eo, sd) = (eo', sd')"
  shows "observing a r0 doc eo' (fst sd') \<and> started eo' = started eo \<and>
    set (elements eo') = {e. contains doc r0 e \<and> hasAttribute doc e a} \<and>
    (\<forall>e\<in>set (elements eo'). in_sync a doc (fst sd') e)"
  using obs ap t r
proof (induction ms arbitrary: eo sd)
  case Nil
  then show ?case by (auto simp: tracking_def)
next
  case (Cons m ms)
  obtain eo1 sd1 where one: "ElementObserver_processMutation (token_stack a tdel) doc m (eo, sd) = (eo1, sd1)"
    by (metis prod.exhaust)
  have mid: "observing a r0 doc eo1 (fst sd1) \<and> started eo1 = started eo \<and> tracking a r0 doc ms (set (elements eo1)) (fst sd1)"
  proof (cases m)
    case (Attributes e name)
    note eff = processAttributes_effect [OF wf Cons.prems(1) one [unfolded Attributes]]
    have "tracking a r0 doc ms (set (elements eo1)) (fst sd1)"
    proof (rule tracking_Attributes [OF Cons.prems(3) [unfolded Attributes]])
      show "(x \<in> set (elements eo1) \<longleftrightarrow> x \<in> set (elements eo)) \<and> tokens_of (fst sd1) x = tokens_of (fst sd) x"
        if "x \<noteq> e" for x using eff that by blast
    qed (use eff in blast)+
    with eff show ?thesis by blast
  next
    case (ChildList rs as)
    have "apart r0 doc [ChildList rs as]" using Cons.prems(2) ChildList by (auto simp: apart_def)
    note eff = processChildList_effect [OF wf Cons.prems(1) this one [unfolded ChildList]]
    have "tracking a r0 doc ms (set (elements eo1)) (fst sd1)"
      by (rule tracking_ChildList [OF Cons.prems(3) [unfolded ChildList]]) (use eff in simp_all)
    with eff show ?thesis by blast
  qed
  have "fold (ElementObserver_processMutation (token_stack a tdel) doc) ms (eo1, sd1) = (eo', sd')"
    using Cons.prems(4) one by simp
  moreover have "apart r0 doc ms" using Cons.prems(2) by (auto simp: apart_def)
  ultimately show ?case
    using Cons.IH [OF conjunct1 [OF mid] _ conjunct2 [OF conjunct2 [OF mid]]] mid by simp
qed

end
