(* ===== verification/Application_Sync.thy ===== *)
theory Application_Sync
  imports Application Delivery
begin

text \<open>
  The running application follows its document: which scopes are connected after the start, and
  after any batch of changes of the page.
\<close>

section \<open>Following the changes of a page\<close>

text \<open>The application observes the document from its root and is up to date with it.\<close>

definition app_synced :: "document \<Rightarrow> 'u application \<Rightarrow> bool" where
  "app_synced doc a \<longleftrightarrow> app_ok a \<and> (case app_observers a of (eo, tlo, vlo, so) \<Rightarrow>
     started eo \<and> element eo = nid (root doc) \<and>
     tokens_synced (controllerAttribute (app_schema a)) doc (set (elements eo)) tlo \<and>
     set (elements eo) = {e. isConnected doc e \<and> hasAttribute doc e (controllerAttribute (app_schema a))})"

lemma app_syncedI:
  assumes "app_ok a" "app_observers a = (eo, tlo, vlo, so)" "started eo" "element eo = nid (root doc)"
    "tokens_synced (controllerAttribute (app_schema a)) doc (set (elements eo)) tlo"
    "set (elements eo) = {e. isConnected doc e \<and> hasAttribute doc e (controllerAttribute (app_schema a))}"
  shows "app_synced doc a"
  unfolding app_synced_def assms(2) prod.case using assms by blast

lemma app_synced_scopes: "app_synced doc a \<Longrightarrow> ran (app_scopes a) = document_scopes (app_schema a) doc"
proof -
  assume s: "app_synced doc a"
  obtain eo tlo vlo so where obs: "app_observers a = (eo, tlo, vlo, so)" by (metis prod.exhaust)
  from s have ok: "app_ok a"
    and sync: "tokens_synced (controllerAttribute (app_schema a)) doc (set (elements eo)) tlo"
    and els: "set (elements eo) = {e. isConnected doc e \<and> hasAttribute doc e (controllerAttribute (app_schema a))}"
    unfolding app_synced_def obs prod.case by blast+
  show ?thesis by (rule synced_scopes [OF ok obs sync els])
qed

lemma refresh_element [simp]:
  assumes "started s" "distinct (elements s)"
  shows "element (fst (ElementObserver_refresh del doc (s, d))) = element s"
    "started (fst (ElementObserver_refresh del doc (s, d)))"
  using assms by (simp_all add: refresh_eq)

lemma started_again:
  assumes "ElementObserver_start del doc (ElementObserver_new r, d) = (eo, d')"
  shows "started eo \<and> element eo = r"
proof -
  let ?s = "(ElementObserver_new r)\<lparr>started := True, mutationObserver := Some []\<rparr>"
  have "eo = fst (ElementObserver_refresh del doc (?s, d))"
    using assms by (simp add: ElementObserver_start_def ElementObserver_new_def)
  then show ?thesis
    using refresh_element [of ?s del doc d] by (simp add: ElementObserver_new_def)
qed

lemma deliver_changes_synced:
  fixes a :: "'u application"
  defines "n \<equiv> controllerAttribute (app_schema a)"
  assumes synced: "app_synced doc a" and wf: "document_wf doc" and lower: "asciiLower n = n"
    and changes: "page_changes (nid (root doc)) cs doc = (doc', ms)"
  shows "app_synced doc' (deliver_scopes doc' ms a)"
proof -
  obtain eo tlo vlo so where obs: "app_observers a = (eo, tlo, vlo, so)" by (metis prod.exhaust)
  let ?tdel = "ValueListObserver_delegate (ScopeObserver_delegate (Router_delegate (app_schema a)))"
  let ?d = "(vlo, so, app_router a, app_env a)"
  obtain eo' tlo' vlo' so' r env where run: "fold (ElementObserver_processMutation (token_stack n ?tdel) doc') ms
      (eo, tlo, ?d) = (eo', tlo', vlo', so', r, env)" by (metis prod.exhaust)
  have ok: "app_ok a" and st: "started eo" and el: "element eo = nid (root doc)"
    and sync: "tokens_synced n doc (set (elements eo)) tlo"
    and els: "set (elements eo) = {e. isConnected doc e \<and> hasAttribute doc e n}"
    using synced unfolding app_synced_def obs n_def prod.case by blast+
  have t: "tokens_ok n (set (elements eo)) tlo" using ok by (simp add: app_ok_iff obs n_def)
  note root = page_changes_root [OF wf changes]
  have "stays (nid (root doc)) cs (watch (nid (root doc)) doc)"
    using root_stays [of "watch (nid (root doc)) doc" cs] wf by (simp add: watch_def)
  note account = page_changes_accounts [OF wf connected_root _ _ lower this changes,
      of "set (elements eo)" "\<lambda>e. map content (tokens_of tlo e)"]
  have "accounts (nid (root doc)) n (set (elements eo)) (\<lambda>e. map content (tokens_of tlo e)) doc' ms"
    "apart (nid (root doc)) doc' ms" "isConnected doc' (nid (root doc))"
    using account els sync root_contains [OF wf] by (simp_all add: tokens_synced_def)
  then have "tracking n (nid (root doc)) doc' ms (set (elements eo)) tlo" "apart (nid (root doc)) doc' ms"
    and "observing n (nid (root doc)) doc' eo tlo"
    using t el by (simp_all add: accounts_tracking observing_def)
  then have new: "observing n (nid (root doc)) doc' eo' tlo'" "started eo' = started eo"
    "set (elements eo') = {x. isConnected doc' x \<and> hasAttribute doc' x n}"
    "\<forall>e\<in>set (elements eo'). in_sync n doc' tlo' e"
    using processMutations_tracking [OF root(1) _ _ _ run, where ?r0.0 = "nid (root doc)"]
      root_contains [OF root(1)] root(2) by simp_all
  have eq: "deliver_scopes doc' ms a = with_stack (eo', tlo', vlo', so', r, env) a"
    using run st by (simp add: deliver_scopes_def ScopeObserver_deliver_def app_stack_def obs
        ElementObserver_processMutations_def n_def)
  have ok': "app_ok (with_stack (eo', tlo', vlo', so', r, env) a)"
    using deliver_scopes_ok [OF ok, of doc' ms] by (simp add: eq)
  have obs': "app_observers (with_stack (eo', tlo', vlo', so', r, env) a) = (eo', tlo', vlo', so')"
    and sch: "app_schema (with_stack (eo', tlo', vlo', so', r, env) a) = app_schema a"
    by (simp_all add: with_stack_def)
  have "tokens_synced n doc' (set (elements eo')) tlo'" "element eo' = nid (root doc')"
    using new root(2) by (simp_all add: tokens_synced_def in_sync_def observing_def)
  then show ?thesis
    unfolding eq
    by (intro app_syncedI [OF ok' obs']; simp only: sch n_def [symmetric] new(2) st) (rule new(3))
qed

text \<open>The start of an application whose observers have not run yet brings it up to date.\<close>

lemma start_synced:
  assumes ok: "app_ok a" and wf: "document_wf doc"
    and fresh: "app_observers a = app_observers (Application_new (nid (root doc)) (app_schema a) u)"
  shows "app_synced doc (Application_start doc a)"
proof -
  let ?a = "controllerAttribute (app_schema a)" and ?b = "map_dispatcher Dispatcher_start a"
  let ?tdel = "ValueListObserver_delegate (ScopeObserver_delegate (Router_delegate (app_schema a)))"
  let ?d = "(ValueListObserver_new, ScopeObserver_new, app_router ?b, app_env ?b)"
  have st: "app_stack ?b = (ElementObserver_new (nid (root doc)), TokenListObserver_new, ?d)"
    using fresh by (simp add: app_stack_def map_dispatcher_def Application_new_def)
  obtain eo tlo vlo so r env where run: "ElementObserver_start (token_stack ?a ?tdel) doc
      (ElementObserver_new (nid (root doc)), TokenListObserver_new, ?d) = (eo, tlo, vlo, so, r, env)"
    by (metis prod.exhaust)
  then have start: "Application_start doc a = with_stack (eo, tlo, vlo, so, r, env) ?b"
    by (simp add: Application_start_def Router_start_def st ScopeObserver_start_def ValueListObserver_start_def
        TokenListObserver_start_def AttributeObserver_start_def)
  have "element_client.ok (\<lambda>E sd. tokens_ok ?a E (fst sd) \<and> tokens_synced ?a doc E (fst sd))
      (ElementObserver_new (nid (root doc)), TokenListObserver_new, ?d)"
    unfolding synced.observer.ok_def by (simp add: tokens_ok_new tokens_synced_def)
  then have "element_client.ok (\<lambda>E sd. tokens_ok ?a E (fst sd) \<and> tokens_synced ?a doc E (fst sd))
      (eo, tlo, vlo, so, r, env)"
    unfolding run [symmetric] by (rule synced.observer.ok_start)
  then have "tokens_synced ?a doc (set (elements eo)) tlo"
    unfolding synced.observer.ok_def by simp
  moreover have "set (elements eo) = {e. isConnected doc e \<and> hasAttribute doc e ?a}"
    by (rule started_elements [OF wf refl run])
  moreover have "app_observers (Application_start doc a) = (eo, tlo, vlo, so)"
    "app_schema (Application_start doc a) = app_schema a"
    by (simp_all add: start with_stack_def map_dispatcher_def)
  moreover have "started eo \<and> element eo = nid (root doc)"
    using started_again [OF run] by (simp add: ElementObserver_new_def)
  moreover have "app_ok (Application_start doc a)" using app_step_ok [OF app_step.start ok] .
  ultimately show ?thesis by (intro app_syncedI [of _ eo tlo vlo so]) simp_all
qed

end
