(* ===== verification/Binding_Sync.thy ===== *)
theory Binding_Sync
  imports Application_Sync
begin

text \<open>
  The \<open>BindingObserver\<close> of a connected context follows the page: it is up to date when it is
  started, and again when the records the browser kept of a batch of changes are delivered, if the
  element of its scope was not moved by them.
\<close>

section \<open>What an observer never changes\<close>

definition settings :: "element_observer \<times> 'd \<Rightarrow> nat \<times> bool \<times> mutation list option" where
  "settings sd = (element (fst sd), started (fst sd), mutationObserver (fst sd))"

lemma settings_fold: "(\<And>x sd. settings (f x sd) = settings sd) \<Longrightarrow> settings (fold f xs sd) = settings sd"
  by (induction xs arbitrary: sd) simp_all

lemma settings_element [simp]:
  "settings (ElementObserver_addElement del doc e sd) = settings sd"
  "settings (ElementObserver_removeElement del doc e sd) = settings sd"
  by (simp_all add: settings_def ElementObserver_addElement_def ElementObserver_removeElement_def split_beta Let_def)

lemma settings_attribute [simp]:
  "settings (ElementObserver_processAttributeChange del doc e name sd) = settings sd"
  by (cases sd) (simp add: ElementObserver_processAttributeChange_def split: option.split,
    simp add: settings_def)

lemma settings_nodes [simp]:
  "settings (ElementObserver_processAddedNodes del doc ns sd) = settings sd"
  "settings (ElementObserver_processRemovedNodes del doc ns sd) = settings sd"
  unfolding ElementObserver_processAddedNodes_def ElementObserver_processRemovedNodes_def ElementObserver_processTree_def
  by (rule settings_fold, simp add: settings_fold split: option.split)+

lemma settings_processMutation [simp]: "settings (ElementObserver_processMutation del doc m sd) = settings sd"
  by (cases m) (simp_all add: ElementObserver_processMutation_def)

lemma settings_refresh [simp]: "settings (ElementObserver_refresh del doc sd) = settings sd"
  by (simp add: ElementObserver_refresh_def Let_def settings_fold)

section \<open>Following the page\<close>

definition observer_follows :: "schema \<Rightarrow> document \<Rightarrow> scope \<Rightarrow> binding_observer \<Rightarrow> bool" where
  "observer_follows sch doc sc s \<longleftrightarrow>
     (case valueListObserver s of
        None \<Rightarrow> False
      | Some (eo, tlo, vlo) \<Rightarrow>
          started eo \<and> element eo = scope_element sc \<and> mutationObserver eo = Some [] \<and>
          set (elements eo) = {e. contains doc (scope_element sc) e \<and> hasAttribute doc e (actionAttribute sch)} \<and>
          tokens_synced (actionAttribute sch) doc (set (elements eo)) tlo)"

lemma observer_started:
  assumes wf: "document_wf doc"
    and r: "ElementObserver_start (token_stack a tdel) doc (ElementObserver_new r, tlo, d) = (eo, sd)"
  shows "settings (eo, sd) = (r, True, Some [])"
    and "set (elements eo) = {e. contains doc r e \<and> hasAttribute doc e a}"
proof -
  let ?s = "(ElementObserver_new r)\<lparr>started := True, mutationObserver := Some []\<rparr>"
  have eq: "ElementObserver_start (token_stack a tdel) doc (ElementObserver_new r, tlo, d) =
      ElementObserver_refresh (token_stack a tdel) doc (?s, tlo, d)"
    by (simp add: ElementObserver_start_def ElementObserver_new_def)
  show "settings (eo, sd) = (r, True, Some [])"
    unfolding r [symmetric] eq settings_refresh by (simp add: settings_def ElementObserver_new_def)
  have act: "ElementObserver_elementIsActive doc ?s e \<longleftrightarrow> contains doc r e" for e
    using contains_connected [OF wf, of r e] by (auto simp: ElementObserver_elementIsActive_def ElementObserver_new_def)
  have "elements eo = filter (\<lambda>e. ElementObserver_elementIsActive doc ?s e)
      (Set_of_array (matchElementsInTree (token_stack a tdel) doc r))"
    using r refresh_eq [of ?s "token_stack a tdel" doc "(tlo, d)"] unfolding eq by (simp add: ElementObserver_new_def)
  then show "set (elements eo) = {e. contains doc r e \<and> hasAttribute doc e a}"
    by (auto simp: act token_stack_tree [OF wf])
qed

text \<open>A binding observer that has just been started.\<close>

definition just_started :: "schema \<Rightarrow> document \<Rightarrow> scope \<Rightarrow> binding_observer \<Rightarrow> bool" where
  "just_started sch doc sc s \<longleftrightarrow> (\<exists>d d'. BindingObserver_start sch sc doc (BindingObserver_new, d) = (s, d'))"

lemma just_started_follows:
  assumes wf: "document_wf doc" and s: "just_started sch doc sc s"
  shows "observer_follows sch doc sc s"
proof -
  let ?a = "actionAttribute sch" and ?tdel = "ValueListObserver_delegate (BindingObserver_delegate sc)"
  from s obtain d d' where s: "BindingObserver_start sch sc doc (BindingObserver_new, d) = (s, d')"
    by (auto simp: just_started_def)
  obtain eo tlo vlo bs d1 where run: "ElementObserver_start (token_stack ?a ?tdel) doc
      (ElementObserver_new (scope_element sc), TokenListObserver_new, ValueListObserver_new, [], d) =
      (eo, tlo, vlo, bs, d1)" by (metis prod.exhaust)
  then have "s = \<lparr>valueListObserver = Some (eo, tlo, vlo), bindingsByAction = bs\<rparr>"
    using s by (simp add: BindingObserver_start_def BindingObserver_new_def ValueListObserver_start_def
        TokenListObserver_start_def AttributeObserver_start_def)
  moreover have "element_client.ok (\<lambda>E sd. tokens_ok ?a E (fst sd) \<and> tokens_synced ?a doc E (fst sd))
      (ElementObserver_new (scope_element sc), TokenListObserver_new, ValueListObserver_new, [], d)"
    unfolding synced.observer.ok_def by (simp add: tokens_ok_new tokens_synced_def)
  then have "element_client.ok (\<lambda>E sd. tokens_ok ?a E (fst sd) \<and> tokens_synced ?a doc E (fst sd))
      (eo, tlo, vlo, bs, d1)"
    unfolding run [symmetric] by (rule synced.observer.ok_start)
  then have "tokens_synced ?a doc (set (elements eo)) tlo" unfolding synced.observer.ok_def by simp
  ultimately show ?thesis
    using observer_started [OF wf run] by (simp add: observer_follows_def settings_def)
qed

text \<open>An observer with the records of a batch waiting.\<close>

definition behind :: "schema \<Rightarrow> page_change list \<Rightarrow> document \<Rightarrow> scope \<Rightarrow> binding_observer \<Rightarrow> bool" where
  "behind sch cs doc sc s \<longleftrightarrow> (\<exists>s0. observer_follows sch doc sc s0 \<and>
     s = BindingObserver_record (snd (page_changes (scope_element sc) cs doc)) s0)"

lemma behind_deliver:
  assumes wf: "document_wf doc" and lower: "asciiLower (actionAttribute sch) = actionAttribute sch"
    and conn: "isConnected doc (scope_element sc)" and stay: "stays (scope_element sc) cs (watch (scope_element sc) doc)"
    and ok: "binding_observer_ok sch sc s" and s: "behind sch cs doc sc s"
    and r: "BindingObserver_deliver sch sc (fst (page_changes (scope_element sc) cs doc)) (s, d) = (s', d')"
  shows "observer_follows sch (fst (page_changes (scope_element sc) cs doc)) sc s'"
proof -
  let ?a = "actionAttribute sch" and ?x = "scope_element sc"
  let ?tdel = "ValueListObserver_delegate (BindingObserver_delegate sc)"
  obtain doc' ms where pc: "page_changes ?x cs doc = (doc', ms)" by (cases "page_changes ?x cs doc")
  obtain s0 where s0: "observer_follows sch doc sc s0" "s = BindingObserver_record ms s0"
    using s pc by (auto simp: behind_def)
  then obtain eo tlo vlo where v: "valueListObserver s0 = Some (eo, tlo, vlo)" and eo: "started eo" "element eo = ?x"
    "mutationObserver eo = Some []" "set (elements eo) = {e. contains doc ?x e \<and> hasAttribute doc e ?a}"
    "tokens_synced ?a doc (set (elements eo)) tlo"
    unfolding observer_follows_def by (auto split: option.splits prod.splits)
  let ?eo = "eo\<lparr>mutationObserver := Some ms\<rparr>" and ?eoq = "eo\<lparr>mutationObserver := Some []\<rparr>"
  have sv: "valueListObserver s = Some (?eo, tlo, vlo)"
    using s0(2) v eo(3) by (simp add: BindingObserver_record_def fold_record_mutation)
  then have t: "tokens_ok ?a (set (elements eo)) tlo" using ok by (simp add: binding_observer_ok_def)
  note account = page_changes_accounts [OF wf conn _ _ lower stay pc,
      of "set (elements eo)" "\<lambda>e. map content (tokens_of tlo e)"]
  have acc: "accounts ?x ?a (set (elements eo)) (\<lambda>e. map content (tokens_of tlo e)) doc' ms" "apart ?x doc' ms"
    "isConnected doc' ?x"
    using account eo(4,5) by (simp_all add: tokens_synced_def)
  obtain eo' tlo' vlo' bs' d1 where run: "fold (ElementObserver_processMutation (token_stack ?a ?tdel) doc') ms
      (?eoq, tlo, vlo, bindingsByAction s, d) = (eo', tlo', vlo', bs', d1)" by (metis prod.exhaust)
  have s': "s' = \<lparr>valueListObserver = Some (eo', tlo', vlo'), bindingsByAction = bs'\<rparr>"
    using r pc sv run eo(1) by (simp add: BindingObserver_deliver_def deliver_mutations_def ElementObserver_processMutations_def)
  have "observing ?a ?x doc' ?eoq tlo" "tracking ?a ?x doc' ms (set (elements ?eoq)) tlo"
    using t acc eo(2) by (simp_all add: observing_def accounts_tracking)
  then have "set (elements eo') = {e. contains doc' ?x e \<and> hasAttribute doc' e ?a}"
    "\<forall>e\<in>set (elements eo'). in_sync ?a doc' tlo' e"
    using processMutations_tracking [OF page_changes_root(1) [OF wf pc] _ acc(2) _ run] by simp_all
  moreover have "settings (eo', tlo', vlo', bs', d1) = settings (?eoq, tlo, vlo, bindingsByAction s, d)"
    unfolding run [symmetric] by (rule settings_fold) simp
  ultimately show ?thesis
    using eo(1,2) by (simp add: observer_follows_def s' pc settings_def tokens_synced_def in_sync_def)
qed

text \<open>Without records there is nothing to deliver.\<close>

lemma follows_deliver:
  assumes "observer_follows sch doc sc s" "BindingObserver_deliver sch sc doc' (s, d) = (s', d')"
  shows "s' = s \<and> d' = d"
  using assms by (cases s) (auto simp: observer_follows_def BindingObserver_deliver_def deliver_mutations_def
      ElementObserver_processMutations_def split: option.splits prod.splits)

end
