(* ===== verification/Context_Sync.thy ===== *)
theory Context_Sync
  imports Binding_Sync
begin

text \<open>
  What holds of the binding observers of all connected contexts, kept by whatever the application
  does if it holds of an observer that has just been started.
\<close>

section \<open>Modules\<close>

definition observers_are :: "(scope \<Rightarrow> binding_observer \<Rightarrow> bool) \<Rightarrow> 'u module \<Rightarrow> bool" where
  "observers_are P m \<longleftrightarrow> (\<forall>sc c. sc \<in> set (connectedContexts m) \<longrightarrow> Map_get (contextsByScope m) sc = Some c \<longrightarrow>
     P sc (bindingObserver c))"

definition includes_started :: "schema \<Rightarrow> document \<Rightarrow> (scope \<Rightarrow> binding_observer \<Rightarrow> bool) \<Rightarrow> bool" where
  "includes_started sch doc P \<longleftrightarrow> (\<forall>sc s. just_started sch doc sc s \<longrightarrow> P sc s)"

lemma disconnected_observer: "context_ok sch sc False c \<Longrightarrow> bindingObserver c = BindingObserver_new"
proof -
  assume c: "context_ok sch sc False c"
  then have "valueListObserver (bindingObserver c) = None" by (simp add: context_ok_def del: not_None_eq)
  with c show ?thesis
    by (cases "bindingObserver c") (simp add: context_ok_def binding_observer_ok_def BindingObserver_new_def)
qed

lemma Module_fetch_observer:
  assumes "module_ok sch ident C m" "sc \<notin> C"
    and "Module_fetchContextForScope doc sc (m, env) = ((m1, env1), c)"
  shows "bindingObserver c = BindingObserver_new \<and> context_scope c = sc"
proof (cases "Map_get (contextsByScope m) sc")
  case None
  obtain c1 env2 where "Context_new (controllerConstructor m) doc sc env = (c1, env2)"
    by (cases "Context_new (controllerConstructor m) doc sc env")
  moreover from this have "bindingObserver c1 = BindingObserver_new" "context_scope c1 = sc"
    by (auto simp: Context_new_def Let_def)
  ultimately show ?thesis using None assms(3) by (simp add: Module_fetchContextForScope_def)
next
  case (Some c1)
  then have "context_ok sch sc (sc \<in> C) c1" using assms(1) unfolding module_ok_def by blast
  with assms(2) have c1: "context_ok sch sc False c1" by simp
  moreover have "c = c1" using Some assms(3) by (simp add: Module_fetchContextForScope_def)
  ultimately show ?thesis using disconnected_observer [OF c1] by (simp add: context_ok_def)
qed

lemma Context_connect_observer:
  assumes "Context_connect sch cls doc (c, env) = (c', env')" "bindingObserver c = BindingObserver_new"
  shows "just_started sch doc (context_scope c) (bindingObserver c')"
proof -
  obtain bo d where b: "BindingObserver_start sch (context_scope c) doc (BindingObserver_new, env_dispatcher env) = (bo, d)"
    by (cases "BindingObserver_start sch (context_scope c) doc (BindingObserver_new, env_dispatcher env)")
  with assms have "bindingObserver c' = bo" by (auto simp: Context_connect_def Let_def split: prod.splits)
  with b show ?thesis unfolding just_started_def by blast
qed

lemma Module_connect_observers:
  assumes m: "module_ok sch ident C m" and new: "sc \<notin> C" and P: "observers_are P m" "includes_started sch doc P"
    and r: "Module_connectContextForScope sch doc sc (m, env) = (m', env')"
  shows "observers_are P m'"
proof -
  obtain m1 env1 c where f: "Module_fetchContextForScope doc sc (m, env) = ((m1, env1), c)" by (metis prod.exhaust)
  note c = Module_fetch_observer [OF m new f]
  obtain c' env2 where cc: "Context_connect sch (controllerConstructor m1) doc (c, env1) = (c', env2)"
    by (cases "Context_connect sch (controllerConstructor m1) doc (c, env1)")
  have "m' = m\<lparr>connectedContexts := Set_add sc (connectedContexts m), contextsByScope := Map_set sc c' (contextsByScope m)\<rparr>"
    using r f cc Module_fetch_ok [OF m f] by (auto simp: Module_connectContextForScope_def Let_def)
  moreover have "P sc (bindingObserver c')"
    using Context_connect_observer [OF cc] c P(2) by (simp add: includes_started_def)
  ultimately show ?thesis using P(1) by (auto simp: observers_are_def)
qed

lemma Module_disconnect_observers:
  assumes "observers_are P m" "Module_disconnectContextForScope doc sc (m, env) = (m', env')"
  shows "observers_are P m'"
proof (cases "Map_get (contextsByScope m) sc")
  case (Some c)
  obtain c' env2 where "Context_disconnect (controllerConstructor m) doc (c, env) = (c', env2)"
    by (cases "Context_disconnect (controllerConstructor m) doc (c, env)")
  with assms Some show ?thesis by (auto simp: Module_disconnectContextForScope_def observers_are_def Let_def)
qed (use assms in \<open>simp add: Module_disconnectContextForScope_def\<close>)

lemma Module_connect_all_observers:
  assumes "module_ok sch ident C m" "\<forall>sc\<in>set scs. scope_identifier sc = ident" "distinct scs" "set scs \<inter> C = {}"
    and B0: "\<forall>b\<in>B0. scope_identifier (binding_scope b) \<noteq> ident"
    and "dispatcher_has (B0 \<union> module_bindings m) (env_dispatcher env)"
    and P: "observers_are P m" "includes_started sch doc P"
    and "fold (Module_connectContextForScope sch doc) scs (m, env) = (m', env')"
  shows "observers_are P m'"
  using assms(1-4,6,7,9)
proof (induction scs arbitrary: C m env)
  case (Cons sc scs)
  obtain m1 env1 where one: "Module_connectContextForScope sch doc sc (m, env) = (m1, env1)"
    by (cases "Module_connectContextForScope sch doc sc (m, env)")
  have new: "sc \<notin> C" using Cons.prems by simp
  note ok = Module_connect_ok [OF Cons.prems(1) _ B0 Cons.prems(5) one]
  have "observers_are P m1" by (rule Module_connect_observers [OF Cons.prems(1) new Cons.prems(6) P(2) one])
  with ok Cons.IH [of "insert sc C" m1 env1] Cons.prems one show ?case by auto
qed simp

section \<open>The router\<close>

definition router_observers :: "(scope \<Rightarrow> binding_observer \<Rightarrow> bool) \<Rightarrow> 'u router \<Rightarrow> bool" where
  "router_observers P r \<longleftrightarrow> (\<forall>i m. Map_get (modulesByIdentifier r) i = Some m \<longrightarrow> observers_are P m)"

definition router_follows ::
    "schema \<Rightarrow> (scope \<Rightarrow> binding_observer \<Rightarrow> bool) \<Rightarrow> scope set \<Rightarrow> 'u router \<times> 'u env \<Rightarrow> bool" where
  "router_follows sch P S re \<longleftrightarrow> router_ok sch S re \<and> router_observers P (fst re)"

lemma router_observers_set:
  "router_observers P r \<Longrightarrow> observers_are P m \<Longrightarrow>
     router_observers P (r\<lparr>modulesByIdentifier := Map_set i m (modulesByIdentifier r)\<rparr>)"
  by (auto simp: router_observers_def split: if_splits)

lemma router_observers_scopes [simp]:
  "router_observers P (r\<lparr>scopesByIdentifier := s\<rparr>) = router_observers P r"
  by (simp add: router_observers_def)

lemma Router_connected_follows:
  assumes re: "router_follows sch P S re" and new: "sc \<notin> S" and P: "includes_started sch doc P"
  shows "router_follows sch P (insert sc S) (Router_scopeConnected sch doc sc re)"
proof -
  obtain r env where r: "re = (r, env)" by (cases re)
  have "router_observers P (fst (Router_scopeConnected sch doc sc re))"
  proof (cases "Map_get (modulesByIdentifier r) (scope_identifier sc)")
    case None
    then show ?thesis using re by (simp add: r Router_scopeConnected_def router_follows_def)
  next
    case (Some m)
    obtain m' env' where one: "Module_connectContextForScope sch doc sc (m, env) = (m', env')"
      by (cases "Module_connectContextForScope sch doc sc (m, env)")
    have "module_ok sch (scope_identifier sc) (scopes_with (scope_identifier sc) S) m" "observers_are P m"
      using re Some by (simp_all add: r router_follows_def router_ok_def router_observers_def)
    from Module_connect_observers [OF this(1) _ this(2) P one] new have "observers_are P m'" by (simp add: scopes_with_def)
    with re Some one show ?thesis
      using router_observers_set [of P "r\<lparr>scopesByIdentifier :=
          Multimap_add (scopesByIdentifier r) (scope_identifier sc) sc\<rparr>" m']
      by (simp add: r Router_scopeConnected_def router_follows_def)
  qed
  then show ?thesis using re new by (simp add: router_follows_def Router_scopeConnected_ok)
qed

lemma Router_disconnected_follows:
  assumes re: "router_follows sch P S re" and old: "sc \<in> S"
  shows "router_follows sch P (S - {sc}) (Router_scopeDisconnected doc sc re)"
proof -
  obtain r env where r: "re = (r, env)" by (cases re)
  have "router_observers P (fst (Router_scopeDisconnected doc sc re))"
  proof (cases "Map_get (modulesByIdentifier r) (scope_identifier sc)")
    case None
    then show ?thesis using re by (simp add: r Router_scopeDisconnected_def router_follows_def)
  next
    case (Some m)
    obtain m' env' where one: "Module_disconnectContextForScope doc sc (m, env) = (m', env')"
      by (cases "Module_disconnectContextForScope doc sc (m, env)")
    have "observers_are P m" using re Some by (simp add: r router_follows_def router_observers_def)
    then have "observers_are P m'" by (rule Module_disconnect_observers [OF _ one])
    with re Some one show ?thesis
      using router_observers_set [of P "r\<lparr>scopesByIdentifier :=
          Multimap_delete (scopesByIdentifier r) (scope_identifier sc) sc\<rparr>" m']
      by (simp add: r Router_scopeDisconnected_def router_follows_def)
  qed
  then show ?thesis using re old by (simp add: router_follows_def Router_scopeDisconnected_ok)
qed

text \<open>The observers of a page and those that are started on the way.\<close>

abbreviation or_started ::
    "schema \<Rightarrow> document \<Rightarrow> (scope \<Rightarrow> binding_observer \<Rightarrow> bool) \<Rightarrow> scope \<Rightarrow> binding_observer \<Rightarrow> bool" where
  "or_started sch doc P \<equiv> \<lambda>sc s. P sc s \<or> just_started sch doc sc s"

interpretation follows: scope_client "Router_delegate sch" doc "router_follows sch (or_started sch doc P)"
  for sch doc P
  by unfold_locales
    (simp_all add: Router_delegate_def Router_createScopeForElementAndIdentifier_def Router_connected_follows
      Router_disconnected_follows includes_started_def)

lemma Router_unload_follows:
  "router_follows sch P S re \<Longrightarrow> router_follows sch P S (Router_unloadIdentifier doc ident re)"
  using Router_unload_ok [of sch S re doc ident]
  by (auto simp: router_follows_def router_observers_def split: if_splits)

lemma Router_load_follows:
  assumes re: "router_follows sch P S re" and P: "includes_started sch doc P"
  shows "router_follows sch P S (Router_loadDefinition sch doc (ident, cls) re)"
proof -
  obtain r env where re': "Router_unloadIdentifier doc ident re = (r, env)" by (cases "Router_unloadIdentifier doc ident re")
  have un: "router_follows sch P S (r, env)" using Router_unload_follows [OF re, of doc ident] by (simp add: re')
  have none: "Map_get (modulesByIdentifier r) ident = None"
    using Router_unload_ok [of sch S re doc ident] re by (simp add: re' router_follows_def)
  let ?m = "Module_new ident cls" and ?scs = "Multimap_getValuesForKey (scopesByIdentifier r) ident"
  obtain m' env' where all: "fold (Module_connectContextForScope sch doc) ?scs (?m, env) = (m', env')"
    by (cases "fold (Module_connectContextForScope sch doc) ?scs (?m, env)")
  have m: "module_ok sch ident {} ?m" "module_bindings ?m = {}" "observers_are P ?m"
    by (simp_all add: module_ok_def Module_new_def module_bindings_def observers_are_def)
  have ok: "router_ok sch S (r, env)" using un by (simp add: router_follows_def)
  have scs: "set ?scs = scopes_with ident S" "distinct ?scs" using router_scopes [OF ok, of ident] by simp_all
  have "Map_delete ident (modulesByIdentifier r) = modulesByIdentifier r"
    using none by (auto simp: map_of_eq_None_iff delete_id)
  then have "\<forall>b\<in>router_bindings (modulesByIdentifier r). scope_identifier (binding_scope b) \<noteq> ident"
    using rest_bindings [OF ok, of ident] by simp
  moreover have "dispatcher_has (router_bindings (modulesByIdentifier r) \<union> module_bindings ?m) (env_dispatcher env)"
    using ok m(2) by (simp add: router_ok_def)
  ultimately have m': "observers_are P m'"
    using Module_connect_all_observers [OF m(1) _ _ _ _ _ m(3) P all] scs by (simp add: scopes_with_def)
  have eq: "Router_loadDefinition sch doc (ident, cls) re =
      (r\<lparr>modulesByIdentifier := Map_set (module_identifier m') m' (modulesByIdentifier r)\<rparr>, env')"
    using all by (simp add: Router_loadDefinition_def re' Router_connectModule_def Let_def Module_new_def)
  have "router_ok sch S re" using re by (simp add: router_follows_def)
  from Router_load_ok [OF this, of doc ident cls] show ?thesis
    using router_observers_set [OF _ m', of r] un by (simp add: router_follows_def eq)
qed

section \<open>The application\<close>

definition app_contexts_are :: "(scope \<Rightarrow> binding_observer \<Rightarrow> bool) \<Rightarrow> 'u application \<Rightarrow> bool" where
  "app_contexts_are P a \<longleftrightarrow> router_observers P (app_router a)"

lemma app_module_ok:
  "app_ok a \<Longrightarrow> Map_get (modulesByIdentifier (app_router a)) i = Some m \<Longrightarrow>
     module_ok (app_schema a) i (scopes_with i (ran (app_scopes a))) m"
  using app_router_ok [of a] by (simp add: router_ok_def)

lemma app_contexts_mono:
  assumes "app_contexts_are P a" "app_ok a" "\<And>sc s. sc \<in> ran (app_scopes a) \<Longrightarrow> P sc s \<Longrightarrow> Q sc s"
  shows "app_contexts_are Q a"
  using assms app_module_ok [OF assms(2)]
  by (fastforce simp: app_contexts_are_def router_observers_def observers_are_def module_ok_def scopes_with_def)

lemma app_follows_iff:
  "element_client.ok (tokens_inv (controllerAttribute (app_schema a))
       (values_inv scope_parsed (scopes_inv (router_follows (app_schema a) (or_started (app_schema a) doc P))))) (app_stack a) \<longleftrightarrow>
     app_ok a \<and> app_contexts_are (or_started (app_schema a) doc P) a"
  unfolding follows.scope_values.tokens.attributes.observer.ok_def app_ok_iff
  by (auto simp: app_stack_def tokens_inv_def values_inv_def scopes_inv_def app_scopes_def router_follows_def
      app_contexts_are_def split: prod.split)

lemma start_contexts:
  assumes ok: "app_ok a" and none: "ran (app_scopes a) = {}"
  shows "app_contexts_are (just_started (app_schema a) doc) (Application_start doc a)"
proof -
  let ?b = "map_dispatcher Dispatcher_start a"
  have b: "app_ok ?b" "app_scopes ?b = app_scopes a"
    using ok by (simp_all add: app_ok_map_dispatcher dispatcher_has_start_stop) (simp add: app_scopes_def map_dispatcher_def)
  have "app_contexts_are (or_started (app_schema a) doc (\<lambda>_ _. False)) ?b"
    using app_module_ok [OF b(1)] none b(2)
    by (auto simp: app_contexts_are_def router_observers_def observers_are_def module_ok_def scopes_with_def)
  with b(1) have "element_client.ok (tokens_inv (controllerAttribute (app_schema ?b)) (values_inv scope_parsed
      (scopes_inv (router_follows (app_schema ?b) (or_started (app_schema ?b) doc (\<lambda>_ _. False)))))) (app_stack ?b)"
    by (subst app_follows_iff) simp
  from follows.scope_values.tokens.attributes.observer.ok_start [OF this]
  show ?thesis
    using app_follows_iff [of "Application_start doc a" "\<lambda>_ _. False" doc]
    by (simp add: Application_start_def Router_start_def ScopeObserver_start_def ValueListObserver_start_def
        TokenListObserver_start_def AttributeObserver_start_def)
qed

lemma load_contexts:
  assumes ok: "app_ok a" and P: "app_contexts_are P a" "includes_started (app_schema a) doc P"
  shows "app_contexts_are P (Application_load doc definitions a)"
proof -
  have "router_follows (app_schema a) P S (fold (Router_loadDefinition (app_schema a) doc) ds re)"
    if "router_follows (app_schema a) P S re" for S ds re
    using that
  proof (induction ds arbitrary: re)
    case (Cons d ds)
    then show ?case using Router_load_follows [OF Cons.prems P(2)] by (cases d) simp
  qed simp
  moreover have "router_follows (app_schema a) P (ran (app_scopes a)) (app_router a, app_env a)"
    using app_router_ok [OF ok] P(1) by (simp add: router_follows_def app_contexts_are_def)
  ultimately have "router_follows (app_schema a) P (ran (app_scopes a)) (fold (Router_loadDefinition (app_schema a) doc) definitions (app_router a, app_env a))"
    by blast
  then show ?thesis by (simp add: app_contexts_are_def Application_load_def with_router_def router_follows_def)
qed

lemma unload_contexts:
  assumes ok: "app_ok a" and P: "app_contexts_are P a"
  shows "app_contexts_are P (Application_unload doc idents a)"
proof -
  have "router_follows (app_schema a) P S (fold (Router_unloadIdentifier doc) names re)"
    if "router_follows (app_schema a) P S re" for S names re
    using that by (induction names arbitrary: re) (simp_all add: Router_unload_follows)
  moreover have "router_follows (app_schema a) P (ran (app_scopes a)) (app_router a, app_env a)"
    using app_router_ok [OF ok] P(1) by (simp add: router_follows_def app_contexts_are_def)
  ultimately have "router_follows (app_schema a) P (ran (app_scopes a)) (fold (Router_unloadIdentifier doc) idents (app_router a, app_env a))"
    by blast
  then show ?thesis by (simp add: app_contexts_are_def Application_unload_def with_router_def router_follows_def)
qed

text \<open>One context is changed, and the others are left.\<close>

lemma map_context_contexts:
  assumes ok: "app_ok a" and P: "app_contexts_are P a"
    and here: "\<And>cls c env c' env'. context_ok (app_schema a) sc True c \<Longrightarrow> sc \<in> ran (app_scopes a) \<Longrightarrow>
      P sc (bindingObserver c) \<Longrightarrow> f cls (c, env) = (c', env') \<Longrightarrow> Q sc (bindingObserver c')"
    and others: "\<And>sc' s. sc' \<noteq> sc \<Longrightarrow> P sc' s \<Longrightarrow> Q sc' s"
  shows "app_contexts_are Q (map_context f sc a)"
proof -
  let ?id = "scope_identifier sc" and ?ms = "modulesByIdentifier (app_router a)"
  have mod: "module_ok (app_schema a) i (scopes_with i (ran (app_scopes a))) m" "observers_are P m"
    if "Map_get ?ms i = Some m" for i m
    using app_module_ok [OF ok that] P that by (auto simp: app_contexts_are_def router_observers_def)
  have rest: "observers_are Q m" if "Map_get ?ms i = Some m" "sc \<notin> set (connectedContexts m)" for i m
    using mod(2) [OF that(1)] that(2) others unfolding observers_are_def by metis
  have away: "sc \<notin> set (connectedContexts m)" if "Map_get ?ms i = Some m" "i \<noteq> ?id" for i m
    using mod(1) [OF that(1)] that(2) by (auto simp: module_ok_def scopes_with_def)
  show ?thesis
  proof (cases "Map_get ?ms ?id")
    case None
    then have "sc \<notin> set (connectedContexts m)" if "Map_get ?ms i = Some m" for i m
      using away that by (cases "i = ?id") auto
    with None rest show ?thesis by (auto simp: map_context_def app_contexts_are_def router_observers_def)
  next
    case (Some m)
    show ?thesis
    proof (cases "Map_get (contextsByScope m) sc")
      case None
      then have "sc \<notin> set (connectedContexts m)" using mod(1) [OF Some] unfolding module_ok_def by blast
      then have "sc \<notin> set (connectedContexts m1)" if "Map_get ?ms i = Some m1" for i m1
        using away that Some by (cases "i = ?id") auto
      with Some None rest show ?thesis by (auto simp: map_context_def app_contexts_are_def router_observers_def)
    next
      case c: (Some c)
      obtain c' env' where fc: "f (controllerConstructor m) (c, app_env a) = (c', env')"
        by (cases "f (controllerConstructor m) (c, app_env a)")
      let ?m = "m\<lparr>contextsByScope := Map_set sc c' (contextsByScope m)\<rparr>"
      have "Q sc (bindingObserver c')" if "sc \<in> set (connectedContexts m)"
      proof (rule here [OF _ _ _ fc])
        show "sc \<in> ran (app_scopes a)" using mod(1) [OF Some] that by (auto simp: module_ok_def scopes_with_def)
        have "context_ok (app_schema a) sc (sc \<in> scopes_with ?id (ran (app_scopes a))) c"
          "set (connectedContexts m) = scopes_with ?id (ran (app_scopes a))"
          using mod(1) [OF Some] c unfolding module_ok_def by blast+
        with that show "context_ok (app_schema a) sc True c" by simp
        show "P sc (bindingObserver c)" using mod(2) [OF Some] that c by (simp add: observers_are_def)
      qed
      then have "observers_are Q ?m"
        using mod(2) [OF Some] others by (auto simp: observers_are_def split: if_splits)
      moreover have "observers_are Q m1" if "Map_get ?ms i = Some m1" "i \<noteq> ?id" for i m1
        using rest [OF that(1) away [OF that]] .
      ultimately show ?thesis
        by (auto simp: map_context_def Some c fc app_contexts_are_def router_observers_def split: if_splits)
    qed
  qed
qed

end
