(* ===== verification/Context_Life.thy ===== *)
theory Context_Life
  imports Context_Sync
begin

text \<open>
  A batch of changes of the page: the browser keeps records of it for the observer of the root and
  for those of the connected contexts, and delivers first the former and then the latter. A scope
  whose element was moved is connected anew or not at all, so in the end every context is up to date.
\<close>

section \<open>The delivery to the observer of the root\<close>

lemma deliver_stack:
  "app_stack (deliver_scopes doc ms a) = ElementObserver_processMutations
     (value_element_delegate (controllerAttribute (app_schema a)) (ScopeObserver_delegate (Router_delegate (app_schema a))))
     doc ms (app_stack a)"
  "app_schema (deliver_scopes doc ms a) = app_schema a"
  by (simp_all add: deliver_scopes_def ScopeObserver_deliver_def)

lemma with_stack_app_stack [simp]: "with_stack (app_stack a) a = a"
  by (simp add: with_stack_def app_stack_def split: prod.split)

lemma with_stack_twice [simp]: "with_stack st (with_stack st' a) = with_stack st a"
  by (simp add: with_stack_def split: prod.split)

lemma settings_processMutations [simp]: "settings (ElementObserver_processMutations del doc ms sd) = settings sd"
  by (simp add: ElementObserver_processMutations_def settings_fold)

lemma processMutations_append:
  "ElementObserver_processMutations del doc (ms @ ms') sd =
     ElementObserver_processMutations del doc ms' (ElementObserver_processMutations del doc ms sd)"
  using settings_processMutations [of del doc ms sd]
  by (auto simp: ElementObserver_processMutations_def settings_def)

lemma deliver_append: "deliver_scopes doc (ms @ ms') a = deliver_scopes doc ms' (deliver_scopes doc ms a)"
  by (simp add: deliver_scopes_def ScopeObserver_deliver_def processMutations_append)

text \<open>A record of children is worked off in two halves.\<close>

lemma processMutation_halves:
  "ElementObserver_processMutation del doc (ChildList rs as) sd =
     ElementObserver_processMutation del doc (ChildList [] as) (ElementObserver_processMutation del doc (ChildList rs []) sd)"
  by (simp add: ElementObserver_processMutation_def ElementObserver_processAddedNodes_def
      ElementObserver_processRemovedNodes_def)

lemma deliver_halves:
  "deliver_scopes doc (ChildList rs as # ms) a =
     deliver_scopes doc ms (deliver_scopes doc [ChildList [] as] (deliver_scopes doc [ChildList rs []] a))"
proof -
  have "deliver_scopes doc (ChildList rs as # ms) a = deliver_scopes doc (ChildList rs [] # ChildList [] as # ms) a"
    by (simp add: deliver_scopes_def ScopeObserver_deliver_def ElementObserver_processMutations_def
        processMutation_halves [of _ doc rs as])
  also have "\<dots> = deliver_scopes doc ([ChildList rs []] @ [ChildList [] as] @ ms) a" by simp
  finally show ?thesis unfolding deliver_append .
qed

lemma deliver_contexts:
  assumes "app_ok a" "app_contexts_are P a"
  shows "app_contexts_are (or_started (app_schema a) doc P) (deliver_scopes doc ms a)"
proof -
  have "app_contexts_are (or_started (app_schema a) doc P) a"
    by (rule app_contexts_mono [OF assms(2,1)]) simp
  with assms(1) have "element_client.ok (tokens_inv (controllerAttribute (app_schema a)) (values_inv scope_parsed
      (scopes_inv (router_follows (app_schema a) (or_started (app_schema a) doc P))))) (app_stack a)"
    by (subst app_follows_iff) simp
  from follows.scope_values.tokens.attributes.observer.ok_processMutations [OF this, of ms]
  show ?thesis
    using app_follows_iff [of "deliver_scopes doc ms a" P doc] by (simp add: deliver_stack)
qed

text \<open>The application observes the page from its root.\<close>

definition at_root :: "document \<Rightarrow> 'u application \<Rightarrow> bool" where
  "at_root doc a \<longleftrightarrow> app_ok a \<and> (case app_stack a of (eo, sd) \<Rightarrow> started eo \<and> element eo = nid (root doc))"

lemma at_root_deliver: "at_root doc a \<Longrightarrow> at_root doc (deliver_scopes doc ms a)"
  using settings_processMutations [of "value_element_delegate (controllerAttribute (app_schema a))
      (ScopeObserver_delegate (Router_delegate (app_schema a)))" doc ms "app_stack a"]
  by (auto simp: at_root_def deliver_scopes_ok deliver_stack settings_def split: prod.splits)

lemma removal_disconnects:
  assumes a: "at_root doc a" and wf: "document_wf doc" and ap: "apart (nid (root doc)) doc [ChildList rs []]"
    and x: "Element_node x \<in> set rs" "contains doc x e" "hasAttribute doc e (controllerAttribute (app_schema a))"
    and sc: "sc \<in> ran (app_scopes (deliver_scopes doc [ChildList rs []] a))"
  shows "scope_element sc \<noteq> e"
proof -
  let ?n = "controllerAttribute (app_schema a)" and ?tdel = "ValueListObserver_delegate
      (ScopeObserver_delegate (Router_delegate (app_schema a)))" and ?a = "deliver_scopes doc [ChildList rs []] a"
  obtain eo tlo vlo so where obs: "app_observers a = (eo, tlo, vlo, so)" by (metis prod.exhaust)
  let ?d = "(vlo, so, app_router a, app_env a)"
  obtain eo' tlo' vlo' so' r env where run: "ElementObserver_processMutation (token_stack ?n ?tdel) doc (ChildList rs [])
      (eo, tlo, ?d) = (eo', tlo', vlo', so', r, env)" by (metis prod.exhaust)
  have eo: "started eo" "element eo = nid (root doc)" "tokens_ok ?n (set (elements eo)) tlo"
    using a by (simp_all add: at_root_def app_stack_def obs app_ok_iff)
  have eq: "?a = with_stack (eo', tlo', vlo', so', r, env) a"
    using run eo(1) by (simp add: deliver_scopes_def ScopeObserver_deliver_def app_stack_def obs
        ElementObserver_processMutations_def)
  have obs': "app_observers ?a = (eo', tlo', vlo', so')" by (simp add: eq with_stack_def)
  have ok': "app_ok ?a" using at_root_deliver [OF a, of "[ChildList rs []]"] by (simp add: at_root_def)
  have "observing ?n (nid (root doc)) doc eo tlo" using eo connected_root by (simp add: observing_def)
  then have "observing ?n (nid (root doc)) doc eo (fst (tlo, ?d))" by simp
  from processChildList_effect [OF wf this ap run] x
  have "e \<notin> set (elements eo')" by auto
  moreover have "tokens_ok ?n (set (elements eo')) tlo'"
    using ok' by (simp add: app_ok_iff obs' deliver_stack)
  ultimately have "tokens_of tlo' e = []" by (simp add: tokens_ok_def)
  moreover obtain t i where "t \<in> set (tokens_of tlo' i)" "sc = token_scope t"
    using sc unfolding app_scopes_tokens [OF ok' obs'] by (auto simp: all_tokens_def)
  moreover from this(1) \<open>tokens_ok ?n (set (elements eo')) tlo'\<close> have "token_element t = i" by (simp add: tokens_ok_def)
  ultimately show ?thesis by (auto simp: token_scope_def)
qed

text \<open>A scope whose element is in a recorded removal has been connected anew after the delivery.\<close>

lemma moved_renewed:
  assumes a: "at_root doc a" and wf: "document_wf doc" and ap: "apart (nid (root doc)) doc ms"
    and m: "m \<in> set ms" "removes doc e m" and h: "hasAttribute doc e (controllerAttribute (app_schema a))"
  shows "app_contexts_are (\<lambda>sc s. scope_element sc = e \<longrightarrow> just_started (app_schema a) doc sc s) (deliver_scopes doc ms a)"
proof -
  from m(2) obtain rs as x where r: "m = ChildList rs as" "Element_node x \<in> set rs" "contains doc x e"
    by (cases m) auto
  from m(1) obtain ms1 ms2 where ms: "ms = ms1 @ ChildList rs as # ms2" unfolding r(1) by (meson split_list)
  let ?b = "deliver_scopes doc ms1 a" and ?sch = "app_schema a" and ?Q = "\<lambda>sc (s :: binding_observer). scope_element sc \<noteq> e"
  let ?c = "deliver_scopes doc [ChildList rs []] ?b"
  have b: "at_root doc ?b" "app_schema ?b = ?sch" by (simp_all add: at_root_deliver a deliver_stack)
  have c: "at_root doc ?c" "app_schema ?c = ?sch" by (simp_all add: at_root_deliver a deliver_stack)
  have "apart (nid (root doc)) doc [ChildList rs []]" using ap by (auto simp: ms apart_def)
  from removal_disconnects [OF b(1) wf this r(2,3)] h b(2)
  have gone: "scope_element sc \<noteq> e" if "sc \<in> ran (app_scopes ?c)" for sc using that by simp
  have ok: "app_ok ?c" using c(1) by (simp add: at_root_def)
  have "app_contexts_are (\<lambda>sc s. True) ?c" by (simp add: app_contexts_are_def router_observers_def observers_are_def)
  then have "app_contexts_are ?Q ?c" by (rule app_contexts_mono [OF _ ok]) (use gone in blast)
  from deliver_contexts [OF ok this, of doc "ChildList [] as # ms2"]
  have "app_contexts_are (or_started ?sch doc ?Q) (deliver_scopes doc ms a)"
    unfolding ms deliver_append deliver_halves [of doc rs as ms2] c(2)
    using deliver_append [of doc "[ChildList [] as]" ms2 ?c] by simp
  then show ?thesis
    by (rule app_contexts_mono) (use at_root_deliver [OF a, of ms] in \<open>auto simp: at_root_def\<close>)
qed

section \<open>Which contexts there are\<close>

lemma foldl_append_concat: "foldl (\<lambda>xs m. xs @ f m) ys ms = ys @ concat (map f ms)"
  by (induction ms arbitrary: ys) simp_all

lemma distinct_by_identifier:
  assumes "distinct (map fst ms)"
    and "\<And>i m. (i, m) \<in> set ms \<Longrightarrow> distinct (g m) \<and> (\<forall>sc\<in>set (g m). scope_identifier sc = i)"
  shows "distinct (concat (map (\<lambda>p. g (snd p)) ms))"
  using assms
proof (induction ms)
  case (Cons p ms)
  have "scope_identifier sc \<noteq> fst p" if "sc \<in> set (concat (map (\<lambda>p. g (snd p)) ms))" for sc
  proof -
    from that obtain q where q: "q \<in> set ms" "sc \<in> set (g (snd q))" by auto
    then have "scope_identifier sc = fst q" using Cons.prems(2) [of "fst q" "snd q"] by simp
    moreover have "fst q \<in> set (map fst ms)" unfolding set_map using q(1) by (rule imageI)
    moreover have "fst p \<notin> set (map fst ms)" using Cons.prems(1) unfolding list.map distinct.simps by blast
    ultimately show ?thesis by metis
  qed
  moreover have "distinct (g (snd p))" "\<forall>sc\<in>set (g (snd p)). scope_identifier sc = fst p"
    using Cons.prems(2) [of "fst p" "snd p"] by simp_all
  ultimately have "distinct (g (snd p))" "set (g (snd p)) \<inter> set (concat (map (\<lambda>p. g (snd p)) ms)) = {}" by blast+
  moreover have "distinct (concat (map (\<lambda>p. g (snd p)) ms))" using Cons.prems by (intro Cons.IH) auto
  ultimately show ?case by simp
qed simp

lemma controllers_scopes:
  assumes "app_ok a"
  shows "distinct (map context_scope (Application_controllers a))"
    and "set (map context_scope (Application_controllers a)) =
      {sc \<in> ran (app_scopes a). Map_get (modulesByIdentifier (app_router a)) (scope_identifier sc) \<noteq> None}"
proof -
  let ?ms = "modulesByIdentifier (app_router a)"
  have wf: "Map_wf ?ms" using app_router_ok [OF assms] by (simp add: router_ok_def)
  have mod: "module_ok (app_schema a) i (scopes_with i (ran (app_scopes a))) m" if "(i, m) \<in> set ?ms" for i m
    using app_module_ok [OF assms] that Map_get_in_set [OF wf] by blast
  have "map context_scope (Application_controllers a) = concat (map (\<lambda>p. map context_scope (Module_contexts (snd p))) ?ms)"
    by (simp add: Application_controllers_def Router_contexts_def foldl_append_concat map_concat comp_def)
  also have "\<dots> = concat (map (\<lambda>p. connectedContexts (snd p)) ?ms)"
    by (rule arg_cong [of _ _ concat]) (auto intro!: map_cong connected_scopes mod)
  finally have eq: "map context_scope (Application_controllers a) = concat (map (\<lambda>p. connectedContexts (snd p)) ?ms)" .
  show "distinct (map context_scope (Application_controllers a))"
    unfolding eq using mod by (intro distinct_by_identifier wf) (auto simp: module_ok_def scopes_with_def)
  have "sc \<in> set (map context_scope (Application_controllers a)) \<longleftrightarrow>
      (\<exists>i m. Map_get ?ms i = Some m \<and> sc \<in> scopes_with i (ran (app_scopes a)))" for sc
  proof -
    have "sc \<in> set (map context_scope (Application_controllers a)) \<longleftrightarrow> (\<exists>i m. (i, m) \<in> set ?ms \<and> sc \<in> set (connectedContexts m))"
      unfolding eq by force
    also have "\<dots> \<longleftrightarrow> (\<exists>i m. (i, m) \<in> set ?ms \<and> sc \<in> scopes_with i (ran (app_scopes a)))"
      using mod unfolding module_ok_def by blast
    finally show ?thesis unfolding Map_get_in_set [OF wf] .
  qed
  then show "set (map context_scope (Application_controllers a)) =
      {sc \<in> ran (app_scopes a). Map_get ?ms (scope_identifier sc) \<noteq> None}"
    by (auto simp: scopes_with_def)
qed

lemma app_contexts_listed:
  assumes "app_contexts_are P a" "app_ok a"
    and "\<And>sc s. sc \<in> set (map context_scope (Application_controllers a)) \<Longrightarrow> P sc s \<Longrightarrow> Q sc s"
  shows "app_contexts_are Q a"
  unfolding app_contexts_are_def router_observers_def observers_are_def
proof (intro allI impI)
  fix i m sc c
  assume *: "Map_get (modulesByIdentifier (app_router a)) i = Some m" "sc \<in> set (connectedContexts m)"
    "Map_get (contextsByScope m) sc = Some c"
  have "sc \<in> ran (app_scopes a)" "scope_identifier sc = i"
    using app_module_ok [OF assms(2) *(1)] *(2) by (auto simp: module_ok_def scopes_with_def)
  with *(1) have "sc \<in> set (map context_scope (Application_controllers a))"
    unfolding controllers_scopes(2) [OF assms(2)] by simp
  moreover have "P sc (bindingObserver c)"
    using assms(1) * by (simp add: app_contexts_are_def router_observers_def observers_are_def)
  ultimately show "Q sc (bindingObserver c)" by (rule assms(3))
qed

section \<open>A batch of changes\<close>

text \<open>The browser keeps the records of the batch for every connected context.\<close>

definition record_page :: "page_change list \<Rightarrow> document \<Rightarrow> 'u application \<Rightarrow> 'u application" where
  "record_page cs doc a =
     fold (\<lambda>sc. map_context (\<lambda>_. context_records (snd (page_changes (scope_element sc) cs doc))) sc)
       (map context_scope (Application_controllers a)) a"

text \<open>It delivers them to the contexts of the scopes \<open>scs\<close>.\<close>

definition deliver_actions :: "document \<Rightarrow> scope list \<Rightarrow> 'u application \<Rightarrow> 'u application" where
  "deliver_actions doc scs a = fold (\<lambda>sc a. map_context (\<lambda>_. context_actions (app_schema a) doc sc) sc a) scs a"

lemma map_context_same:
  "app_observers (map_context f sc a) = app_observers a"
  "app_schema (map_context f sc a) = app_schema a"
  "app_scopes (map_context f sc a) = app_scopes a"
  by (simp_all add: map_context_def app_scopes_def split_beta Let_def split: option.split)

lemma batch_schema:
  "app_schema (record_page cs doc a) = app_schema a"
  "app_schema (deliver_actions doc scs a) = app_schema a"
proof -
  have "app_schema (fold (\<lambda>sc. map_context (f sc) sc) scs a) = app_schema a" for f scs and a :: "'a application"
    by (induction scs arbitrary: a) (simp_all add: map_context_same)
  then show "app_schema (record_page cs doc a) = app_schema a" by (simp add: record_page_def)
  show "app_schema (deliver_actions doc scs a) = app_schema a"
    unfolding deliver_actions_def by (induction scs arbitrary: a) (simp_all add: map_context_same)
qed

text \<open>What each step makes of the context of its scope, one scope after the other.\<close>

lemma fold_contexts:
  assumes "app_ok a" "app_contexts_are (\<lambda>sc s. if sc \<in> D then Q sc s else P sc s) a" "distinct scs" "D \<inter> set scs = {}"
    and step: "\<And>sc a. app_ok a \<Longrightarrow> app_ok (map_context (f (app_schema a) sc) sc a)"
    and f: "\<And>sc cls c env c' env'. context_ok (app_schema a) sc True c \<Longrightarrow> P sc (bindingObserver c) \<Longrightarrow>
      f (app_schema a) sc cls (c, env) = (c', env') \<Longrightarrow> Q sc (bindingObserver c')"
  defines "b \<equiv> fold (\<lambda>sc a. map_context (f (app_schema a) sc) sc a) scs a"
  shows "app_ok b \<and> app_contexts_are (\<lambda>sc s. if sc \<in> D \<union> set scs then Q sc s else P sc s) b \<and>
    app_observers b = app_observers a \<and> app_schema b = app_schema a \<and> app_scopes b = app_scopes a"
  using assms(1-4) f unfolding b_def
proof (induction scs arbitrary: a D)
  case (Cons sc scs)
  let ?a = "map_context (f (app_schema a) sc) sc a"
  have "app_contexts_are (\<lambda>sc' s. if sc' \<in> insert sc D then Q sc' s else P sc' s) ?a"
    by (rule map_context_contexts [OF Cons.prems(1,2)]) (use Cons.prems(4,5) in \<open>auto split: if_splits\<close>)
  with Cons.IH [OF step [OF Cons.prems(1)] this] Cons.prems show ?case
    by (simp add: map_context_same)
qed simp

lemma record_page_contexts:
  assumes ok: "app_ok a" and f: "app_contexts_are (observer_follows (app_schema a) doc) a"
  shows "app_ok (record_page cs doc a) \<and> app_contexts_are (behind (app_schema a) cs doc) (record_page cs doc a) \<and>
    app_observers (record_page cs doc a) = app_observers a \<and> app_schema (record_page cs doc a) = app_schema a \<and>
    app_scopes (record_page cs doc a) = app_scopes a"
proof -
  let ?g = "\<lambda>sc. context_records (snd (page_changes (scope_element sc) cs doc)) :: context_state \<times> 'a env \<Rightarrow> _"
  let ?scs = "map context_scope (Application_controllers a)"
  have "app_contexts_are (\<lambda>sc s. if sc \<in> {} then behind (app_schema a) cs doc sc s else
      observer_follows (app_schema a) doc sc s \<and> sc \<in> set ?scs) a"
    by (rule app_contexts_listed [OF f ok]) simp
  then have "app_ok (record_page cs doc a) \<and>
    app_contexts_are (\<lambda>sc s. if sc \<in> {} \<union> set ?scs then behind (app_schema a) cs doc sc s else
      observer_follows (app_schema a) doc sc s \<and> sc \<in> set ?scs) (record_page cs doc a) \<and>
    app_observers (record_page cs doc a) = app_observers a \<and> app_schema (record_page cs doc a) = app_schema a \<and>
    app_scopes (record_page cs doc a) = app_scopes a"
    unfolding record_page_def
  proof (rule fold_contexts [OF ok _ controllers_scopes(1) [OF ok], where f = "\<lambda>_ sc _. ?g sc"])
    show "app_ok (map_context (\<lambda>_. ?g sc) sc b)" if "app_ok b" for sc and b :: "'a application"
      by (rule app_step_ok [OF app_step.records that])
  qed (auto simp: context_records_def behind_def)
  then have r: "app_ok (record_page cs doc a)" "app_contexts_are (\<lambda>sc s. if sc \<in> set ?scs then behind (app_schema a) cs doc sc s else
      observer_follows (app_schema a) doc sc s \<and> sc \<in> set ?scs) (record_page cs doc a)"
    "app_observers (record_page cs doc a) = app_observers a" "app_schema (record_page cs doc a) = app_schema a"
    "app_scopes (record_page cs doc a) = app_scopes a" by simp_all
  moreover have "app_contexts_are (behind (app_schema a) cs doc) (record_page cs doc a)"
    by (rule app_contexts_mono [OF r(2,1)]) (simp split: if_splits)
  ultimately show ?thesis by blast
qed

text \<open>What holds of the contexts when the root's records are delivered, and what when all are.\<close>

definition pending :: "schema \<Rightarrow> page_change list \<Rightarrow> document \<Rightarrow> document \<Rightarrow> scope \<Rightarrow> binding_observer \<Rightarrow> bool" where
  "pending sch cs doc doc' sc s \<longleftrightarrow> observer_follows sch doc' sc s \<or>
     (behind sch cs doc sc s \<and> isConnected doc (scope_element sc) \<and> stays (scope_element sc) cs (watch (scope_element sc) doc))"

lemma pending_deliver:
  assumes "document_wf doc" "asciiLower (actionAttribute sch) = actionAttribute sch"
    and "doc' = fst (page_changes r cs doc)"
    and "binding_observer_ok sch sc s" "pending sch cs doc doc' sc s"
    and r: "BindingObserver_deliver sch sc doc' (s, d) = (s', d')"
  shows "observer_follows sch doc' sc s'"
proof -
  have doc': "doc' = fst (page_changes (scope_element sc) cs doc)" unfolding assms(3) by (rule page_changes_live)
  show ?thesis
    using assms(5) follows_deliver [OF _ r] behind_deliver [OF assms(1,2) _ _ assms(4) _ r [unfolded doc']]
    by (auto simp: pending_def doc')
qed

lemma root_pending:
  assumes synced: "app_synced doc a" and wf: "document_wf doc"
    and lower: "asciiLower (controllerAttribute (app_schema a)) = controllerAttribute (app_schema a)"
    and changes: "page_changes (nid (root doc)) cs doc = (doc', ms)"
    and behind: "app_contexts_are (behind (app_schema a) cs doc) a"
  shows "app_contexts_are (pending (app_schema a) cs doc doc') (deliver_scopes doc' ms a)"
proof -
  let ?sch = "app_schema a" and ?b = "deliver_scopes doc' ms a" and ?R = "nid (root doc)"
  let ?n = "controllerAttribute ?sch"
  have ok: "app_ok a" "app_ok ?b" using synced deliver_scopes_ok by (auto simp: app_synced_def)
  note root = page_changes_root [OF wf changes]
  have synced': "app_synced doc' ?b" by (rule deliver_changes_synced [OF synced wf lower changes])
  have here: "at_root doc' a" using synced by (auto simp: at_root_def app_synced_def app_stack_def root(2) split: prod.splits)
  have "stays ?R cs (watch ?R doc)" using root_stays [of "watch ?R doc" cs] wf by (simp add: watch_def)
  from page_changes_accounts(2) [OF wf connected_root _ _ lower this changes,
      of "{e. isConnected doc e \<and> hasAttribute doc e ?n}" "attribute_words ?n doc"]
  have ap: "apart (nid (root doc')) doc' ms" by (simp add: root_contains [OF wf] root(2))
  have moved: "app_contexts_are (\<lambda>sc s. scope_element sc = e \<longrightarrow> just_started ?sch doc' sc s) ?b"
    if e: "isConnected doc e" "\<not> stays e cs (watch ?R doc)" for e
  proof (cases "hasAttribute doc' e ?n")
    case True
    have "\<exists>m\<in>set (queue (fold change_page cs (watch ?R doc))). removes (live (fold change_page cs (watch ?R doc))) e m"
      using moved_record [of "watch ?R doc" e cs] wf e by (simp add: watch_def kept_watching_def)
    then obtain m where "m \<in> set ms" "removes doc' e m" using changes by (auto simp: page_changes_def Let_def)
    then show ?thesis by (rule moved_renewed [OF here root(1) ap _ _ True])
  next
    case False
    have "app_contexts_are (\<lambda>sc s. True) ?b" by (simp add: app_contexts_are_def router_observers_def observers_are_def)
    then show ?thesis
    proof (rule app_contexts_mono [OF _ ok(2)])
      fix sc s assume "sc \<in> ran (app_scopes ?b)"
      then show "scope_element sc = e \<longrightarrow> just_started ?sch doc' sc s"
        using False app_synced_scopes [OF synced'] by (auto simp: document_scopes_def deliver_stack dest: attribute_words_has)
    qed
  qed
  have "app_contexts_are (\<lambda>sc s. behind ?sch cs doc sc s \<and> isConnected doc (scope_element sc)) a"
    by (rule app_contexts_mono [OF behind ok(1)]) (use app_synced_scopes [OF synced] in \<open>simp add: document_scopes_def\<close>)
  from deliver_contexts [OF ok(1) this, of doc' ms]
  have "app_contexts_are (\<lambda>sc s. (behind ?sch cs doc sc s \<and> isConnected doc (scope_element sc) \<or> just_started ?sch doc' sc s) \<and>
      (\<forall>e. isConnected doc e \<longrightarrow> \<not> stays e cs (watch ?R doc) \<longrightarrow> scope_element sc = e \<longrightarrow> just_started ?sch doc' sc s)) ?b"
    using moved unfolding app_contexts_are_def router_observers_def observers_are_def by blast
  then show ?thesis
  proof (rule app_contexts_mono [OF _ ok(2)])
    fix sc :: scope and s
    have "stays (scope_element sc) cs (watch (scope_element sc) doc) = stays (scope_element sc) cs (watch ?R doc)"
      by (rule stays_live) (simp add: watch_def)
    then show "pending ?sch cs doc doc' sc s"
      if "(behind ?sch cs doc sc s \<and> isConnected doc (scope_element sc) \<or> just_started ?sch doc' sc s) \<and>
        (\<forall>e. isConnected doc e \<longrightarrow> \<not> stays e cs (watch ?R doc) \<longrightarrow> scope_element sc = e \<longrightarrow> just_started ?sch doc' sc s)"
      using that just_started_follows [OF root(1)] unfolding pending_def by blast
  qed
qed

lemma batch_contexts:
  assumes synced: "app_synced doc a" and wf: "document_wf doc"
    and lower: "asciiLower (controllerAttribute (app_schema a)) = controllerAttribute (app_schema a)"
      "asciiLower (actionAttribute (app_schema a)) = actionAttribute (app_schema a)"
    and changes: "page_changes (nid (root doc)) cs doc = (doc', ms)"
    and follows: "app_contexts_are (observer_follows (app_schema a) doc) a"
    and b: "b = deliver_scopes doc' ms (record_page cs doc a)"
    and scs: "distinct scs" "set scs = set (map context_scope (Application_controllers b))"
  shows "app_synced doc' (deliver_actions doc' scs b) \<and>
    app_contexts_are (observer_follows (app_schema a) doc') (deliver_actions doc' scs b) \<and>
    app_schema (deliver_actions doc' scs b) = app_schema a"
proof -
  let ?r = "record_page cs doc a" and ?sch = "app_schema a"
  have ok: "app_ok a" using synced by (simp add: app_synced_def)
  note rec = record_page_contexts [OF ok follows, of cs]
  have synced_r: "app_synced doc ?r" using synced rec by (simp add: app_synced_def)
  have pend: "app_contexts_are (pending ?sch cs doc doc') b"
    using root_pending [OF synced_r wf _ changes] rec lower by (simp add: b)
  have synced_b: "app_synced doc' b" "app_schema b = ?sch"
    using deliver_changes_synced [OF synced_r wf _ changes] rec lower by (simp_all add: b deliver_stack)
  from synced_b(1) have okb: "app_ok b" by (simp add: app_synced_def)
  have "app_contexts_are (\<lambda>sc s. if sc \<in> {} then observer_follows ?sch doc' sc s else
      pending ?sch cs doc doc' sc s \<and> sc \<in> set scs) b"
    by (rule app_contexts_listed [OF pend okb]) (simp add: scs(2))
  then have "app_ok (deliver_actions doc' scs b) \<and>
    app_contexts_are (\<lambda>sc s. if sc \<in> {} \<union> set scs then observer_follows ?sch doc' sc s else
      pending ?sch cs doc doc' sc s \<and> sc \<in> set scs) (deliver_actions doc' scs b) \<and>
    app_observers (deliver_actions doc' scs b) = app_observers b \<and> app_schema (deliver_actions doc' scs b) = app_schema b \<and>
    app_scopes (deliver_actions doc' scs b) = app_scopes b"
    unfolding deliver_actions_def
  proof (rule fold_contexts [OF okb _ scs(1), where f = "\<lambda>sch sc _. context_actions sch doc' sc"])
    show "app_ok (map_context (\<lambda>_. context_actions (app_schema c) doc' sc) sc c)" if "app_ok c" for sc and c :: "'a application"
      by (rule app_step_ok [OF app_step.actions that])
    fix sc cls c env c' and env' :: "'a env"
    assume c: "context_ok (app_schema b) sc True c" "pending ?sch cs doc doc' sc (bindingObserver c) \<and> sc \<in> set scs"
      and r: "context_actions (app_schema b) doc' sc (c, env) = (c', env')"
    obtain bo d where bo: "BindingObserver_deliver ?sch sc doc' (bindingObserver c, env_dispatcher env) = (bo, d)"
      by (cases "BindingObserver_deliver ?sch sc doc' (bindingObserver c, env_dispatcher env)")
    have "observer_follows ?sch doc' sc bo"
      using c changes synced_b(2) by (intro pending_deliver [OF wf lower(2) _ _ _ bo, where r = "nid (root doc)"]) (auto simp: context_ok_def)
    with r bo synced_b(2) show "observer_follows ?sch doc' sc (bindingObserver c')"
      by (auto simp: context_actions_def)
  qed simp_all
  then have r: "app_ok (deliver_actions doc' scs b)" "app_observers (deliver_actions doc' scs b) = app_observers b"
    "app_schema (deliver_actions doc' scs b) = ?sch"
    "app_contexts_are (\<lambda>sc s. if sc \<in> set scs then observer_follows ?sch doc' sc s else
      pending ?sch cs doc doc' sc s \<and> sc \<in> set scs) (deliver_actions doc' scs b)"
    using synced_b(2) by simp_all
  have "app_contexts_are (observer_follows ?sch doc') (deliver_actions doc' scs b)"
    by (rule app_contexts_mono [OF r(4,1)]) (simp split: if_splits)
  with r synced_b show ?thesis by (simp add: app_synced_def)
qed

end
