(* ===== verification/Application_Life.thy ===== *)
theory Application_Life
  imports Context_Life
begin

text \<open>
  The whole life of an application on one page: what \<open>load\<close> and \<open>unload\<close> did to the registered
  identifiers and what scripts did to the page, tracked beside the application, and the proof
  that the application agrees with both.
\<close>

section \<open>The life of an application\<close>

text \<open>
  \<open>app_life running doc idents a\<close>: the application \<open>a\<close> of the page \<open>doc\<close>, in which the
  identifiers \<open>idents\<close> are registered. It is made for the root of the page, definitions are loaded
  and unloaded at any time, and the page may change in any way until the application is
  started. Afterwards scripts change the page, a batch at a time, and the browser delivers
  the records of a batch: first to the observer of the root, then to those of the contexts that
  are connected by then, in any order. What their value observers see is left open.
\<close>

inductive app_life :: "bool \<Rightarrow> document \<Rightarrow> string set \<Rightarrow> 'u application \<Rightarrow> bool" where
  new: "document_wf doc \<Longrightarrow> asciiLower (controllerAttribute sch) = controllerAttribute sch \<Longrightarrow>
    asciiLower (actionAttribute sch) = actionAttribute sch \<Longrightarrow>
    app_life False doc {} (Application_new (nid (root doc)) sch u)"
| prepare: "app_life False doc I a \<Longrightarrow> document_wf doc' \<Longrightarrow> nid (root doc') = nid (root doc) \<Longrightarrow>
    app_life False doc' I a"
| start: "app_life False doc I a \<Longrightarrow> app_life True doc I (Application_start doc a)"
| load: "app_life b doc I a \<Longrightarrow>
    app_life b doc (I \<union> fst ` set definitions) (Application_load doc definitions a)"
| unload: "app_life b doc I a \<Longrightarrow> app_life b doc (I - set idents) (Application_unload doc idents a)"
| page: "app_life True doc I a \<Longrightarrow> page_changes (nid (root doc)) cs doc = (doc', ms) \<Longrightarrow>
    a' = deliver_scopes doc' ms (record_page cs doc a) \<Longrightarrow>
    distinct scs \<Longrightarrow> set scs = set (map context_scope (Application_controllers a')) \<Longrightarrow>
    app_life True doc' I (deliver_actions doc' scs a')"
| changes: "app_life b doc I a \<Longrightarrow>
    app_life b doc I (map_context (\<lambda>cls. context_values cls doc vs sc) sc a)"

definition identifiers :: "'u application \<Rightarrow> string set" where
  "identifiers a = {i. Map_has (modulesByIdentifier (app_router a)) i}"

definition life_ok :: "bool \<Rightarrow> document \<Rightarrow> string set \<Rightarrow> 'u application \<Rightarrow> bool" where
  "life_ok b doc I a \<longleftrightarrow> app_ok a \<and> document_wf doc \<and> identifiers a = I \<and>
     asciiLower (controllerAttribute (app_schema a)) = controllerAttribute (app_schema a) \<and>
     asciiLower (actionAttribute (app_schema a)) = actionAttribute (app_schema a) \<and>
     (if b then app_synced doc a \<and> app_contexts_are (observer_follows (app_schema a) doc) a
      else \<exists>u. app_observers a = app_observers (Application_new (nid (root doc)) (app_schema a) u :: 'u application))"

text \<open>Only starting and the delivery of scopes touch the observers.\<close>

lemma observers_same:
  "app_observers (Application_load doc definitions a) = app_observers a"
  "app_observers (Application_unload doc idents a) = app_observers a"
  "app_observers (map_context f sc a) = app_observers a"
  "app_schema (Application_load doc definitions a) = app_schema a"
  "app_schema (Application_unload doc idents a) = app_schema a"
  "app_schema (map_context f sc a) = app_schema a"
  by (simp_all add: Application_load_def Application_unload_def with_router_def map_context_def split_beta Let_def
      split: option.split)

lemma app_synced_cong:
  assumes "app_synced doc a" "app_ok a'" "app_observers a' = app_observers a" "app_schema a' = app_schema a"
  shows "app_synced doc a'"
  using assms unfolding app_synced_def assms(3,4) by (simp only: split: prod.splits)

lemma identifiers_with_router:
  "identifiers (with_router re a) = {i. Map_get (modulesByIdentifier (fst re)) i \<noteq> None}"
  by (simp add: identifiers_def with_router_def Map_has_iff)

lemma load_identifiers:
  assumes "router_ok sch S re"
  shows "{i. Map_get (modulesByIdentifier (fst (fold (Router_loadDefinition sch doc) ds re))) i \<noteq> None} =
     {i. Map_get (modulesByIdentifier (fst re)) i \<noteq> None} \<union> fst ` set ds"
  using assms
proof (induction ds arbitrary: re)
  case (Cons d ds)
  obtain ident cls where d: "d = (ident, cls)" by (cases d)
  obtain m where m: "modulesByIdentifier (fst (Router_loadDefinition sch doc d re)) =
      Map_set ident m (Map_delete ident (modulesByIdentifier (fst re)))"
    and ok: "router_ok sch S (Router_loadDefinition sch doc d re)"
    using Router_load_ok [OF Cons.prems, of doc ident cls] d by blast
  show ?case using Cons.IH [OF ok] unfolding fold_simps m by (auto simp: d split: if_splits)
qed simp

lemma unload_identifiers:
  assumes "router_ok sch S re"
  shows "{i. Map_get (modulesByIdentifier (fst (fold (Router_unloadIdentifier doc) names re))) i \<noteq> None} =
     {i. Map_get (modulesByIdentifier (fst re)) i \<noteq> None} - set names"
  using assms
proof (induction names arbitrary: re)
  case (Cons ident names)
  from Router_unload_ok [OF Cons.prems, of doc ident]
  have ok: "router_ok sch S (Router_unloadIdentifier doc ident re)"
    and m: "modulesByIdentifier (fst (Router_unloadIdentifier doc ident re)) =
      Map_delete ident (modulesByIdentifier (fst re))" by blast+
  show ?case using Cons.IH [OF ok] unfolding fold_simps m by (auto split: if_splits)
qed simp

text \<open>Connecting and disconnecting scopes never changes which identifiers are registered.\<close>

definition router_names :: "schema \<Rightarrow> string set \<Rightarrow> scope set \<Rightarrow> 'u router \<times> 'u env \<Rightarrow> bool" where
  "router_names sch I S re \<longleftrightarrow> router_ok sch S re \<and> {i. Map_get (modulesByIdentifier (fst re)) i \<noteq> None} = I"

lemma scope_modules:
  "Map_get (modulesByIdentifier (fst (Router_scopeConnected sch doc sc re))) i = None \<longleftrightarrow>
     Map_get (modulesByIdentifier (fst re)) i = None"
  "Map_get (modulesByIdentifier (fst (Router_scopeDisconnected doc sc re))) i = None \<longleftrightarrow>
     Map_get (modulesByIdentifier (fst re)) i = None"
  by (cases re; auto simp: Router_scopeConnected_def Router_scopeDisconnected_def Let_def
      split: option.splits prod.splits)+

interpretation registered_names: scope_client "Router_delegate sch" doc "router_names sch I" for sch doc I
  by unfold_locales
    (simp_all add: Router_delegate_def Router_createScopeForElementAndIdentifier_def router_names_def
      Router_scopeConnected_ok Router_scopeDisconnected_ok scope_modules)

lemma app_named_iff:
  "element_client.ok (tokens_inv (controllerAttribute (app_schema a))
       (values_inv scope_parsed (scopes_inv (router_names (app_schema a) I)))) (app_stack a) \<longleftrightarrow>
     app_ok a \<and> identifiers a = I"
  unfolding registered_names.scope_values.tokens.attributes.observer.ok_def app_ok_iff
  by (auto simp: app_stack_def tokens_inv_def values_inv_def scopes_inv_def app_scopes_def router_names_def
      identifiers_def Map_has_iff split: prod.split)

lemma deliver_identifiers: "app_ok a \<Longrightarrow> identifiers (deliver_scopes doc ms a) = identifiers a"
proof -
  assume "app_ok a"
  then have "element_client.ok (tokens_inv (controllerAttribute (app_schema a))
       (values_inv scope_parsed (scopes_inv (router_names (app_schema a) (identifiers a))))) (app_stack a)"
    by (simp add: app_named_iff)
  from registered_names.scope_values.tokens.attributes.observer.ok_processMutations [OF this, of doc ms]
  show ?thesis
    using app_named_iff [of "deliver_scopes doc ms a" "identifiers a"]
    by (simp add: deliver_scopes_def ScopeObserver_deliver_def)
qed

lemma start_identifiers: "app_ok a \<Longrightarrow> identifiers (Application_start doc a) = identifiers a"
proof -
  let ?b = "map_dispatcher Dispatcher_start a"
  assume "app_ok a"
  then have ok: "app_ok ?b" by (simp add: app_ok_map_dispatcher dispatcher_has_start_stop)
  have "identifiers ?b = identifiers a" by (simp add: identifiers_def map_dispatcher_def)
  with ok have "element_client.ok (tokens_inv (controllerAttribute (app_schema ?b))
       (values_inv scope_parsed (scopes_inv (router_names (app_schema ?b) (identifiers a))))) (app_stack ?b)"
    by (subst app_named_iff) simp
  from registered_names.scope_values.tokens.attributes.observer.ok_start [OF this, of doc]
  show ?thesis
    using app_named_iff [of "Application_start doc a" "identifiers a"]
    by (simp add: Application_start_def Router_start_def ScopeObserver_start_def ValueListObserver_start_def
        TokenListObserver_start_def AttributeObserver_start_def)
qed

lemma map_context_identifiers: "identifiers (map_context f sc a) = identifiers a"
  by (auto simp: identifiers_def Map_has_iff map_context_def Let_def split: option.split prod.split)

lemma load_unload_identifiers:
  assumes "app_ok a"
  shows "identifiers (Application_load doc definitions a) = identifiers a \<union> fst ` set definitions"
    "identifiers (Application_unload doc idents a) = identifiers a - set idents"
  using load_identifiers [OF app_router_ok [OF assms], of doc definitions]
    unload_identifiers [OF app_router_ok [OF assms], of doc idents]
  unfolding Application_load_def Application_unload_def identifiers_with_router
  by (simp_all add: identifiers_def Map_has_iff)

lemma record_page_identifiers: "identifiers (record_page cs doc a) = identifiers a"
proof -
  have "identifiers (fold (\<lambda>sc. map_context (f sc) sc) scs a) = identifiers a" for f scs and a :: "'a application"
    by (induction scs arbitrary: a) (simp_all add: map_context_identifiers)
  then show ?thesis by (simp add: record_page_def)
qed

lemma deliver_actions_identifiers: "identifiers (deliver_actions doc scs a) = identifiers a"
  unfolding deliver_actions_def by (induction scs arbitrary: a) (simp_all add: map_context_identifiers)

lemma includes_started_follows: "document_wf doc \<Longrightarrow> includes_started sch doc (observer_follows sch doc)"
  by (simp add: includes_started_def just_started_follows)

lemma app_life_ok: "app_life b doc I a \<Longrightarrow> life_ok b doc I a"
proof (induction rule: app_life.induct)
  case (new doc sch u)
  then show ?case
    by (auto simp: life_ok_def app_ok_new identifiers_def) (auto simp: Application_new_def Router_new_def)
next
  case (prepare doc I a doc')
  then show ?case by (simp add: life_ok_def)
next
  case (start doc I a)
  then have ok: "app_ok a" "identifiers a = I" and wf: "document_wf doc" by (simp_all add: life_ok_def)
  have sch: "app_schema (Application_start doc a) = app_schema a"
    by (simp add: Application_start_def Router_start_def)
  from start.IH obtain u :: 'a where
    u: "app_observers a = app_observers (Application_new (nid (root doc)) (app_schema a) u)"
    by (auto simp: life_ok_def)
  then have "ran (app_scopes a) = {}" by (simp add: app_scopes_def Application_new_def values_of_new)
  from start_contexts [OF ok(1) this, of doc]
  have "app_contexts_are (observer_follows (app_schema a) doc) (Application_start doc a)"
    by (rule app_contexts_mono [OF _ app_step_ok [OF app_step.start ok(1)]]) (rule just_started_follows [OF wf])
  with start_synced [OF ok(1) wf u] start.IH ok show ?case
    using app_step_ok [OF app_step.start ok(1)] by (simp add: life_ok_def start_identifiers sch)
next
  case (load b doc I a definitions)
  then have ok: "app_ok a" and wf: "document_wf doc" by (simp_all add: life_ok_def)
  from app_step_ok [OF app_step.load ok] load.IH app_synced_cong [of doc a "Application_load doc definitions a"]
    load_contexts [OF ok _ includes_started_follows [OF wf]]
  show ?case by (auto simp: life_ok_def observers_same load_unload_identifiers [OF ok])
next
  case (unload b doc I a idents)
  then have ok: "app_ok a" by (simp add: life_ok_def)
  from app_step_ok [OF app_step.unload ok] unload.IH app_synced_cong [of doc a "Application_unload doc idents a"]
  show ?case by (auto simp: life_ok_def observers_same load_unload_identifiers [OF ok] unload_contexts [OF ok])
next
  case (page doc I a cs doc' ms a' scs)
  then have life: "app_synced doc a" "document_wf doc" "app_contexts_are (observer_follows (app_schema a) doc) a"
    "asciiLower (controllerAttribute (app_schema a)) = controllerAttribute (app_schema a)"
    "asciiLower (actionAttribute (app_schema a)) = actionAttribute (app_schema a)" "identifiers a = I" and ok: "app_ok a"
    by (simp_all add: life_ok_def)
  have "identifiers (deliver_actions doc' scs a') = I"
    using record_page_contexts [OF ok life(3), of cs] life(6)
    by (simp add: page.hyps(3) deliver_actions_identifiers deliver_identifiers record_page_identifiers)
  moreover from batch_contexts [OF life(1,2,4,5) page.hyps(2) life(3) page.hyps(3-5)]
  have "app_synced doc' (deliver_actions doc' scs a')"
    "app_contexts_are (observer_follows (app_schema a) doc') (deliver_actions doc' scs a')"
    "app_schema (deliver_actions doc' scs a') = app_schema a" by blast+
  ultimately show ?case
    using page_changes_root(1) [OF life(2) page.hyps(2)] life(4,5) by (simp add: life_ok_def) (simp add: app_synced_def)
next
  case (changes b doc I a vs sc)
  let ?f = "\<lambda>cls. context_values cls doc vs sc"
  from changes have ok: "app_ok a" by (simp add: life_ok_def)
  have "app_contexts_are P (map_context ?f sc a)" if "app_contexts_are P a" for P
    by (rule map_context_contexts [OF ok that]) (auto simp: context_values_def split: prod.splits)
  with app_step_ok [OF app_step.changes ok] changes.IH app_synced_cong [of doc a "map_context ?f sc a"]
  show ?case by (auto simp: life_ok_def observers_same map_context_identifiers)
qed

end
