(* ===== verification/Application_Start.thy ===== *)
theory Application_Start
  imports Application_Life
begin

text \<open>
  The order of the start: an application whose classes were registered before it starts makes
  its controllers in the order of the document, each one once, and connects a controller before
  it makes the next one.
\<close>

section \<open>What a new controller runs\<close>

definition quiet :: "'u controller_class \<Rightarrow> bool" where
  "quiet cls \<longleftrightarrow> changed_method cls = (\<lambda>_. None)"

definition setup_scope ::
    "(string \<Rightarrow> 'u controller_class option) \<Rightarrow> document \<Rightarrow> scope \<Rightarrow> 'u \<Rightarrow> 'u" where
  "setup_scope classes doc sc u =
     (case classes (scope_identifier sc) of
        None \<Rightarrow> u
      | Some cls \<Rightarrow> fst (connect_method cls doc sc (fst (initialize_method cls doc sc u))))"

lemma lifecycle_user: "env_user (lifecycle meth message doc sc env) = fst (meth doc sc (env_user env))"
  by (simp add: lifecycle_def Let_def split: prod.split option.split)

lemma quiet_changed:
  "quiet cls \<Longrightarrow> ValueObserver_invokeChangedCallbackForValue cls doc sc name env = env"
  by (simp add: quiet_def ValueObserver_invokeChangedCallbackForValue_def)

lemma quiet_defaults:
  assumes "quiet cls"
  shows "ValueObserver_invokeChangedCallbacksForDefaultValues cls doc sc env = env"
proof -
  have "fold (\<lambda>(_, vd) env. if P vd then ValueObserver_invokeChangedCallbackForValue cls doc sc (v_name vd) env
      else env) vds env = env" for P vds
    by (induction vds) (auto simp: quiet_changed [OF assms])
  then show ?thesis by (simp add: ValueObserver_invokeChangedCallbacksForDefaultValues_def)
qed

lemma quiet_callbacks: "quiet cls \<Longrightarrow> callbacks_keep (ValueObserver_delegate cls doc sc) env_user"
  by (simp add: callbacks_keep_def ValueObserver_delegate_def StringMapObserver_stringMapKeyAdded_def
      StringMapObserver_stringMapValueChanged_def StringMapObserver_stringMapKeyRemoved_def quiet_changed)

lemma Context_connect_user:
  assumes "quiet cls"
  shows "env_user (snd (Context_connect sch cls doc (c, env))) =
    fst (connect_method cls doc (context_scope c) (env_user env))"
proof -
  obtain bo d where b: "BindingObserver_start sch (context_scope c) doc (bindingObserver c, env_dispatcher env) = (bo, d)"
    by (cases "BindingObserver_start sch (context_scope c) doc (bindingObserver c, env_dispatcher env)")
  obtain vo env2 where v: "StringMapObserver_start (ValueObserver_delegate cls doc (context_scope c)) doc
      (valueObserver c, env\<lparr>env_dispatcher := d\<rparr>) = (vo, env2)" by (metis prod.exhaust)
  have "env_user env2 = env_user env"
    using StringMapObserver_start_keeps [OF quiet_callbacks [OF assms], of doc "context_scope c" doc
        "(valueObserver c, env\<lparr>env_dispatcher := d\<rparr>)"] by (simp add: v)
  then show ?thesis by (simp add: Context_connect_def b v Let_def lifecycle_user)
qed

lemma Module_connect_user:
  assumes "quiet (controllerConstructor m)" "Map_get (contextsByScope m) sc = None"
    and r: "Module_connectContextForScope sch doc sc (m, env) = (m', env')"
  shows "env_user env' = fst (connect_method (controllerConstructor m) doc sc
      (fst (initialize_method (controllerConstructor m) doc sc (env_user env))))"
    and "controllerConstructor m' = controllerConstructor m"
    and "sc' \<noteq> sc \<Longrightarrow> Map_get (contextsByScope m') sc' = Map_get (contextsByScope m) sc'"
proof -
  obtain c env1 where n: "Context_new (controllerConstructor m) doc sc env = (c, env1)"
    by (cases "Context_new (controllerConstructor m) doc sc env")
  have c: "context_scope c = sc"
    and u: "env_user env1 = fst (initialize_method (controllerConstructor m) doc sc (env_user env))"
    using n by (auto simp: Context_new_def Let_def quiet_defaults [OF assms(1)] lifecycle_user)
  obtain c' env2 where k: "Context_connect sch (controllerConstructor m) doc (c, env1) = (c', env2)"
    by (cases "Context_connect sch (controllerConstructor m) doc (c, env1)")
  have "env_user env2 = fst (connect_method (controllerConstructor m) doc sc (env_user env1))"
    using Context_connect_user [OF assms(1), of sch doc c env1] by (simp add: k c)
  moreover have m': "env' = env2" "m' = m\<lparr>contextsByScope := Map_set sc c' (Map_set sc c (contextsByScope m)),
      connectedContexts := Set_add sc (connectedContexts m)\<rparr>"
    using r by (auto simp: Module_connectContextForScope_def Module_fetchContextForScope_def assms(2) n k Let_def)
  ultimately show "env_user env' = fst (connect_method (controllerConstructor m) doc sc
      (fst (initialize_method (controllerConstructor m) doc sc (env_user env))))" by (simp add: u)
  show "controllerConstructor m' = controllerConstructor m"
    and "sc' \<noteq> sc \<Longrightarrow> Map_get (contextsByScope m') sc' = Map_get (contextsByScope m) sc'"
    by (simp_all add: m')
qed

section \<open>The router\<close>

text \<open>
  \<open>set_up classes doc u0 scs d\<close>: the scopes \<open>scs\<close> have been connected in this order, starting
  with \<open>u0\<close>, and no controller has been made for another scope.
\<close>

definition router_set_up ::
    "(string \<Rightarrow> 'u controller_class option) \<Rightarrow> document \<Rightarrow> 'u \<Rightarrow> scope list \<Rightarrow> 'u router \<times> 'u env \<Rightarrow> bool" where
  "router_set_up classes doc u0 scs re \<longleftrightarrow>
     (\<forall>i. map_option controllerConstructor (Map_get (modulesByIdentifier (fst re)) i) = classes i) \<and>
     (\<forall>i m sc. Map_get (modulesByIdentifier (fst re)) i = Some m \<longrightarrow> sc \<notin> set scs \<longrightarrow>
        Map_get (contextsByScope m) sc = None) \<and>
     env_user (snd re) = fold (setup_scope classes doc) scs u0"

definition all_quiet :: "(string \<Rightarrow> 'u controller_class option) \<Rightarrow> bool" where
  "all_quiet classes \<longleftrightarrow> (\<forall>i cls. classes i = Some cls \<longrightarrow> quiet cls)"

lemma Router_scopeConnected_set_up:
  assumes q: "all_quiet classes" and s: "router_set_up classes doc u0 scs re" and new: "sc \<notin> set scs"
  shows "router_set_up classes doc u0 (scs @ [sc]) (Router_scopeConnected sch doc sc re)"
proof -
  obtain r env where re: "re = (r, env)" by (cases re)
  have cls: "\<And>i. map_option controllerConstructor (Map_get (modulesByIdentifier r) i) = classes i"
    and ctx: "\<And>i m sc. Map_get (modulesByIdentifier r) i = Some m \<Longrightarrow> sc \<notin> set scs \<Longrightarrow>
        Map_get (contextsByScope m) sc = None"
    and u: "env_user env = fold (setup_scope classes doc) scs u0"
    using s by (auto simp: router_set_up_def re)
  show ?thesis
  proof (cases "Map_get (modulesByIdentifier r) (scope_identifier sc)")
    case None
    then have "classes (scope_identifier sc) = None" using cls [of "scope_identifier sc"] by simp
    then show ?thesis
      using s None by (auto simp: re Router_scopeConnected_def router_set_up_def setup_scope_def)
  next
    case (Some m)
    then have c: "classes (scope_identifier sc) = Some (controllerConstructor m)"
      using cls [of "scope_identifier sc"] by simp
    then have qm: "quiet (controllerConstructor m)" using q by (auto simp: all_quiet_def)
    obtain m' env' where k: "Module_connectContextForScope sch doc sc (m, env) = (m', env')"
      by (cases "Module_connectContextForScope sch doc sc (m, env)")
    note con = Module_connect_user [OF qm ctx [OF Some new] k]
    have out: "Router_scopeConnected sch doc sc re =
        (r\<lparr>scopesByIdentifier := Multimap_add (scopesByIdentifier r) (scope_identifier sc) sc,
           modulesByIdentifier := Map_set (scope_identifier sc) m' (modulesByIdentifier r)\<rparr>, env')"
      by (simp add: re Router_scopeConnected_def Some k Let_def)
    show ?thesis
      unfolding router_set_up_def out fst_conv snd_conv
      using cls ctx con c u Some by (auto simp: setup_scope_def)
  qed
qed

section \<open>The observers of the scopes\<close>

definition start_inv ::
    "(string \<Rightarrow> 'u controller_class option) \<Rightarrow> document \<Rightarrow> 'u \<Rightarrow> scope list \<Rightarrow>
       scope value_list_observer \<times> scope_observer \<times> 'u router \<times> 'u env \<Rightarrow> bool" where
  "start_inv classes doc u0 scs d \<longleftrightarrow> (case d of (vlo, so, re) \<Rightarrow>
     (\<forall>t r. Map_get (parseResultsByToken vlo) t = Some r \<longrightarrow> scope_parsed t r) \<and>
     cache_ok so \<and> (\<forall>sc. reference_count so sc = 0 \<longleftrightarrow> sc \<notin> set scs) \<and>
     router_set_up classes doc u0 scs re)"

lemma ScopeObserver_matched_set_up:
  assumes "all_quiet classes" "router_set_up classes doc u0 scs re"
    and "\<And>sc. reference_count so sc = 0 \<longleftrightarrow> sc \<notin> set scs"
    and r: "ScopeObserver_elementMatchedValue (Router_delegate sch) doc e sc (so, re) = (so', re')"
  shows "router_set_up classes doc u0 (Set_add sc scs) re' \<and>
    (\<forall>sc'. reference_count so' sc' = 0 \<longleftrightarrow> sc' \<notin> set (Set_add sc scs)) \<and>
    scopesByIdentifierByElement so' = scopesByIdentifierByElement so"
proof -
  let ?n = "reference_count so sc + 1"
  have so': "so' = so\<lparr>scopeReferenceCounts := Map_set sc ?n (scopeReferenceCounts so)\<rparr>"
    and re': "re' = (if ?n = 1 then Router_scopeConnected sch doc sc re else re)"
    using r by (auto simp: ScopeObserver_elementMatchedValue_def reference_count_def Router_delegate_def Let_def
        split: if_splits)
  have count: "reference_count so' sc' = (if sc' = sc then ?n else reference_count so sc')" for sc'
    by (simp add: so' reference_count_def)
  have same: "scopesByIdentifierByElement so' = scopesByIdentifierByElement so" by (simp add: so')
  show ?thesis
  proof (cases "sc \<in> set scs")
    case True
    then have "?n \<noteq> 1" using assms(3) by simp
    then have "re' = re" using re' by simp
    with True show ?thesis using assms(2,3) by (simp add: count Set_add_def same)
  next
    case False
    then have "re' = Router_scopeConnected sch doc sc re" using assms(3) re' by simp
    with False show ?thesis
      using assms(3) Router_scopeConnected_set_up [OF assms(1,2) False, of sch]
      by (simp add: count Set_add_def same)
  qed
qed

lemma tokenMatched_start:
  assumes q: "all_quiet classes" and d: "start_inv classes doc u0 scs d"
  shows "start_inv classes doc u0 (Set_add (token_scope t) scs)
    (tokenMatched (ValueListObserver_delegate (ScopeObserver_delegate (Router_delegate sch))) doc t d)"
proof -
  obtain vlo so re where d_eq: "d = (vlo, so, re)" by (metis prod.exhaust)
  let ?vdel = "ScopeObserver_delegate (Router_delegate sch)" and ?sc = "token_scope t"
  have parsed: "\<And>t r. Map_get (parseResultsByToken vlo) t = Some r \<Longrightarrow> scope_parsed t r"
    and cache: "cache_ok so" and count: "\<And>sc. reference_count so sc = 0 \<longleftrightarrow> sc \<notin> set scs"
    and set_up: "router_set_up classes doc u0 scs re"
    using d by (auto simp: start_inv_def d_eq)
  obtain so1 where p: "ScopeObserver_parseValueForToken (Router_delegate sch) doc t (so, re) = ((so1, re), Inr (Some ?sc))"
      "cache_ok so1" "scopeReferenceCounts so1 = scopeReferenceCounts so"
    using parse_scope_cached [of "Router_delegate sch" so doc t re] cache
    by (auto simp: Router_delegate_def Router_createScopeForElementAndIdentifier_def)
  have f: "\<exists>vlo1 so2. ValueListObserver_fetchParseResultForToken ?vdel doc t d = ((vlo1, so2, re), Inr (Some ?sc)) \<and>
      cache_ok so2 \<and> scopeReferenceCounts so2 = scopeReferenceCounts so \<and>
      (\<forall>t r. Map_get (parseResultsByToken vlo1) t = Some r \<longrightarrow> scope_parsed t r)"
  proof (cases "Map_get (parseResultsByToken vlo) t")
    case None
    then show ?thesis using p parsed
      by (auto simp: ValueListObserver_fetchParseResultForToken_def d_eq ValueListObserver_parseToken_def
          ScopeObserver_delegate_def scope_parsed_def split: if_splits)
  next
    case (Some r)
    with parsed have "r = Inr (Some ?sc)" by (simp add: scope_parsed_def)
    with Some show ?thesis using cache parsed
      by (simp add: ValueListObserver_fetchParseResultForToken_def d_eq)
  qed
  then obtain vlo1 so2 where f: "ValueListObserver_fetchParseResultForToken ?vdel doc t d = ((vlo1, so2, re), Inr (Some ?sc))"
    and so2: "cache_ok so2" "scopeReferenceCounts so2 = scopeReferenceCounts so"
    and parsed1: "\<forall>t r. Map_get (parseResultsByToken vlo1) t = Some r \<longrightarrow> scope_parsed t r" by blast
  obtain so3 re3 where m: "ScopeObserver_elementMatchedValue (Router_delegate sch) doc (token_element t) ?sc (so2, re) =
      (so3, re3)" by (metis prod.exhaust)
  have "reference_count so2 sc = 0 \<longleftrightarrow> sc \<notin> set scs" for sc using count by (simp add: reference_count_def so2(2))
  note conn = ScopeObserver_matched_set_up [OF q set_up this m]
  have cache3: "cache_ok so3" using conn so2(1) by (simp add: cache_ok_def cached_scope_def)
  obtain vlo3 vm where v: "ValueListObserver_fetchValuesByTokenForElement (token_element t) vlo1 = (vlo3, vm)"
    and vlo3: "parseResultsByToken vlo3 = parseResultsByToken vlo1"
    by (cases "Map_get (valuesByTokenByElement vlo1) (token_element t)")
      (simp_all add: ValueListObserver_fetchValuesByTokenForElement_def)
  have em: "elementMatchedValue ?vdel = ScopeObserver_elementMatchedValue (Router_delegate sch)"
    by (simp add: ScopeObserver_delegate_def)
  obtain vlo2 where out: "tokenMatched (ValueListObserver_delegate ?vdel) doc t d = (vlo2, so3, re3)"
    and vlo2: "parseResultsByToken vlo2 = parseResultsByToken vlo1"
    using vlo3 by (simp add: ValueListObserver_delegate_def ValueListObserver_tokenMatched_def f v em m Let_def)
  show ?thesis unfolding out start_inv_def using conn cache3 parsed1 vlo2 by simp
qed

lemma tokensMatched_start:
  assumes q: "all_quiet classes"
  shows "start_inv classes doc u0 scs d \<Longrightarrow> start_inv classes doc u0 (fold Set_add (map token_scope ts) scs)
    (fold (tokenMatched (ValueListObserver_delegate (ScopeObserver_delegate (Router_delegate sch))) doc) ts d)"
  by (induction ts arbitrary: scs d) (simp_all add: tokenMatched_start [OF q])

section \<open>The elements of the document\<close>

definition element_scopes :: "string \<Rightarrow> document \<Rightarrow> nat \<Rightarrow> scope list" where
  "element_scopes a doc e = map (\<lambda>w. \<lparr>scope_element = e, scope_identifier = w\<rparr>) (attribute_words a doc e)"

text \<open>The words of the controller attributes in document order.\<close>

definition scope_words :: "schema \<Rightarrow> document \<Rightarrow> scope list" where
  "scope_words sch doc = concat (map (element_scopes (controllerAttribute sch) doc)
     (filter (\<lambda>e. hasAttribute doc e (controllerAttribute sch)) (ids (root doc))))"

lemma elementMatched_start:
  fixes sd :: "token_list_observer \<times> scope value_list_observer \<times> scope_observer \<times> 'u router \<times> 'u env" and sch :: schema
  assumes q: "all_quiet classes" and ok: "tokens_ok a E (fst sd)" and e: "e \<notin> E"
    and inv: "start_inv classes doc u0 scs (snd sd)"
  defines "tdel \<equiv> ValueListObserver_delegate (ScopeObserver_delegate (Router_delegate sch))"
  defines "sd' \<equiv> TokenListObserver_elementMatchedAttribute a tdel doc e sd"
  shows "tokens_ok a (insert e E) (fst sd') \<and>
    start_inv classes doc u0 (fold Set_add (element_scopes a doc e) scs) (snd sd')"
proof -
  obtain cs where r: "replaces tdel doc a (insert e E) e [] [] cs sd sd'"
    and cs: "map content cs = attribute_words a doc e"
    using elementMatched_replaces [OF ok e, of tdel doc] sd'_def by blast
  have ok': "tokens_ok a (insert e E) (fst sd')" and toks: "tokens_of (fst sd') e = cs"
    and d': "snd sd' = fold (tokenMatched tdel doc) cs (snd sd)"
    using r by (simp_all add: replaces_def)
  have "token_element t = e" if "t \<in> set cs" for t
    using ok' that unfolding tokens_ok_def toks [symmetric] by blast
  then have "map token_scope cs = map (\<lambda>w. \<lparr>scope_element = e, scope_identifier = w\<rparr>) (map content cs)"
    by (auto simp: token_scope_def)
  then have "map token_scope cs = element_scopes a doc e" by (simp only: cs element_scopes_def)
  with tokensMatched_start [OF q inv, of cs sch] ok' show ?thesis by (simp add: d' tdel_def)
qed

lemma elementsMatched_start:
  fixes sd :: "token_list_observer \<times> scope value_list_observer \<times> scope_observer \<times> 'u router \<times> 'u env" and sch :: schema
  assumes q: "all_quiet classes"
  defines "tdel \<equiv> ValueListObserver_delegate (ScopeObserver_delegate (Router_delegate sch))"
  shows "tokens_ok a E (fst sd) \<Longrightarrow> distinct es \<Longrightarrow> set es \<inter> E = {} \<Longrightarrow>
    start_inv classes doc u0 scs (snd sd) \<Longrightarrow>
    start_inv classes doc u0 (fold Set_add (concat (map (element_scopes a doc) es)) scs)
      (snd (fold (TokenListObserver_elementMatchedAttribute a tdel doc) es sd))"
proof (induction es arbitrary: E scs sd)
  case (Cons e es)
  from Cons.prems have "e \<notin> E" by auto
  from elementMatched_start [OF q Cons.prems(1) this Cons.prems(4), of sch]
  have *: "tokens_ok a (insert e E) (fst (TokenListObserver_elementMatchedAttribute a tdel doc e sd))"
    "start_inv classes doc u0 (fold Set_add (element_scopes a doc e) scs)
      (snd (TokenListObserver_elementMatchedAttribute a tdel doc e sd))" by (simp_all add: tdel_def)
  show ?case using Cons.IH [OF *(1) _ _ *(2)] Cons.prems by auto
qed simp

lemma matchElementsInTree_root:
  assumes "document_wf doc"
  shows "AttributeObserver_matchElementsInTree a doc (nid (root doc)) =
    filter (\<lambda>e. hasAttribute doc e a) (ids (root doc))"
proof -
  have get: "get_node doc (nid (root doc)) = Some (root doc)"
    using get_node_in_tree [OF assms, of "root doc" "root doc"] by (simp add: trees_def)
  obtain xs where "ids (root doc) = nid (root doc) # xs"
    by (cases "root doc") (simp add: ids_def)
  then show ?thesis
    by (simp add: AttributeObserver_matchElementsInTree_def AttributeObserver_matchElement_def
        AttributeObserver_selector_def querySelectorAll_def get hasAttribute_matches Let_def)
qed

text \<open>The controllers of the page, in the order in which they are made.\<close>

definition scopes_in_order :: "schema \<Rightarrow> document \<Rightarrow> scope list" where
  "scopes_in_order sch doc = Set_of_array (scope_words sch doc)"

lemma start_order:
  fixes a :: "'u application"
  assumes wf: "document_wf doc"
    and fresh: "app_observers a = app_observers (Application_new (nid (root doc)) (app_schema a) u :: 'u application)"
    and ready: "router_set_up classes doc u0 [] (app_router a, app_env a)"
    and q: "all_quiet classes"
  shows "router_set_up classes doc u0 (scopes_in_order (app_schema a) doc)
    (app_router (Application_start doc a), app_env (Application_start doc a))"
proof -
  let ?a = "controllerAttribute (app_schema a)" and ?b = "map_dispatcher Dispatcher_start a"
  let ?tdel = "ValueListObserver_delegate (ScopeObserver_delegate (Router_delegate (app_schema a)))"
  let ?d = "(ValueListObserver_new, ScopeObserver_new, app_router ?b, app_env ?b)"
  let ?eo = "(ElementObserver_new (nid (root doc)))\<lparr>started := True, mutationObserver := Some []\<rparr>"
  let ?M = "filter (\<lambda>e. hasAttribute doc e ?a) (ids (root doc))"
  have st: "app_stack ?b = (ElementObserver_new (nid (root doc)), TokenListObserver_new, ?d)"
    using fresh by (simp add: app_stack_def map_dispatcher_def Application_new_def)
  have dist: "distinct ?M"
    using distinct_ids [OF wf, of "nid (root doc)" "root doc"] get_node_in_tree [OF wf, of "root doc" "root doc"]
    by (simp add: trees_def ids_def)
  have act: "ElementObserver_elementIsActive doc ?eo e" if "e \<in> set (ids (root doc))" for e
    using contains_root [OF wf, of e] contains_root [OF wf, of "nid (root doc)"] that
    by (simp add: ElementObserver_elementIsActive_def isConnected_def ElementObserver_new_def)
  then have all: "filter (ElementObserver_elementIsActive doc ?eo) ?M = ?M"
    by (intro filter_True) simp
  obtain eo d' where run: "ElementObserver_start (token_stack ?a ?tdel) doc
      (ElementObserver_new (nid (root doc)), TokenListObserver_new, ?d) = (eo, d')" by (metis prod.exhaust)
  have matched: "call_back (elementMatched (token_stack ?a ?tdel)) doc =
      TokenListObserver_elementMatchedAttribute ?a ?tdel doc"
    by (intro ext) (simp add: AttributeObserver_new_def call_back_def TokenListObserver_callbacks)
  have M: "Set_of_array (matchElementsInTree (token_stack ?a ?tdel) doc (element ?eo)) = ?M"
    using matchElementsInTree_root [OF wf, of ?a] dist by (simp add: AttributeObserver_new_def ElementObserver_new_def)
  have s: "started ?eo" "distinct (elements ?eo)" and none: "elements ?eo = []"
    by (simp_all add: ElementObserver_new_def)
  have "(eo, d') = ElementObserver_refresh (token_stack ?a ?tdel) doc (?eo, TokenListObserver_new, ?d)"
    using run by (simp add: ElementObserver_start_def ElementObserver_new_def)
  also have "\<dots> = (?eo\<lparr>elements := ?M\<rparr>,
      fold (TokenListObserver_elementMatchedAttribute ?a ?tdel doc) ?M (TokenListObserver_new, ?d))"
    using refresh_eq [OF s, of "token_stack ?a ?tdel" doc "(TokenListObserver_new, ?d)"]
    unfolding M matched by (simp add: none all del: filter_filter)
  finally have d': "d' = fold (TokenListObserver_elementMatchedAttribute ?a ?tdel doc) ?M (TokenListObserver_new, ?d)"
    by simp
  have r: "app_router ?b = app_router a" "env_user (app_env ?b) = env_user (app_env a)"
    by (simp_all add: map_dispatcher_def)
  have "start_inv classes doc u0 [] ?d"
    using ready unfolding start_inv_def router_set_up_def
    by (simp add: r ValueListObserver_new_def ScopeObserver_new_def cache_ok_def cached_scope_def reference_count_def)
  then have "start_inv classes doc u0 (scopes_in_order (app_schema a) doc) (snd d')"
    using elementsMatched_start [OF q, of ?a "{}" "(TokenListObserver_new, ?d)" ?M doc u0 "[]" "app_schema a"] dist
    by (simp add: d' tokens_ok_new scopes_in_order_def Set_of_array_def scope_words_def)
  moreover have "app_schema ?b = app_schema a" by (simp add: map_dispatcher_def)
  then have "Application_start doc a = with_stack (eo, d') ?b"
    using run by (simp add: Application_start_def Router_start_def st ScopeObserver_start_def ValueListObserver_start_def
        TokenListObserver_start_def AttributeObserver_start_def)
  moreover obtain tlo vlo so re where "d' = (tlo, vlo, so, re)" by (metis prod.exhaust)
  ultimately show ?thesis by (cases re) (simp add: start_inv_def with_stack_def)
qed

section \<open>Registering before the start\<close>

definition prepared ::
    "(string \<Rightarrow> 'u controller_class option) \<Rightarrow> document \<Rightarrow> 'u \<Rightarrow> 'u router \<times> 'u env \<Rightarrow> bool" where
  "prepared classes doc u re \<longleftrightarrow> (\<forall>i. Multimap_getValuesForKey (scopesByIdentifier (fst re)) i = []) \<and>
     (\<forall>i m. Map_get (modulesByIdentifier (fst re)) i = Some m \<longrightarrow> module_identifier m = i) \<and>
     router_set_up classes doc u [] re"

lemma loadDefinition_prepared:
  assumes p: "prepared classes doc u re"
  shows "prepared (classes(ident \<mapsto> cls)) doc u (Router_loadDefinition sch doc (ident, cls) re)"
proof -
  obtain r env where re: "re = (r, env)" by (cases re)
  have none: "\<And>i. Multimap_getValuesForKey (scopesByIdentifier r) i = []"
    and m: "\<And>i m. Map_get (modulesByIdentifier r) i = Some m \<Longrightarrow> module_identifier m = i"
    using p by (auto simp: prepared_def re)
  have un: "Router_unloadIdentifier doc ident (r, env) =
      (case Map_get (modulesByIdentifier r) ident of None \<Rightarrow> (r, env)
       | Some _ \<Rightarrow> (r\<lparr>modulesByIdentifier := Map_delete ident (modulesByIdentifier r)\<rparr>, env))"
    using m [of ident] by (auto simp: Router_unloadIdentifier_def Router_disconnectModule_def none split: option.split)
  have "Router_loadDefinition sch doc (ident, cls) re = (r\<lparr>modulesByIdentifier := Map_set ident (Module_new ident cls)
      (if Map_get (modulesByIdentifier r) ident = None then modulesByIdentifier r
       else Map_delete ident (modulesByIdentifier r))\<rparr>, env)"
    by (simp add: Router_loadDefinition_def re un Router_connectModule_def Module_new_def none split: option.split)
  then show ?thesis
    using p unfolding prepared_def router_set_up_def re by (auto simp: Module_new_def none)
qed

lemma load_prepared:
  assumes "prepared classes doc u re"
  shows "prepared (classes ++ map_of (rev ds)) doc u (fold (Router_loadDefinition sch doc) ds re)"
  using assms
proof (induction ds arbitrary: classes re)
  case (Cons d ds)
  obtain ident cls where d: "d = (ident, cls)" by (cases d)
  have eq: "classes(ident \<mapsto> cls) ++ map_of (rev ds) = classes ++ map_of (rev (d # ds))"
    by (auto simp: d map_add_def split: option.split)
  show ?case
    using Cons.IH [OF loadDefinition_prepared [OF Cons.prems, of ident cls sch]] unfolding eq
    by (simp only: fold_simps d)
qed simp

lemma load_start_order:
  assumes wf: "document_wf doc" and q: "\<forall>(ident, cls) \<in> set ds. changed_method cls = (\<lambda>_. None)"
  shows "env_user (app_env (Application_start doc
      (Application_load doc ds (Application_new (nid (root doc)) sch u)))) =
    fold (setup_scope (map_of (rev ds)) doc) (scopes_in_order sch doc) u"
proof -
  let ?new = "Application_new (nid (root doc)) sch u" and ?a = "Application_load doc ds (Application_new (nid (root doc)) sch u)"
  have "prepared Map.empty doc u (app_router ?new, app_env ?new)"
    by (simp add: prepared_def router_set_up_def Application_new_def Router_new_def Multimap_new_def
        Multimap_getValuesForKey_def)
  from load_prepared [OF this, of ds sch]
  have "router_set_up (map_of (rev ds)) doc u [] (app_router ?a, app_env ?a)"
    by (simp add: prepared_def Application_load_def with_router_def) (simp add: Application_new_def)
  moreover have "all_quiet (map_of (rev ds))"
    using q by (auto simp: all_quiet_def quiet_def dest!: map_of_SomeD)
  moreover have "app_observers ?a = app_observers ?new" "app_schema ?a = sch"
    by (simp_all add: observers_same Application_new_def)
  ultimately show ?thesis
    using start_order [OF wf, of ?a u "map_of (rev ds)" u] by (simp add: router_set_up_def)
qed

end
