(* ===== verification/Page_Bindings.thy ===== *)
theory Page_Bindings
  imports Application_Life
begin

text \<open>
  What the actions written into a page stand for, and the proof that the bindings of a connected
  context that is up to date are those of the actions written inside the element of its scope.
\<close>

text \<open>
  The actions for a scope: the words of the action attributes inside its element that name its
  identifier and a method, by element and position.
\<close>

definition written_actions :: "schema \<Rightarrow> document \<Rightarrow> scope \<Rightarrow> (nat \<times> nat \<times> descriptor) set" where
  "written_actions sch doc sc = {(e, i, d).
     contains doc (scope_element sc) e \<and> i < length (attribute_words (actionAttribute sch) doc e) \<and>
     d = parseActionDescriptorString (attribute_words (actionAttribute sch) doc e ! i) \<and>
     truthy (d_identifier d) = Some (scope_identifier sc) \<and> truthy (d_methodName d) \<noteq> None}"

text \<open>
  A binding reads a descriptor: its target is the element unless another one is written, and its event
  is the written one; where none is written it is the default one for the element.
\<close>

definition reads_as :: "descriptor \<Rightarrow> action \<Rightarrow> bool" where
  "reads_as d a \<longleftrightarrow>
     eventTarget a = (case d_eventTarget d of None \<Rightarrow> Element_target (action_element a) | Some t \<Rightarrow> t) \<and>
     truthy (d_methodName d) = Some (methodName a) \<and> eventOptions a = d_eventOptions d \<and>
     (case truthy (d_eventName d) of None \<Rightarrow> True | Some name \<Rightarrow> eventName a = name)"

lemma Action_forToken_reads:
  assumes "Action_forToken doc t = Inr a"
  shows "truthy (d_identifier (parseActionDescriptorString (content t))) = Some (action_identifier a) \<and>
    reads_as (parseActionDescriptorString (content t)) a"
  using assms
  by (auto simp: Action_forToken_def Action_new_def Let_def reads_as_def split: option.splits)

lemma Action_forToken_some:
  fixes t :: token
  defines "d \<equiv> parseActionDescriptorString (content t)"
  assumes "truthy (d_eventName d) \<noteq> None" "truthy (d_identifier d) \<noteq> None" "truthy (d_methodName d) \<noteq> None"
  shows "\<exists>a. Action_forToken doc t = Inr a"
  using assms by (auto simp: Action_forToken_def Action_new_def Let_def)

section \<open>The bindings of an observer\<close>

text \<open>The observer's stack: its elements are those inside the scope's one, their tokens the words there.\<close>

definition up_to_date ::
    "schema \<Rightarrow> document \<Rightarrow> scope \<Rightarrow> element_observer \<Rightarrow> token_list_observer \<Rightarrow> action value_list_observer \<Rightarrow>
       binding_observer \<Rightarrow> bool" where
  "up_to_date sch doc sc eo tlo vlo s \<longleftrightarrow> binding_observer_ok sch sc s \<and> observer_follows sch doc sc s \<and>
     valueListObserver s = Some (eo, tlo, vlo)"

lemma parts:
  assumes "up_to_date sch doc sc eo tlo vlo s"
  shows "tokens_ok (actionAttribute sch) (set (elements eo)) tlo" "values_ok (action_parsed sc) (all_tokens tlo) vlo"
    "bindings_local sc (values_of (all_tokens tlo) vlo) (bindingsByAction s)"
    "set (elements eo) = {e. contains doc (scope_element sc) e \<and> hasAttribute doc e (actionAttribute sch)}"
    "tokens_synced (actionAttribute sch) doc (set (elements eo)) tlo"
proof -
  have v: "valueListObserver s = Some (eo, tlo, vlo)" using assms by (simp add: up_to_date_def)
  have "binding_observer_ok sch sc s" "observer_follows sch doc sc s" using assms by (simp_all add: up_to_date_def)
  then show "tokens_ok (actionAttribute sch) (set (elements eo)) tlo" "values_ok (action_parsed sc) (all_tokens tlo) vlo"
    "bindings_local sc (values_of (all_tokens tlo) vlo) (bindingsByAction s)"
    "set (elements eo) = {e. contains doc (scope_element sc) e \<and> hasAttribute doc e (actionAttribute sch)}"
    "tokens_synced (actionAttribute sch) doc (set (elements eo)) tlo"
    unfolding binding_observer_ok_def observer_follows_def v option.case prod.case by blast+
qed

lemma binding_iff:
  assumes S: "up_to_date sch doc sc eo tlo vlo s"
  shows "b \<in> bindings_of sc s \<longleftrightarrow> (\<exists>t a. t \<in> all_tokens tlo \<and> values_of (all_tokens tlo) vlo t = Some a \<and>
     b = \<lparr>binding_scope = sc, binding_action = a\<rparr>)"
proof -
  have "values_of (all_tokens tlo) vlo t = Some a \<Longrightarrow> t \<in> all_tokens tlo" for t a
    by (simp add: values_of_def split: if_splits)
  then show ?thesis using parts(3) [OF S] unfolding bindings_for_def bindings_local_def by (auto simp: ran_def)
qed

lemma token_value:
  assumes S: "up_to_date sch doc sc eo tlo vlo s" and "t \<in> all_tokens tlo"
  shows "\<exists>doc0. values_of (all_tokens tlo) vlo t =
    (case Action_forToken doc0 t of Inl _ \<Rightarrow> None
     | Inr a \<Rightarrow> if action_identifier a = scope_identifier sc then Some a else None)"
proof -
  from assms(2) parts(2) [OF S] obtain r where r: "Map_get (parseResultsByToken vlo) t = Some r" "action_parsed sc t r"
    unfolding values_ok_def by (meson not_None_eq)
  then obtain doc0 where "r = snd (BindingObserver_parseValueForToken sc doc0 t ())" by (auto simp: action_parsed_def)
  with r(1) assms(2) show ?thesis
    by (intro exI [of _ doc0]) (auto simp: values_of_def parse_action split: sum.split)
qed

lemma token_action:
  assumes S: "up_to_date sch doc sc eo tlo vlo s" and t: "t \<in> all_tokens tlo" "values_of (all_tokens tlo) vlo t = Some a"
  shows "\<exists>doc0. Action_forToken doc0 t = Inr a \<and> action_identifier a = scope_identifier sc"
proof -
  obtain doc0 where v: "values_of (all_tokens tlo) vlo t =
    (case Action_forToken doc0 t of Inl _ \<Rightarrow> None
     | Inr a \<Rightarrow> if action_identifier a = scope_identifier sc then Some a else None)"
    using token_value [OF S t(1)] by blast
  show ?thesis
    using v t(2) by (cases "Action_forToken doc0 t") (auto split: if_splits)
qed

lemma token_place:
  assumes S: "up_to_date sch doc sc eo tlo vlo s" and "t \<in> all_tokens tlo"
  shows "token_element t \<in> set (elements eo)" "t \<in> set (tokens_of tlo (token_element t))"
    and "index t < length (tokens_of tlo (token_element t))" "tokens_of tlo (token_element t) ! index t = t"
proof -
  from assms(2) obtain e where e: "t \<in> set (tokens_of tlo e)" by (auto simp: all_tokens_def)
  have te: "token_element t = e" using parts(1) [OF S] e by (simp add: tokens_ok_def)
  show "token_element t \<in> set (elements eo)" using parts(1) [OF S] e unfolding te tokens_ok_def by auto
  show "t \<in> set (tokens_of tlo (token_element t))" using e te by simp
  from e obtain i where i: "i < length (tokens_of tlo e)" "tokens_of tlo e ! i = t" by (auto simp: in_set_conv_nth)
  have "map index (tokens_of tlo e) ! i = i" using parts(1) [OF S] i(1) by (simp add: tokens_ok_def)
  with i have "index t = i" by simp
  with i te show "index t < length (tokens_of tlo (token_element t))" "tokens_of tlo (token_element t) ! index t = t"
    by simp_all
qed

lemma synced_words:
  assumes S: "up_to_date sch doc sc eo tlo vlo s"
  shows "e \<in> set (elements eo) \<Longrightarrow> attribute_words (actionAttribute sch) doc e = map content (tokens_of tlo e)"
  using parts(5) [OF S] by (simp add: tokens_synced_def)

lemma binding_written:
  assumes S: "up_to_date sch doc sc eo tlo vlo s" and "b \<in> bindings_of sc s"
  shows "binding_scope b = sc \<and> (\<exists>d. (action_element (binding_action b), action_index (binding_action b), d) \<in> written_actions sch doc sc \<and>
    reads_as d (binding_action b))"
proof -
  obtain t a where t: "t \<in> all_tokens tlo" "values_of (all_tokens tlo) vlo t = Some a"
    and b: "b = \<lparr>binding_scope = sc, binding_action = a\<rparr>" using assms(2) binding_iff [OF S] by blast
  from token_action [OF S t] obtain doc0 where a: "Action_forToken doc0 t = Inr a"
    "action_identifier a = scope_identifier sc" by blast
  have p: "action_element a = token_element t" "action_index a = index t"
    using Action_forToken_props [OF a(1)] by simp_all
  note reads = Action_forToken_reads [OF a(1)]
  have e: "contains doc (scope_element sc) (token_element t)" using token_place(1) [OF S t(1)] parts(4) [OF S] by blast
  have w: "attribute_words (actionAttribute sch) doc (token_element t) = map content (tokens_of tlo (token_element t))"
    by (rule synced_words [OF S token_place(1) [OF S t(1)]])
  have "(token_element t, index t, parseActionDescriptorString (content t)) \<in> written_actions sch doc sc"
    using e token_place(3,4) [OF S t(1)] reads a(2) by (simp add: written_actions_def w reads_as_def)
  with reads p b show ?thesis by auto
qed

lemma written_binding:
  assumes S: "up_to_date sch doc sc eo tlo vlo s" and "(e, i, d) \<in> written_actions sch doc sc" "truthy (d_eventName d) \<noteq> None"
  shows "\<exists>b\<in>bindings_of sc s. action_element (binding_action b) = e \<and> action_index (binding_action b) = i"
proof -
  from assms(2) have w: "contains doc (scope_element sc) e" "i < length (attribute_words (actionAttribute sch) doc e)"
    "d = parseActionDescriptorString (attribute_words (actionAttribute sch) doc e ! i)"
    "truthy (d_identifier d) = Some (scope_identifier sc)" "truthy (d_methodName d) \<noteq> None"
    unfolding written_actions_def by blast+
  from w(2) have "attribute_words (actionAttribute sch) doc e ! i \<in> set (attribute_words (actionAttribute sch) doc e)" by simp
  then have e: "e \<in> set (elements eo)" using w(1) attribute_words_has by (simp add: parts(4) [OF S])
  define t where "t = tokens_of tlo e ! i"
  have i: "i < length (tokens_of tlo e)" and d: "d = parseActionDescriptorString (content t)"
    using w(2,3) by (simp_all add: synced_words [OF S e] t_def)
  have "t \<in> set (tokens_of tlo e)" using i by (simp add: t_def)
  then have t: "t \<in> all_tokens tlo" "token_element t = e"
    using parts(1) [OF S] by (auto simp: all_tokens_def tokens_ok_def)
  have "map index (tokens_of tlo e) ! i = i" using parts(1) [OF S] i by (simp add: tokens_ok_def)
  with i have ti: "index t = i" by (simp add: t_def)
  from token_value [OF S t(1)] obtain doc0 where v: "values_of (all_tokens tlo) vlo t =
    (case Action_forToken doc0 t of Inl _ \<Rightarrow> None
     | Inr a \<Rightarrow> if action_identifier a = scope_identifier sc then Some a else None)" by blast
  obtain a where a: "Action_forToken doc0 t = Inr a"
    using Action_forToken_some [of t doc0] assms(3) w(4,5) unfolding d by auto
  have "action_identifier a = scope_identifier sc" using Action_forToken_reads [OF a] w(4) by (simp add: d)
  with a v have "values_of (all_tokens tlo) vlo t = Some a" by simp
  with t(1) have "\<lparr>binding_scope = sc, binding_action = a\<rparr> \<in> bindings_of sc s" using binding_iff [OF S] by blast
  with Action_forToken_props [OF a] t(2) ti show ?thesis by force
qed

lemma binding_unique:
  assumes S: "up_to_date sch doc sc eo tlo vlo s" and "b \<in> bindings_of sc s" "b' \<in> bindings_of sc s"
    and "action_element (binding_action b) = action_element (binding_action b')"
      "action_index (binding_action b) = action_index (binding_action b')"
  shows "b = b'"
proof -
  obtain t a where t: "t \<in> all_tokens tlo" "values_of (all_tokens tlo) vlo t = Some a"
    and b: "b = \<lparr>binding_scope = sc, binding_action = a\<rparr>" using assms(2) binding_iff [OF S] by blast
  obtain t' a' where t': "t' \<in> all_tokens tlo" "values_of (all_tokens tlo) vlo t' = Some a'"
    and b': "b' = \<lparr>binding_scope = sc, binding_action = a'\<rparr>" using assms(3) binding_iff [OF S] by blast
  have place: "action_element a = token_element t \<and> action_index a = index t"
    if "t \<in> all_tokens tlo" "values_of (all_tokens tlo) vlo t = Some a" for t a
    using token_action [OF S that] by (auto dest: Action_forToken_props)
  have ab: "action_element a = action_element a'" "action_index a = action_index a'"
    using assms(4,5) unfolding b b' by simp_all
  have eq: "token_element t = token_element t'" "index t = index t'"
    using place [OF t] place [OF t'] ab by metis+
  have "t = tokens_of tlo (token_element t) ! index t" using token_place(4) [OF S t(1)] by (rule sym)
  also have "\<dots> = t'" unfolding eq by (rule token_place(4) [OF S t'(1)])
  finally have "a = a'" using t(2) t'(2) by simp
  then show ?thesis by (simp add: b b')
qed

section \<open>The application\<close>

lemma connected_up_to_date:
  assumes ok: "app_ok a" and f: "app_contexts_are (observer_follows (app_schema a) doc) a"
    and m: "Map_get (modulesByIdentifier (app_router a)) i = Some m" "sc \<in> set (connectedContexts m)"
      "Map_get (contextsByScope m) sc = Some c"
  shows "\<exists>eo tlo vlo. up_to_date (app_schema a) doc sc eo tlo vlo (bindingObserver c)"
proof -
  have "observer_follows (app_schema a) doc sc (bindingObserver c)"
    using f m by (simp add: app_contexts_are_def router_observers_def observers_are_def)
  moreover from this obtain eo tlo vlo where "valueListObserver (bindingObserver c) = Some (eo, tlo, vlo)"
    by (auto simp: observer_follows_def split: option.splits)
  moreover have "context_ok (app_schema a) sc (sc \<in> scopes_with i (ran (app_scopes a))) c"
    using app_module_ok [OF ok m(1)] m(3) unfolding module_ok_def by blast
  then have "binding_observer_ok (app_schema a) sc (bindingObserver c)" by (simp add: context_ok_def)
  ultimately show ?thesis unfolding up_to_date_def by blast
qed

lemma connected_context:
  assumes ok: "app_ok a" and sc: "sc \<in> ran (app_scopes a)"
    and m: "Map_get (modulesByIdentifier (app_router a)) (scope_identifier sc) = Some m"
  shows "sc \<in> set (connectedContexts m) \<and> (\<exists>c. Map_get (contextsByScope m) sc = Some c)"
  using app_module_ok [OF ok m] sc unfolding module_ok_def by (auto simp: scopes_with_def)

lemma registered_written:
  assumes ok: "app_ok a" and f: "app_contexts_are (observer_follows (app_schema a) doc) a"
    and r: "registered (env_dispatcher (app_env a)) b"
  shows "binding_scope b \<in> ran (app_scopes a) \<and>
    Map_get (modulesByIdentifier (app_router a)) (scope_identifier (binding_scope b)) \<noteq> None \<and>
    (\<exists>d. (action_element (binding_action b), action_index (binding_action b), d)
        \<in> written_actions (app_schema a) doc (binding_scope b) \<and> reads_as d (binding_action b))"
proof -
  obtain m c where m: "Map_get (modulesByIdentifier (app_router a)) (scope_identifier (binding_scope b)) = Some m"
    "binding_scope b \<in> set (connectedContexts m)" "Map_get (contextsByScope m) (binding_scope b) = Some c"
    "b \<in> context_bindings (binding_scope b) c" using r registered_contexts [OF ok] by blast
  obtain eo tlo vlo where S: "up_to_date (app_schema a) doc (binding_scope b) eo tlo vlo (bindingObserver c)"
    using connected_up_to_date [OF ok f m(1-3)] by blast
  have "binding_scope b \<in> ran (app_scopes a)"
    using app_module_ok [OF ok m(1)] m(2) by (auto simp: module_ok_def scopes_with_def)
  with binding_written [OF S m(4)] m(1) show ?thesis by simp
qed

lemma written_registered:
  assumes ok: "app_ok a" and f: "app_contexts_are (observer_follows (app_schema a) doc) a"
    and sc: "sc \<in> ran (app_scopes a)" "Map_get (modulesByIdentifier (app_router a)) (scope_identifier sc) = Some m"
    and w: "(e, i, d) \<in> written_actions (app_schema a) doc sc" "truthy (d_eventName d) \<noteq> None"
  shows "\<exists>!b. registered (env_dispatcher (app_env a)) b \<and> binding_scope b = sc \<and>
    action_element (binding_action b) = e \<and> action_index (binding_action b) = i"
proof -
  obtain c where c: "sc \<in> set (connectedContexts m)" "Map_get (contextsByScope m) sc = Some c"
    using connected_context [OF ok sc] by blast
  obtain eo tlo vlo where S: "up_to_date (app_schema a) doc sc eo tlo vlo (bindingObserver c)"
    using connected_up_to_date [OF ok f sc(2) c] by blast
  have reg: "registered (env_dispatcher (app_env a)) b \<longleftrightarrow> b \<in> context_bindings sc c" if "binding_scope b = sc" for b
    using registered_contexts [OF ok, of b] that sc(2) c by simp
  obtain b where b: "b \<in> context_bindings sc c" "action_element (binding_action b) = e" "action_index (binding_action b) = i"
    using written_binding [OF S w] by blast
  have scb: "binding_scope b = sc" by (rule scope_of_bindings [OF b(1)])
  show ?thesis
  proof (rule ex1I [of _ b])
    show "registered (env_dispatcher (app_env a)) b \<and> binding_scope b = sc \<and>
        action_element (binding_action b) = e \<and> action_index (binding_action b) = i"
      using reg [OF scb] scb b by simp
    fix b'
    assume b': "registered (env_dispatcher (app_env a)) b' \<and> binding_scope b' = sc \<and>
        action_element (binding_action b') = e \<and> action_index (binding_action b') = i"
    then have "b' \<in> context_bindings sc c" using reg by blast
    then show "b' = b" by (rule binding_unique [OF S _ b(1)]) (use b b' in simp_all)
  qed
qed

end
