(* ===== verification/Async.thy ===== *)
theory Async
  imports Application
begin

text \<open>
  The helpers of \<^verbatim>\<open>src/gui/web/assets/scripts/stimulus.js\<close> for asynchronous functions (lines
  1829-1950), \<open>__awaiter\<close> and \<open>__generator\<close>, and the one function that is compiled to them:
  \<open>Application.start\<close>, which waits for the document.
\<close>

section \<open>Generators\<close>

text \<open>
  An iterator to which a generator delegates: its functions return a value with whether it is the
  last one, or throw (\<open>Inl\<close>), and may change the state of the program.
\<close>

record ('v, 's) iterator =
  it_next :: "'v \<Rightarrow> 's \<Rightarrow> ('v + 'v \<times> bool) \<times> 's"
  it_throw :: "('v \<Rightarrow> 's \<Rightarrow> ('v + 'v \<times> bool) \<times> 's) option"
  it_return :: "('v \<Rightarrow> 's \<Rightarrow> ('v + 'v \<times> bool) \<times> 's) option"

text \<open>
  The operations, which the code numbers 0 to 7. The first three are also what a caller asks of the
  generator, and an exception of its body becomes an \<open>Error_op\<close>.
\<close>

datatype ('v, 's) op =
  Next_op 'v | Throw_op 'v | Return_op 'v | Break_op nat | Yield_op 'v | Delegate_op "('v, 's) iterator" |
  Error_op 'v | Endfinally_op

text \<open>The labels of a \<open>try\<close> statement: its start, its handlers if it has them, and its end.\<close>

record region =
  try_start :: nat
  catch_label :: "nat option"
  finally_label :: "nat option"
  try_end :: nat

text \<open>
  The state of a generator: \<open>_\<close> with the stacks \<open>trys\<close> and \<open>ops\<close>, whose tops are the heads of the
  lists here, and the iterator \<open>y\<close>; it is finished when \<open>_\<close> is 0.
\<close>

record ('v, 's) generator =
  gen_label :: nat
  trys :: "region list"
  pending_ops :: "('v, 's) op list"
  delegate_to :: "('v, 's) iterator option"
  gen_finished :: bool

definition generator_new :: "('v, 's) generator" where
  "generator_new = \<lparr>gen_label = 0, trys = [], pending_ops = [], delegate_to = None, gen_finished = False\<rparr>"

text \<open>What \<open>_.sent()\<close> does in the body: it gives a value, throws one, or stands for no value at all.\<close>

datatype 'v sent = Sent 'v | Sent_error 'v | Nothing_sent

text \<open>
  The body of a generator goes on from its label; it throws or gives its next operation.
\<close>

type_synonym ('v, 's) gen_body =
  "('v, 's) generator \<Rightarrow> 'v sent \<Rightarrow> 's \<Rightarrow> ('v + ('v, 's) op) \<times> ('v, 's) generator \<times> 's"

text \<open>
  The condition of \<open>step\<close>: what the iterator says is passed on (\<open>Inl\<close>), until it is done. The
  operation is one of the first three when there is an iterator.
\<close>

definition delegate_called ::
    "bool \<Rightarrow> ('v, 's) generator \<Rightarrow> ('v + 'v \<times> bool) \<times> 's \<Rightarrow> ('v + ('v, 's) op) \<times> ('v, 's) generator \<times> 's" where
  "delegate_called returning g r =
     (case r of
        (Inl e, w) \<Rightarrow> (Inr (Error_op e), g\<lparr>delegate_to := None\<rparr>, w)
      | (Inr (v, False), w) \<Rightarrow> (Inl v, g, w)
      | (Inr (v, True), w) \<Rightarrow> (Inr (if returning then Return_op v else Next_op v), g\<lparr>delegate_to := None\<rparr>, w))"

definition delegate_step ::
    "'v \<Rightarrow> ('v, 's) op \<Rightarrow> ('v, 's) generator \<Rightarrow> 's \<Rightarrow> ('v + ('v, 's) op) \<times> ('v, 's) generator \<times> 's" where
  "delegate_step undef op g w =
     (case delegate_to g of
        None \<Rightarrow> (Inr op, g, w)
      | Some y \<Rightarrow>
          (case op of
             Next_op v \<Rightarrow> delegate_called False g (it_next y v w)
           | Throw_op e \<Rightarrow>
               (case (it_throw y, it_return y) of
                  (Some f, _) \<Rightarrow> delegate_called False g (f e w)
                | (None, Some f) \<Rightarrow>
                    (case f undef w of
                       (Inl e', w) \<Rightarrow> (Inr (Error_op e'), g\<lparr>delegate_to := None\<rparr>, w)
                     | (Inr _, w) \<Rightarrow> (Inr op, g\<lparr>delegate_to := None\<rparr>, w))
                | (None, None) \<Rightarrow> (Inr op, g\<lparr>delegate_to := None\<rparr>, w))
           | Return_op v \<Rightarrow>
               (case it_return y of
                  Some f \<Rightarrow> delegate_called True g (f v w)
                | None \<Rightarrow> (Inr op, g\<lparr>delegate_to := None\<rparr>, w))
           | _ \<Rightarrow> (Inr op, g\<lparr>delegate_to := None\<rparr>, w)))"

text \<open>The \<open>switch\<close> of \<open>step\<close>: the body is run, or the operation is turned into another one, or it ends.\<close>

datatype ('v, 's) switched =
  Run "'v sent" "('v, 's) generator" | Pause 'v "('v, 's) generator" |
  Again "('v, 's) op" "('v, 's) generator" | Finished "('v, 's) op" "('v, 's) generator"

definition unwind :: "('v, 's) op \<Rightarrow> ('v, 's) generator \<Rightarrow> ('v, 's) switched" where
  "unwind op g =
     (case trys g of
        [] \<Rightarrow> (case op of Break_op l \<Rightarrow> Run Nothing_sent (g\<lparr>gen_label := l\<rparr>) | _ \<Rightarrow> Finished op (g\<lparr>gen_finished := True\<rparr>))
      | t # ts \<Rightarrow>
          (let past = (\<lambda>l. case l of None \<Rightarrow> False | Some l \<Rightarrow> gen_label g < l);
               leave = (if past (finally_label t) then Run Nothing_sent (g\<lparr>gen_label := the (finally_label t), pending_ops := op # pending_ops g\<rparr>)
                        else Again op (g\<lparr>pending_ops := (if finally_label t \<in> {None, Some 0} then pending_ops g else tl (pending_ops g)), trys := ts\<rparr>))
           in case op of
                Break_op l \<Rightarrow> if try_start t < l \<and> l < try_end t then Run Nothing_sent (g\<lparr>gen_label := l\<rparr>) else leave
              | Error_op e \<Rightarrow> if past (catch_label t) then Run (Sent e) (g\<lparr>gen_label := the (catch_label t)\<rparr>) else leave
              | _ \<Rightarrow> leave))"

definition switch_op :: "'v \<Rightarrow> 'v \<Rightarrow> ('v, 's) op \<Rightarrow> ('v, 's) generator \<Rightarrow> ('v, 's) switched" where
  "switch_op undef type_error op g =
     (case op of
        Next_op v \<Rightarrow> Run (Sent v) g
      | Throw_op e \<Rightarrow> Run (Sent_error e) g
      | Yield_op v \<Rightarrow> Pause v (g\<lparr>gen_label := gen_label g + 1\<rparr>)
      | Delegate_op y \<Rightarrow> Again (Next_op undef) (g\<lparr>gen_label := gen_label g + 1, delegate_to := Some y\<rparr>)
      | Endfinally_op \<Rightarrow>
          (case pending_ops g of
             [] \<Rightarrow> Again (Error_op type_error) (g\<lparr>trys := tl (trys g)\<rparr>)
           | op # rest \<Rightarrow> Again op (g\<lparr>pending_ops := rest, trys := tl (trys g)\<rparr>))
      | _ \<Rightarrow> unwind op g)"

text \<open>
  What a finished generator answers. The flag against a generator that calls itself is left out: the
  body is a function of the state and has no way to do so.
\<close>

definition gen_final :: "'v \<Rightarrow> ('v, 's) op \<Rightarrow> 'v + 'v \<times> bool" where
  "gen_final undef op =
     (case op of
        Throw_op e \<Rightarrow> Inl e | Error_op e \<Rightarrow> Inl e | Return_op v \<Rightarrow> Inr (v, True) | _ \<Rightarrow> Inr (undef, True))"

text \<open>The loop of \<open>step\<close>, which need not end: the body may jump in circles.\<close>

partial_function (option) gen_step ::
    "'v \<Rightarrow> 'v \<Rightarrow> ('v, 's) gen_body \<Rightarrow> ('v, 's) op \<Rightarrow> ('v, 's) generator \<Rightarrow> 's \<Rightarrow>
       (('v + 'v \<times> bool) \<times> ('v, 's) generator \<times> 's) option" where
  "gen_step undef type_error body op g w =
     (if gen_finished g then Some (gen_final undef op, g, w)
      else case delegate_step undef op g w of
        (Inl v, g, w) \<Rightarrow> Some (Inr (v, False), g, w)
      | (Inr op, g, w) \<Rightarrow>
          (case switch_op undef type_error op g of
             Pause v g \<Rightarrow> Some (Inr (v, False), g, w)
           | Finished op g \<Rightarrow> Some (gen_final undef op, g, w)
           | Again op g \<Rightarrow> gen_step undef type_error body op g w
           | Run sent g \<Rightarrow>
               (case body g sent w of
                  (Inl e, g, w) \<Rightarrow> gen_step undef type_error body (Error_op e) (g\<lparr>delegate_to := None\<rparr>) w
                | (Inr op, g, w) \<Rightarrow> gen_step undef type_error body op g w)))"

section \<open>Asynchronous functions\<close>

text \<open>
  The promise of an asynchronous function: it waits for a promise its generator gave, or is settled.
\<close>

datatype ('v, 's) async = Awaiting 'v "('v, 's) generator" | Resolved_with 'v | Failed_with 'v

definition async_step ::
    "('v + 'v \<times> bool) \<times> ('v, 's) generator \<times> 's \<Rightarrow> ('v, 's) async \<times> 's" where
  "async_step r =
     (case r of
        (Inl e, g, w) \<Rightarrow> (Failed_with e, w)
      | (Inr (v, True), g, w) \<Rightarrow> (Resolved_with v, w)
      | (Inr (v, False), g, w) \<Rightarrow> (Awaiting v g, w))"

definition awaiter :: "'v \<Rightarrow> 'v \<Rightarrow> ('v, 's) gen_body \<Rightarrow> 's \<Rightarrow> (('v, 's) async \<times> 's) option" where
  "awaiter undef type_error body w =
     map_option async_step (gen_step undef type_error body (Next_op undef) generator_new w)"

text \<open>The promise that was awaited is fulfilled (\<open>Inr\<close>) or rejected.\<close>

definition awaited ::
    "'v \<Rightarrow> 'v \<Rightarrow> ('v, 's) gen_body \<Rightarrow> 'v + 'v \<Rightarrow> ('v, 's) async \<Rightarrow> 's \<Rightarrow> (('v, 's) async \<times> 's) option" where
  "awaited undef type_error body r p w =
     (case p of
        Awaiting _ g \<Rightarrow>
          map_option async_step (gen_step undef type_error body
            (case r of Inr v \<Rightarrow> Next_op v | Inl e \<Rightarrow> Throw_op e) g w)
      | _ \<Rightarrow> Some (p, w))"

text \<open>A generator that is finished stays so; an operation that leaves a \<open>try\<close> runs its \<open>finally\<close> first, which repeats it.\<close>

lemma finished_stays: "gen_finished g \<Longrightarrow> gen_step undef type_error body op g w = Some (gen_final undef op, g, w)"
  by (simp add: gen_step.simps)

lemma finally_first:
  assumes "trys g = t # ts" "finally_label t = Some l" "gen_label g < l" "op = Return_op v \<or> (op = Error_op v \<and> catch_label t = None)"
  shows "switch_op undef type_error op g = Run Nothing_sent (g\<lparr>gen_label := l, pending_ops := op # pending_ops g\<rparr>)"
    and "pending_ops g' = op # pending_ops g \<Longrightarrow> trys g' = t # ts \<Longrightarrow>
      switch_op undef type_error Endfinally_op g' = Again op (g'\<lparr>pending_ops := pending_ops g, trys := ts\<rparr>)"
  using assms by (auto simp: switch_op_def unwind_def Let_def)

section \<open>Application.start\<close>

text \<open>\<open>domReady\<close> is resolved at once unless the document is still loading, else by its event.\<close>

definition domReady :: "string \<Rightarrow> bool \<Rightarrow> bool" where
  "domReady readyState DOMContentLoaded \<longleftrightarrow> readyState \<noteq> ''loading'' \<or> DOMContentLoaded"

datatype start_value = Undefined_value | Dom_ready | Start_error string

definition start_body :: "(start_value, document \<times> 'u application) gen_body" where
  "start_body g sent w =
     (if gen_label g = 0 then (Inr (Yield_op Dom_ready), g, w)
      else if gen_label g = 1 then
        (case sent of
           Sent_error e \<Rightarrow> (Inl e, g, w)
         | _ \<Rightarrow>
             (let (doc, a) = w; a = map_dispatcher Dispatcher_start a; a = Router_start doc a
              in (Inr (Return_op Undefined_value), g, (doc, a))))
      else (Inl (Start_error ''TypeError''), g, w))"

text \<open>
  The method, and what becomes of it when the document is ready: the document and the application
  may have changed by then.
\<close>

definition Application_prototype_start :: "document \<times> 'u application \<Rightarrow>
    ((start_value, document \<times> 'u application) async \<times> document \<times> 'u application) option" where
  "Application_prototype_start w = awaiter Undefined_value (Start_error ''TypeError'') start_body w"

definition start_awaited :: "start_value + start_value \<Rightarrow> (start_value, document \<times> 'u application) async \<Rightarrow>
    document \<times> 'u application \<Rightarrow> ((start_value, document \<times> 'u application) async \<times> document \<times> 'u application) option" where
  "start_awaited r p w = awaited Undefined_value (Start_error ''TypeError'') start_body r p w"

lemmas start_defs = Application_prototype_start_def start_awaited_def awaiter_def awaited_def generator_new_def
  start_body_def Let_def delegate_step_def switch_op_def unwind_def async_step_def gen_final_def Application_start_def

section \<open>Spread arguments\<close>

text \<open>\<open>__spreadArrays\<close> copies the elements of its arguments, one by one, into an array of the length of all.\<close>

definition spreadArrays :: "'a list list \<Rightarrow> 'a option list" where
  "spreadArrays arguments =
     fst (fold (\<lambda>a rk. fold (\<lambda>x (r, k). (r[k := Some x], Suc k)) a rk) arguments
       (replicate (sum_list (map length arguments)) None, 0))"

lemma copy_array:
  "fold (\<lambda>x (r, k). (r[k := Some x], Suc k)) a (ys @ replicate (length a + n) None, length ys) =
     (ys @ map Some a @ replicate n None, length ys + length a)"
proof (induction a arbitrary: ys)
  case (Cons x a)
  from Cons.IH [of "ys @ [Some x]"] show ?case by (simp add: list_update_append)
qed simp

lemma spreadArrays_concat: "spreadArrays arguments = map Some (concat arguments)"
proof -
  have "fst (fold (\<lambda>a rk. fold (\<lambda>x (r, k). (r[k := Some x], Suc k)) a rk) as
      (ys @ replicate (sum_list (map length as)) None, length ys)) = ys @ map Some (concat as)" for as and ys :: "'a option list"
  proof (induction as arbitrary: ys)
    case (Cons a as)
    from Cons.IH [of "ys @ map Some a"] show ?case by (simp add: copy_array)
  qed simp
  from this [of arguments "[]"] show ?thesis by (simp add: spreadArrays_def)
qed

end
