(* ===== verification/Stimulus_Properties.thy ===== *)
theory Stimulus_Properties
  imports Application_Start Page_Bindings Async
begin

text \<open>
  What the controller framework guarantees, on its own definitions: which controllers there are,
  which event listeners, how action descriptors are read, in which order events are handled,
  and how tokens, targets, data attributes and values behave.
\<close>

section \<open>A page\<close>

text \<open>A page with one controller on the element 1, inside which element 2 has an action and a target.\<close>

definition test_document :: document where
  "test_document = \<lparr>root = Node 0 ''HTML'' []
     [Node 1 ''DIV'' [(''data-controller'', ''search'')]
        [Node 2 ''BUTTON'' [(''data-action'', ''search#go''), (''data-search-target'', ''go'')] []]],
     detached = []\<rparr>"

definition test_class :: "unit controller_class" where
  "test_class = \<lparr>value_declarations = [], changed_method = (\<lambda>_. None),
     initialize_method = (\<lambda>_ _ u. (u, None)), connect_method = (\<lambda>_ _ u. (u, None)),
     disconnect_method = (\<lambda>_ _ u. (u, None))\<rparr>"

lemma test_document_wf: "document_wf test_document"
  by code_simp

definition new_application :: "unit application" where
  "new_application = Application_new (nid (root test_document)) defaultSchema ()"

text \<open>The application of this page, started, with its controller registered.\<close>

definition test_application :: "unit application" where
  "test_application =
     Application_register test_document ''search'' test_class (Application_start test_document new_application)"

definition test_binding :: binding where
  "test_binding = \<lparr>binding_scope = \<lparr>scope_element = 1, scope_identifier = ''search''\<rparr>,
     binding_action = \<lparr>aid = 0, action_element = 2, action_index = 0, eventTarget = Element_target 2,
       eventName = ''click'', eventOptions = [], action_identifier = ''search'', methodName = ''go''\<rparr>\<rparr>"

lemma test_life: "app_life True test_document {''search''} test_application"
proof -
  have "app_life False test_document {} new_application"
    unfolding new_application_def by (rule app_life.new [OF test_document_wf]) code_simp+
  from app_life.load [OF app_life.start [OF this], of "[(''search'', test_class)]"] show ?thesis
    by (simp add: test_application_def Application_register_def)
qed

text \<open>
  The page changes: a new element of the same controller is put in front of the first one, which
  is taken out, emptied of its attribute and put into the new one; its button gets a second action.
\<close>

definition test_changes :: "page_change list" where
  "test_changes = [Create_element 3 ''DIV'', Set_attribute 3 ''Data-Controller'' ''list  search'', Insert_node 0 0 3,
     Remove_node 1, Remove_attribute 1 ''data-controller'', Insert_node 3 0 1,
     Set_attribute 2 ''data-action'' ''search#go click->search#stop'']"

definition changed_document :: document where
  "changed_document = fst (page_changes (nid (root test_document)) test_changes test_document)"

text \<open>The records are delivered, to the contexts in the order of \<open>controllers\<close>.\<close>

definition updated_application :: "unit application" where
  "updated_application = deliver_scopes changed_document
     (snd (page_changes (nid (root test_document)) test_changes test_document))
     (record_page test_changes test_document test_application)"

definition changed_application :: "unit application" where
  "changed_application = deliver_actions changed_document
     (map context_scope (Application_controllers updated_application)) updated_application"

lemma changed_life: "app_life True changed_document {''search''} changed_application"
  unfolding changed_application_def
proof (rule app_life.page [OF test_life])
  show "page_changes (nid (root test_document)) test_changes test_document =
      (changed_document, snd (page_changes (nid (root test_document)) test_changes test_document))"
    by (simp add: changed_document_def)
  have "app_ok test_application" "app_contexts_are (observer_follows (app_schema test_application) test_document) test_application"
    using app_life_ok [OF test_life] by (simp_all add: life_ok_def)
  then have "app_ok (record_page test_changes test_document test_application)" by (simp add: record_page_contexts)
  then show "distinct (map context_scope (Application_controllers updated_application))"
    unfolding updated_application_def by (intro controllers_scopes(1) deliver_scopes_ok)
qed (simp_all add: updated_application_def)

lemma changed_schema: "app_schema changed_application = defaultSchema"
proof -
  have "app_schema test_application = defaultSchema" by code_simp
  then show ?thesis
    by (simp add: changed_application_def updated_application_def batch_schema deliver_stack)
qed

lemma test_reachable: "app_reachable test_application"
  unfolding test_application_def new_application_def Application_register_def
  by (rule app_reachable.step [OF app_reachable.step [OF app_reachable.new app_step.start] app_step.load])

section \<open>The key of a listener\<close>

text \<open>The text of an option, and the names an option can have.\<close>

definition option_text :: "string \<times> bool \<Rightarrow> string" where
  "option_text p = (if snd p then fst p else ''!'' @ fst p)"

definition option_name :: "string \<Rightarrow> bool" where
  "option_name s \<longleftrightarrow> CHR '':'' \<notin> set s \<and> take 1 s \<noteq> ''!'' \<and> s \<noteq> ''__proto__''"

lemma parse_option:
  "option_name (fst p) \<Longrightarrow>
     (case option_text p of
        c # cs \<Rightarrow> (if c = CHR ''!'' then set_prop cs False options else set_prop (option_text p) True options)
      | [] \<Rightarrow> set_prop [] True options) = set_prop (fst p) (snd p) options"
  by (cases "fst p") (auto simp: option_text_def option_name_def)

text \<open>Event options written as a list of names separated by colons, with an exclamation mark
  before those that are off, are read back as they were, in their order.\<close>

lemma options_round_trip:
  assumes "opts \<noteq> []" "distinct (map fst opts)" "\<forall>p\<in>set opts. option_name (fst p)"
  shows "parseEventOptions (join_with (CHR '':'') (map option_text opts)) = opts"
proof -
  have "\<forall>w\<in>set (map option_text opts). CHR '':'' \<notin> set w"
    using assms(3) by (auto simp: option_text_def option_name_def)
  then have split: "split_on (CHR '':'') (join_with (CHR '':'') (map option_text opts)) = map option_text opts"
    using assms(1) by (intro split_on_join) auto
  have "fold (\<lambda>token options. (case token of
            c # cs \<Rightarrow> (if c = CHR ''!'' then set_prop cs False options else set_prop token True options)
          | [] \<Rightarrow> set_prop [] True options)) (map option_text ps) acc = acc @ ps"
    if "distinct (map fst (acc @ ps))" "\<forall>p\<in>set ps. option_name (fst p)" for ps acc
    using that
  proof (induction ps arbitrary: acc)
    case (Cons p ps)
    have "fst p \<notin> fst ` set acc" using Cons.prems(1) by auto
    then have "set_prop (fst p) (snd p) acc = acc @ [p]"
      using Cons.prems(2) by (simp add: set_prop_def option_name_def update_absent)
    with Cons.IH [of "acc @ [p]"] Cons.prems show ?case by (simp add: parse_option)
  qed simp
  from this [of "[]" opts] assms show ?thesis by (simp add: parseEventOptions_def split)
qed

lemma option_text_inj:
  assumes "option_name k" "option_name k'" "option_text (k, v) = option_text (k', v')"
  shows "k = k' \<and> v = v'"
  using assms by (cases k; cases k'; cases v; cases v') (auto simp: option_text_def option_name_def)

lemma cacheKey_text:
  "Dispatcher_cacheKey name opts =
     join_with (CHR '':'') (name # map (\<lambda>k. option_text (k, Map_get opts k = Some True)) (sort (map fst opts)))"
  by (auto simp: Dispatcher_cacheKey_def option_text_def intro!: arg_cong [where f = "join_with (CHR '':'')"])

lemma cacheKey_inj:
  assumes "CHR '':'' \<notin> set name" "CHR '':'' \<notin> set name'"
    and "Map_wf opts" "Map_wf opts'" "\<forall>p\<in>set opts \<union> set opts'. option_name (fst p)"
    and "Dispatcher_cacheKey name opts = Dispatcher_cacheKey name' opts'"
  shows "name = name' \<and> set opts = set opts'"
proof -
  let ?t = "\<lambda>opts k. option_text (k, Map_get opts k = Some True)"
  let ?parts = "\<lambda>name opts. name # map (?t opts) (sort (map fst opts))"
  have split: "split_on (CHR '':'') (Dispatcher_cacheKey n q) = ?parts n q"
    if "CHR '':'' \<notin> set n" "\<forall>p\<in>set q. option_name (fst p)" for n q
  proof -
    have "\<forall>w\<in>set (?parts n q). CHR '':'' \<notin> set w"
      using that by (auto simp: option_text_def option_name_def)
    then show ?thesis unfolding cacheKey_text by (intro split_on_join) auto
  qed
  have parts: "?parts name opts = ?parts name' opts'"
    using split [OF assms(1), of opts] split [OF assms(2), of opts'] assms(5,6) by simp
  define ks ks' where "ks = sort (map fst opts)" and "ks' = sort (map fst opts')"
  have eq: "map (?t opts) ks = map (?t opts') ks'" using parts by (simp add: ks_def ks'_def)
  from eq have len: "length ks = length ks'" by (rule map_eq_imp_length_eq)
  have key: "ks ! i = ks' ! i \<and> (Map_get opts (ks ! i) = Some True \<longleftrightarrow> Map_get opts' (ks' ! i) = Some True)"
    if i: "i < length ks" for i
  proof -
    have "ks ! i \<in> fst ` set opts" "ks' ! i \<in> fst ` set opts'"
      using i len nth_mem [of i ks] nth_mem [of i ks'] by (auto simp: ks_def ks'_def)
    then have "option_name (ks ! i)" "option_name (ks' ! i)"
      using assms(5) by (force, force)
    moreover have "?t opts (ks ! i) = ?t opts' (ks' ! i)"
      using i len arg_cong [OF eq, of "\<lambda>l. l ! i"] by simp
    ultimately show ?thesis using option_text_inj by blast
  qed
  then have same: "ks = ks'" using len by (intro nth_equalityI) auto
  have sub: "set q \<subseteq> set r"
    if wf: "Map_wf q" "Map_wf r" and keys: "fst ` set q = fst ` set r"
      and val: "\<And>k. k \<in> fst ` set q \<Longrightarrow> Map_get q k = Some True \<longleftrightarrow> Map_get r k = Some True"
    for q r :: "(string \<times> bool) list"
  proof
    fix p assume p: "p \<in> set q"
    obtain k v where kv: "p = (k, v)" by (cases p)
    with p have k: "k \<in> fst ` set q" "Map_get q k = Some v" using wf(1) by (force, simp)
    then obtain v' where v': "Map_get r k = Some v'" using keys by (auto simp: Map_has_iff [symmetric])
        (metis Map_has_iff option.exhaust)
    with val [OF k(1)] k(2) have "v' = v" by (cases v; cases v') auto
    with v' show "p \<in> set r" using map_of_SomeD [OF v'] kv by simp
  qed
  have keys: "fst ` set opts = fst ` set opts'"
  proof -
    have "set ks = set ks'" using same by simp
    then show ?thesis by (simp add: ks_def ks'_def)
  qed
  have val: "Map_get opts k = Some True \<longleftrightarrow> Map_get opts' k = Some True" if "k \<in> fst ` set opts" for k
  proof -
    have "k \<in> set ks" using that by (simp add: ks_def)
    then obtain i where "i < length ks" "ks ! i = k" by (auto simp: in_set_conv_nth)
    with key [of i] show ?thesis by metis
  qed
  have "set opts = set opts'"
    using sub [OF assms(3,4) keys val] sub [OF assms(4,3) keys [symmetric]] val keys by blast
  with parts show ?thesis by simp
qed

text \<open>Names and options whose key says what they are.\<close>

definition plain_key :: "string \<Rightarrow> (string \<times> bool) list \<Rightarrow> bool" where
  "plain_key name opts \<longleftrightarrow> CHR '':'' \<notin> set name \<and> Map_wf opts \<and> (\<forall>p\<in>set opts. option_name (fst p))"

lemma plain_key_inj:
  assumes "plain_key name opts" "plain_key name' opts'" "Dispatcher_cacheKey name opts = Dispatcher_cacheKey name' opts'"
  shows "name = name' \<and> set opts = set opts'"
  using assms by (intro cacheKey_inj) (auto simp: plain_key_def)

section \<open>The application follows its page\<close>

text \<open>C1: Through the whole life of a started application (controllers registered and unregistered;
  elements made, inserted, taken out and given or deprived of attributes in any batch, and the
  mutation records the browser keeps of the batch delivered), an element has a controller of an
  identifier exactly when the identifier is registered, the element is part of the page and its
  controller attribute names the identifier.\<close>

theorem controllers_follow_page:
  assumes "app_life True doc I a"
  shows "Application_getControllerForElementAndIdentifier e ident a \<noteq> None \<longleftrightarrow>
    ident \<in> I \<and> isConnected doc e \<and> ident \<in> set (attribute_words (controllerAttribute (app_schema a)) doc e)"
proof -
  have ok: "app_ok a" "identifiers a = I" "app_synced doc a"
    using app_life_ok [OF assms] by (simp_all add: life_ok_def)
  have "Map_has (modulesByIdentifier (app_router a)) ident \<longleftrightarrow> ident \<in> I"
    using ok(2) by (auto simp: identifiers_def)
  then show ?thesis
    using controller_lookup [OF ok(1), of e ident] app_synced_scopes [OF ok(3)]
    by (auto simp: document_scopes_def)
qed

theorem controllers_follow_page_witness:
  "Application_getControllerForElementAndIdentifier 3 ''search'' changed_application \<noteq> None \<and>
   Application_getControllerForElementAndIdentifier 3 ''list'' changed_application = None \<and>
   Application_getControllerForElementAndIdentifier 1 ''search'' changed_application = None"
proof -
  have a: "controllerAttribute (app_schema changed_application) = ''data-controller''"
    unfolding changed_schema by code_simp
  have "isConnected changed_document 3 \<and> ''search'' \<in> set (attribute_words ''data-controller'' changed_document 3)"
    "''search'' \<notin> set (attribute_words ''data-controller'' changed_document 1)" by code_simp+
  then show ?thesis
    using controllers_follow_page [OF changed_life, of 3 "''search''", unfolded a]
      controllers_follow_page [OF changed_life, of 3 "''list''", unfolded a]
      controllers_follow_page [OF changed_life, of 1 "''search''", unfolded a] by auto
qed

text \<open>C3: Through the whole life of a started application the dispatcher has the bindings that are
  written into the page, and no others: every binding stands for a word of the action attribute
  of an element inside its scope's element, at its place, reads it as the scope's action and
  belongs to a registered controller of the page; and every such word with an event name has
  exactly one.\<close>

theorem bindings_follow_page:
  assumes "app_life True doc I a"
  shows "(registered (env_dispatcher (app_env a)) b \<longrightarrow>
      binding_scope b \<in> document_scopes (app_schema a) doc \<and> scope_identifier (binding_scope b) \<in> I \<and>
      (\<exists>d. (action_element (binding_action b), action_index (binding_action b), d)
          \<in> written_actions (app_schema a) doc (binding_scope b) \<and> reads_as d (binding_action b))) \<and>
    (sc \<in> document_scopes (app_schema a) doc \<and> scope_identifier sc \<in> I \<and>
      (e, i, d) \<in> written_actions (app_schema a) doc sc \<and> truthy (d_eventName d) \<noteq> None \<longrightarrow>
      (\<exists>!b. registered (env_dispatcher (app_env a)) b \<and> binding_scope b = sc \<and>
         action_element (binding_action b) = e \<and> action_index (binding_action b) = i))"
proof -
  have life: "app_ok a" "app_contexts_are (observer_follows (app_schema a) doc) a"
    and scopes: "ran (app_scopes a) = document_scopes (app_schema a) doc" and I: "identifiers a = I"
    using app_life_ok [OF assms] app_synced_scopes [of doc a] by (simp_all add: life_ok_def)
  have has: "Map_get (modulesByIdentifier (app_router a)) ident \<noteq> None \<longleftrightarrow> ident \<in> I" for ident
    unfolding I [symmetric] by (simp add: identifiers_def Map_has_iff)
  have "\<exists>!b. registered (env_dispatcher (app_env a)) b \<and> binding_scope b = sc \<and>
      action_element (binding_action b) = e \<and> action_index (binding_action b) = i"
    if sc: "sc \<in> document_scopes (app_schema a) doc" "scope_identifier sc \<in> I"
      and w: "(e, i, d) \<in> written_actions (app_schema a) doc sc" "truthy (d_eventName d) \<noteq> None"
  proof -
    obtain m where "Map_get (modulesByIdentifier (app_router a)) (scope_identifier sc) = Some m"
      using sc(2) has by blast
    from written_registered [OF life sc(1) [folded scopes] this w] show ?thesis .
  qed
  moreover have "binding_scope b \<in> document_scopes (app_schema a) doc \<and> scope_identifier (binding_scope b) \<in> I \<and>
      (\<exists>d. (action_element (binding_action b), action_index (binding_action b), d)
          \<in> written_actions (app_schema a) doc (binding_scope b) \<and> reads_as d (binding_action b))"
    if "registered (env_dispatcher (app_env a)) b"
    using registered_written [OF life that] unfolding scopes has .
  ultimately show ?thesis by blast
qed

theorem bindings_follow_page_witness:
  "\<exists>!b. registered (env_dispatcher (app_env changed_application)) b \<and>
     binding_scope b = \<lparr>scope_element = 3, scope_identifier = ''search''\<rparr> \<and>
     action_element (binding_action b) = 2 \<and> action_index (binding_action b) = 1"
proof -
  let ?sc = "\<lparr>scope_element = 3, scope_identifier = ''search''\<rparr>"
  let ?d = "\<lparr>d_eventTarget = None, d_eventName = Some ''click'', d_eventOptions = [], d_identifier = Some ''search'',
    d_methodName = Some ''stop''\<rparr>"
  have "?sc \<in> document_scopes defaultSchema changed_document"
    unfolding document_scopes_def by simp code_simp
  moreover have "(2, 1, ?d) \<in> written_actions defaultSchema changed_document ?sc"
    unfolding written_actions_def mem_Collect_eq prod.case by (intro conjI; code_simp)
  moreover have "scope_identifier ?sc \<in> {''search''}" by simp
  moreover have "truthy (d_eventName ?d) \<noteq> None" by code_simp
  ultimately show ?thesis
    using conjunct2 [OF bindings_follow_page [OF changed_life, of _ ?sc 2 1 ?d, unfolded changed_schema]] by blast
qed

text \<open>C4: An application whose classes were loaded before it starts, and have no method for changed
  values, makes one controller for each word of the controller attributes that names a loaded
  class, in the order of the document and of the words, once per element and identifier, and
  runs the initialize and then the connect method of each before it goes on; the class loaded
  last counts.\<close>

theorem controllers_start_in_order:
  assumes "document_wf doc" "\<forall>(ident, cls) \<in> set ds. changed_method cls = (\<lambda>_. None)"
  shows "env_user (app_env (Application_start doc
      (Application_load doc ds (Application_new (nid (root doc)) sch u)))) =
    fold (setup_scope (map_of (rev ds)) doc) (scopes_in_order sch doc) u"
  by (rule load_start_order [OF assms])

definition order_document :: document where
  "order_document = \<lparr>root = Node 0 ''HTML'' []
     [Node 1 ''DIV'' [(''data-controller'', ''list search list'')]
        [Node 2 ''DIV'' [(''data-controller'', ''search other'')] []], Node 3 ''DIV'' [(''data-controller'', ''list'')] []],
     detached = []\<rparr>"

definition order_class :: "(string \<times> nat) list controller_class" where
  "order_class = \<lparr>value_declarations = [(''count'', Number_constant)], changed_method = (\<lambda>_. None),
     initialize_method = (\<lambda>_ sc u. (u @ [(scope_identifier sc, scope_element sc)], None)),
     connect_method = (\<lambda>_ _ u. (u @ [(''connected'', 0)], None)),
     disconnect_method = (\<lambda>_ _ u. (u, None))\<rparr>"

theorem controllers_start_in_order_witness:
  "env_user (app_env (Application_start order_document (Application_load order_document
      [(''list'', order_class), (''search'', order_class)]
      (Application_new (nid (root order_document)) defaultSchema [])))) =
   [(''list'', 1), (''connected'', 0), (''search'', 1), (''connected'', 0),
    (''search'', 2), (''connected'', 0), (''list'', 3), (''connected'', 0)]"
proof -
  have "document_wf order_document" by code_simp
  moreover have "\<forall>(ident, cls) \<in> set [(''list'', order_class), (''search'', order_class)]. changed_method cls = (\<lambda>_. None)"
    by (simp add: order_class_def)
  moreover have "fold (setup_scope (map_of (rev [(''list'', order_class), (''search'', order_class)])) order_document)
      (scopes_in_order defaultSchema order_document) [] =
    [(''list'', 1), (''connected'', 0), (''search'', 1), (''connected'', 0),
     (''search'', 2), (''connected'', 0), (''list'', 3), (''connected'', 0)]"
    by code_simp
  ultimately show ?thesis by (subst controllers_start_in_order) assumption+
qed

text \<open>C2: In every state of an application the dispatcher has exactly the bindings of the connected
  contexts of the registered controllers: connecting a context registers its bindings, and
  disconnecting it or unloading its controller leaves none behind.\<close>

theorem bindings_follow_contexts:
  assumes "app_reachable a"
  shows "registered (env_dispatcher (app_env a)) b \<longleftrightarrow>
    (\<exists>m c. Map_get (modulesByIdentifier (app_router a)) (scope_identifier (binding_scope b)) = Some m \<and>
       binding_scope b \<in> set (connectedContexts m) \<and> Map_get (contextsByScope m) (binding_scope b) = Some c \<and>
       b \<in> context_bindings (binding_scope b) c)"
  by (rule registered_contexts [OF app_reachable_ok [OF assms]])

theorem bindings_follow_contexts_witness:
  "\<exists>m c. Map_get (modulesByIdentifier (app_router test_application)) ''search'' = Some m \<and>
     Map_get (contextsByScope m) (binding_scope test_binding) = Some c \<and>
     test_binding \<in> context_bindings (binding_scope test_binding) c"
proof -
  have "registered (env_dispatcher (app_env test_application)) test_binding" by code_simp
  then show ?thesis
    unfolding bindings_follow_contexts [OF test_reachable] by (auto simp: test_binding_def)
qed

text \<open>C10: Every event listener of an application is stored under its own target and under the key of
  its own event name and options, listens exactly while the dispatcher is started, and has each
  of its bindings once; they are bindings for that target whose event name and options have that
  key, and if neither names nor options have a colon or a leading exclamation mark, or the name
  __proto__, their event name and options are those of the listener.\<close>

theorem listeners_in_place:
  assumes "app_reachable a" "listener_at (env_dispatcher (app_env a)) target key = Some l"
  shows "listener_target l = target \<and> Dispatcher_cacheKey (listener_name l) (listener_options l) = key \<and>
    listener_connected l = dispatcher_started (env_dispatcher (app_env a)) \<and> distinct (unorderedBindings l) \<and>
    (\<forall>b\<in>set (unorderedBindings l). eventTarget (binding_action b) = target \<and> binding_key b = key \<and>
       (plain_key (listener_name l) (listener_options l) \<longrightarrow> plain_key (eventName (binding_action b)) (eventOptions (binding_action b)) \<longrightarrow>
          eventName (binding_action b) = listener_name l \<and> set (eventOptions (binding_action b)) = set (listener_options l)))"
proof -
  have ok: "listener_target l = target" "Dispatcher_cacheKey (listener_name l) (listener_options l) = key"
    "listener_connected l = dispatcher_started (env_dispatcher (app_env a))" "distinct (unorderedBindings l)"
    "\<forall>b\<in>set (unorderedBindings l). eventTarget (binding_action b) = target \<and> binding_key b = key"
    using app_dispatcher [OF app_reachable_ok [OF assms(1)]] assms(2)
    by (auto simp: dispatcher_ok_def listener_ok_def)
  have "eventName (binding_action b) = listener_name l \<and> set (eventOptions (binding_action b)) = set (listener_options l)"
    if "b \<in> set (unorderedBindings l)" "plain_key (listener_name l) (listener_options l)"
      "plain_key (eventName (binding_action b)) (eventOptions (binding_action b))" for b
    using that(1) ok(2,5) by (intro plain_key_inj [OF that(3,2)]) (auto simp: binding_key_def)
  with ok show ?thesis by blast
qed

theorem listeners_in_place_witness:
  "\<exists>l. listener_at (env_dispatcher (app_env test_application)) (Element_target 2) ''click'' = Some l \<and>
     listener_connected l = dispatcher_started (env_dispatcher (app_env test_application)) \<and>
     unorderedBindings l = [test_binding]"
proof -
  have "map_option unorderedBindings
      (listener_at (env_dispatcher (app_env test_application)) (Element_target 2) ''click'') = Some [test_binding]"
    by code_simp
  then obtain l where l: "listener_at (env_dispatcher (app_env test_application)) (Element_target 2) ''click'' = Some l"
    "unorderedBindings l = [test_binding]" by blast
  with listeners_in_place [OF test_reachable l(1)] show ?thesis by auto
qed

text \<open>C19: In every state of an application the reference count of a scope is the number of tokens for
  it, and the module of its identifier has it among its connected contexts exactly while the
  count is positive, so a controller that an attribute names twice is connected once.\<close>

theorem scopes_counted:
  assumes "app_reachable a"
  shows "case app_observers a of (eo, tlo, vlo, so) \<Rightarrow>
    reference_count so sc =
      card {t \<in> all_tokens tlo. token_element t = scope_element sc \<and> content t = scope_identifier sc} \<and>
    (\<forall>m. Map_get (modulesByIdentifier (app_router a)) (scope_identifier sc) = Some m \<longrightarrow>
       (sc \<in> set (connectedContexts m) \<longleftrightarrow> 0 < reference_count so sc))"
proof -
  have ok: "app_ok a" by (rule app_reachable_ok [OF assms])
  obtain eo tlo vlo so where obs: "app_observers a = (eo, tlo, vlo, so)" by (metis prod.exhaust)
  have val: "app_scopes a t = (if t \<in> all_tokens tlo then Some (token_scope t) else None)" for t
    by (rule app_scopes_value [OF ok obs])
  have eq: "token_scope t = sc \<longleftrightarrow> token_element t = scope_element sc \<and> content t = scope_identifier sc" for t
    by (cases sc) (auto simp: token_scope_def)
  have set: "{t. app_scopes a t = Some sc} =
      {t \<in> all_tokens tlo. token_element t = scope_element sc \<and> content t = scope_identifier sc}"
    by (auto simp: val eq split: if_splits)
  have loc: "scopes_local (app_scopes a) so" using ok by (simp add: app_ok_iff obs)
  then have count: "reference_count so sc = card {t. app_scopes a t = Some sc}" by (simp add: scopes_local_def)
  have fin: "finite {t. app_scopes a t = Some sc}"
    using loc by (intro finite_scope_tokens) (simp add: scopes_local_def)
  have "sc \<in> set (connectedContexts m) \<longleftrightarrow> 0 < reference_count so sc"
    if "Map_get (modulesByIdentifier (app_router a)) (scope_identifier sc) = Some m" for m
  proof -
    have "set (connectedContexts m) = scopes_with (scope_identifier sc) (ran (app_scopes a))"
      using app_router_ok [OF ok] that by (simp add: router_ok_def module_ok_def)
    then have "sc \<in> set (connectedContexts m) \<longleftrightarrow> {t. app_scopes a t = Some sc} \<noteq> {}"
      by (auto simp: scopes_with_def ran_def)
    with fin show ?thesis by (auto simp: count card_gt_0_iff)
  qed
  with count show ?thesis by (simp add: obs set)
qed

theorem scopes_counted_witness:
  "case app_observers test_application of (eo, tlo, vlo, so) \<Rightarrow>
    reference_count so \<lparr>scope_element = 1, scope_identifier = ''search''\<rparr> =
      card {t \<in> all_tokens tlo. token_element t = 1 \<and> content t = ''search''}"
  using scopes_counted [OF test_reachable, of "\<lparr>scope_element = 1, scope_identifier = ''search''\<rparr>"]
  by (auto split: prod.splits)

section \<open>Action descriptors\<close>

text \<open>C18: Action descriptors are read as documented, event@target->identifier#method:options and
  identifier#method:options, with blanks around them ignored: every part ends up in its field.\<close>

theorem descriptor_read:
  assumes "event_like event" "target_like target" "identifier_like ident" "method_like meth" "options_like opts"
    and "\<forall>c\<in>set s1. is_space c" "\<forall>c\<in>set s2. is_space c"
  shows "parseActionDescriptorString
      (s1 @ (event @ target_suffix target @ ''->'' @ ident @ ''#'' @ meth @ options_suffix opts) @ s2) =
    \<lparr>d_eventTarget = parseEventTarget target, d_eventName = Some event, d_eventOptions = options_of opts,
     d_identifier = Some ident, d_methodName = Some meth\<rparr> \<and>
    parseActionDescriptorString (s1 @ (ident @ ''#'' @ meth @ options_suffix opts) @ s2) =
    \<lparr>d_eventTarget = None, d_eventName = None, d_eventOptions = options_of opts,
     d_identifier = Some ident, d_methodName = Some meth\<rparr>"
proof -
  let ?tail = "ident @ ''#'' @ meth @ options_suffix opts"
  let ?all = "event @ target_suffix target @ ''->'' @ ?tail"
  have ns: "\<forall>c\<in>set ?tail. \<not> is_space c" "\<forall>c\<in>set ?all. \<not> is_space c"
    using parts_no_space(1) [OF assms(1)] parts_no_space(2) [OF assms(3)] parts_no_space(3) [OF assms(4)]
      parts_no_space(4) [OF assms(5)] parts_no_space(5) [OF assms(2)]
    by (auto simp: is_space_def)
  have "event \<noteq> []" "ident \<noteq> []" using assms by (auto simp: event_like_def identifier_like_def)
  then have "?tail \<noteq> []" "?all \<noteq> []" by blast+
  then have t: "trim (s1 @ ?all @ s2) = ?all" "trim (s1 @ ?tail @ s2) = ?tail"
    using trim_padded [OF _ ns(2) assms(6,7)] trim_padded [OF _ ns(1) assms(6,7)] by blast+
  have pt: "parseEventTarget None = None" by (simp add: parseEventTarget_def)
  show ?thesis
    unfolding parseActionDescriptorString_def Let_def t match_descriptor_event [OF assms(1-5)]
      match_descriptor_no_event [OF assms(3-5)] options_of_def option.case groups.simps
    by (simp only: pt)
qed

theorem descriptor_read_witness:
  "parseActionDescriptorString (''  '' @ (''resize'' @ target_suffix (Some ''window'') @ ''->'' @ ''gallery'' @ ''#'' @ ''layout''
      @ options_suffix (Some ''passive:!once'')) @ '' '') =
    \<lparr>d_eventTarget = Some Window, d_eventName = Some ''resize'', d_eventOptions = [(''passive'', True), (''once'', False)],
     d_identifier = Some ''gallery'', d_methodName = Some ''layout''\<rparr>"
proof -
  have "event_like ''resize''" "target_like (Some ''window'')" "identifier_like ''gallery''" "method_like ''layout''"
    "options_like (Some ''passive:!once'')" "\<forall>c\<in>set ''  ''. is_space c" "\<forall>c\<in>set '' ''. is_space c"
    by code_simp+
  note d = descriptor_read [OF this]
  have "parseEventTarget (Some ''window'') = Some Window"
    "options_of (Some ''passive:!once'') = [(''passive'', True), (''once'', False)]" by code_simp+
  with d show ?thesis by (simp only:)
qed

text \<open>C22: Reading back the text of an action gives the action again, but for its options, which the
  text leaves out.\<close>

theorem action_string_round_trip:
  assumes "event_like (eventName a)" "identifier_like (action_identifier a)" "method_like (methodName a)"
    and "eventTarget a \<in> {Window, Document, Element_target (action_element a)}"
  shows "Action_new doc (aid a) (action_element a) (action_index a)
      (parseActionDescriptorString (Action_toString a)) = Inr (a\<lparr>eventOptions := []\<rparr>)"
proof -
  let ?t = "stringifyEventTarget (eventTarget a)"
  have target: "target_like ?t" "case_option [] ((@) ''@'') ?t = target_suffix ?t"
    and again: "(case parseEventTarget ?t of None \<Rightarrow> Element_target (action_element a) | Some t \<Rightarrow> t) = eventTarget a"
    using assms(4) by (auto simp: stringifyEventTarget_def target_like_def target_suffix_def parseEventTarget_def)
  have str: "Action_toString a = [] @ (eventName a @ target_suffix ?t @ ''->'' @ action_identifier a @ ''#'' @
      methodName a @ options_suffix None) @ []"
    using target(2) by (simp add: Action_toString_def Let_def options_suffix_def)
  have "options_like None" "\<forall>c\<in>set []. is_space c" by (simp_all add: options_like_def)
  from descriptor_read [OF assms(1) target(1) assms(2,3) this this(2)]
  have p: "parseActionDescriptorString (Action_toString a) =
      \<lparr>d_eventTarget = parseEventTarget ?t, d_eventName = Some (eventName a), d_eventOptions = [],
       d_identifier = Some (action_identifier a), d_methodName = Some (methodName a)\<rparr>"
    unfolding str by (simp only: options_of_def option.case)
  have "eventName a \<noteq> []" "action_identifier a \<noteq> []" "methodName a \<noteq> []"
    using assms(1-3) by (auto simp: event_like_def identifier_like_def method_like_def)
  then show ?thesis
    unfolding p Action_new_def using again by (cases a) (simp add: truthy_def)
qed


theorem action_string_round_trip_witness:
  "Action_new test_document 0 2 0 (parseActionDescriptorString (Action_toString (binding_action test_binding))) =
     Inr (binding_action test_binding)"
proof -
  let ?a = "binding_action test_binding"
  have "event_like (eventName ?a)" "identifier_like (action_identifier ?a)" "method_like (methodName ?a)"
    "eventTarget ?a \<in> {Window, Document, Element_target (action_element ?a)}" by code_simp+
  from action_string_round_trip [OF this, of test_document] show ?thesis by (simp add: test_binding_def)
qed

text \<open>C23: Whatever descriptor the pattern accepts, its parts put together again are the descriptor;
  identifier and method are not empty and no colon is part of a method name.\<close>

theorem descriptor_sound:
  assumes "match_descriptor s = Some g"
  shows "s = (case g_event g of None \<Rightarrow> [] | Some ev \<Rightarrow> ev @ target_suffix (g_target g) @ ''->'') @
      g_identifier g @ ''#'' @ g_method g @ options_suffix (g_options g) \<and>
    g_identifier g \<noteq> [] \<and> g_method g \<noteq> [] \<and> CHR '':'' \<notin> set (g_method g) \<and>
    g_event g \<noteq> Some [] \<and> g_options g \<noteq> Some [] \<and> target_like (g_target g)"
  using match_descriptor_sound [OF assms] by (auto simp: groups_text_def groups_ok_def)

theorem descriptor_sound_witness:
  "\<exists>g. match_descriptor ''a@b->c->d#e#f:g:h'' = Some g \<and> g_identifier g \<noteq> [] \<and> g_method g \<noteq> [] \<and>
     g_event g = Some ''a@b'' \<and> g_identifier g = ''c->d'' \<and> g_method g = ''e#f'' \<and> g_options g = Some ''g:h''"
proof -
  let ?g = "\<lparr>g_target = None, g_event = Some ''a@b'', g_options = Some ''g:h'', g_identifier = ''c->d'', g_method = ''e#f''\<rparr>"
  have m: "match_descriptor ''a@b->c->d#e#f:g:h'' = Some ?g" by code_simp
  from descriptor_sound [OF m] m show ?thesis by (intro exI [of _ ?g]) simp
qed

text \<open>A token makes an action exactly when its descriptor matches and there is an event name, its
  own or the default one of the element; otherwise the error says which part is missing, the
  event name first.\<close>

lemma action_for_token:
  "Action_forToken doc t =
     (let default = getDefaultEventNameForElement doc (token_element t)
      in case match_descriptor (trim (content t)) of
           None \<Rightarrow> Inl (if default = None then ''missing event name'' else ''missing identifier'')
         | Some g \<Rightarrow>
             (case or_else (g_event g) default of
                None \<Rightarrow> Inl ''missing event name''
              | Some name \<Rightarrow>
                  Inr \<lparr>aid = tid t, action_element = token_element t, action_index = index t,
                       eventTarget = (case parseEventTarget (g_target g) of
                          None \<Rightarrow> Element_target (token_element t) | Some target \<Rightarrow> target),
                       eventName = name, eventOptions = options_of (g_options g),
                       action_identifier = g_identifier g, methodName = g_method g\<rparr>))"
proof (cases "match_descriptor (trim (content t))")
  case None
  then have "parseActionDescriptorString (content t) =
      \<lparr>d_eventTarget = None, d_eventName = None, d_eventOptions = [], d_identifier = None, d_methodName = None\<rparr>"
    by (simp add: parseActionDescriptorString_def)
  then show ?thesis
    by (simp add: None Action_forToken_def Action_new_def truthy_def Let_def split: option.split)
next
  case (Some g)
  have "g_identifier g \<noteq> []" "g_method g \<noteq> []" "g_event g \<noteq> Some []"
    using match_descriptor_sound [OF Some] by (auto simp: groups_ok_def)
  moreover have "parseActionDescriptorString (content t) =
      \<lparr>d_eventTarget = parseEventTarget (g_target g), d_eventName = g_event g, d_eventOptions = options_of (g_options g),
       d_identifier = Some (g_identifier g), d_methodName = Some (g_method g)\<rparr>"
    by (simp add: parseActionDescriptorString_def Some options_of_def)
  ultimately show ?thesis
    by (simp add: Some Action_forToken_def Action_new_def truthy_def Let_def split: option.split)
qed

text \<open>C21: For event names without a colon and options whose names have neither a colon nor a leading
  exclamation mark, the key under which listeners are shared determines the event name and the
  options, in whatever order the options were given.\<close>

theorem cache_key_injective:
  assumes "CHR '':'' \<notin> set name" "CHR '':'' \<notin> set name'"
    and "Map_wf opts" "Map_wf opts'" "\<forall>p\<in>set opts \<union> set opts'. option_name (fst p)"
    and "Dispatcher_cacheKey name opts = Dispatcher_cacheKey name' opts'"
  shows "name = name' \<and> set opts = set opts'"
  by (rule cacheKey_inj [OF assms])

theorem cache_key_injective_witness:
  "Dispatcher_cacheKey ''click'' [(''once'', True), (''passive'', False)] =
     Dispatcher_cacheKey ''click'' [(''passive'', False), (''once'', True)] \<and>
   set [(''once'', True), (''passive'', False)] = set [(''passive'', False), (''once'', True)]"
proof -
  let ?o = "[(''once'', True), (''passive'', False)]" and ?o' = "[(''passive'', False), (''once'', True)]"
  have "CHR '':'' \<notin> set ''click''" "CHR '':'' \<notin> set ''click''" "Map_wf ?o" "Map_wf ?o'"
    "\<forall>p\<in>set ?o \<union> set ?o'. option_name (fst p)"
    and e: "Dispatcher_cacheKey ''click'' ?o = Dispatcher_cacheKey ''click'' ?o'" by code_simp+
  from cache_key_injective [OF this] e show ?thesis by blast
qed

section \<open>Handling events\<close>

text \<open>
  Which bindings an event concerns. An element is inside a scope when the scope's element is the nearest
  one around it that names the identifier of the scope.
\<close>

definition names_controller :: "schema \<Rightarrow> scope \<Rightarrow> node \<Rightarrow> bool" where
  "names_controller sch sc n \<longleftrightarrow>
     (case node_attribute n (controllerAttribute sch) of None \<Rightarrow> False | Some v \<Rightarrow> scope_identifier sc \<in> set (css_words v))"

definition inside_scope :: "schema \<Rightarrow> document \<Rightarrow> scope \<Rightarrow> nat \<Rightarrow> bool" where
  "inside_scope sch doc sc e \<longleftrightarrow> (\<exists>below n above. inclusive_ancestors doc e = below @ n # above \<and> nid n = scope_element sc \<and>
     names_controller sch sc n \<and> (\<forall>x\<in>set below. \<not> names_controller sch sc x))"

text \<open>
  The target is the element of the controller, or the binding's place is inside the scope: that is the
  target where it is in the element of the controller, and else the element of the action.
\<close>

definition concerns :: "schema \<Rightarrow> document \<Rightarrow> binding \<Rightarrow> event_target \<Rightarrow> bool" where
  "concerns sch doc b target \<longleftrightarrow>
     (let c = scope_element (binding_scope b); own = action_element (binding_action b);
          place = (case target of Element_target e \<Rightarrow> if contains doc c e then e else own | _ \<Rightarrow> own)
      in target = Element_target c \<or> inside_scope sch doc (binding_scope b) place)"

lemma find_append_first: "\<forall>x\<in>set below. \<not> P x \<Longrightarrow> P n \<Longrightarrow> List.find P (below @ n # rest) = Some n"
  by (induction below) simp_all

lemma find_split:
  "List.find P xs = Some n \<Longrightarrow> \<exists>below above. xs = below @ n # above \<and> P n \<and> (\<forall>x\<in>set below. \<not> P x)"
proof (induction xs)
  case (Cons x xs)
  show ?case
  proof (cases "P x")
    case True
    with Cons.prems show ?thesis by (intro exI [of _ "[]"] exI [of _ xs]) simp
  next
    case False
    with Cons obtain below above where "xs = below @ n # above" "P n" "\<forall>x\<in>set below. \<not> P x" by auto
    with False show ?thesis by (intro exI [of _ "x # below"] exI [of _ above]) simp
  qed
qed simp

lemma inside_scope_iff: "Scope_containsElement sch doc sc e \<longleftrightarrow> inside_scope sch doc sc e"
proof -
  have m: "node_matches (Scope_controllerSelector sch sc) = names_controller sch sc"
    by (intro ext, rename_tac n, case_tac "node_attribute n (controllerAttribute sch)")
      (simp_all add: names_controller_def Scope_controllerSelector_def attributeValueContainsToken_def)
  show ?thesis
  proof
    assume "Scope_containsElement sch doc sc e"
    then obtain n where "List.find (names_controller sch sc) (inclusive_ancestors doc e) = Some n" "nid n = scope_element sc"
      unfolding Scope_containsElement_def closest_def m by auto
    with find_split [OF this(1)] show "inside_scope sch doc sc e" unfolding inside_scope_def by auto
  next
    assume "inside_scope sch doc sc e"
    then obtain below n above where s: "inclusive_ancestors doc e = below @ n # above" "nid n = scope_element sc"
      "names_controller sch sc n" "\<forall>x\<in>set below. \<not> names_controller sch sc x"
      unfolding inside_scope_def by auto
    show "Scope_containsElement sch doc sc e"
      unfolding Scope_containsElement_def closest_def m s(1) using find_append_first [OF s(4,3)] s(2) by simp
  qed
qed

lemma concerns_iff: "Binding_willBeInvokedByEvent sch doc b ev \<longleftrightarrow> concerns sch doc b (ev_target ev)"
  by (auto simp: Binding_willBeInvokedByEvent_def concerns_def Let_def inside_scope_iff split: event_target.split)

text \<open>C12: A listener goes through all its bindings, each once, in the order of their action indices,
  those of the same index in the order in which they were registered. A binding is invoked
  exactly if no method before it has stopped the immediate propagation and the event concerns
  the binding on the page as the methods before it have left it: the event's target is the
  element of the controller or inside its scope, or, for a target outside the element, the
  element of the action is inside the scope. Nothing else happens.\<close>

theorem events_in_order:
  fixes h :: "'u handling" and methods :: "'u controller_methods"
  defines "place \<equiv> \<lambda>b. action_index (binding_action b)"
  shows "\<exists>bs hs. mset bs = mset (unorderedBindings l) \<and> sorted (map place bs) \<and>
    (\<forall>i. filter (\<lambda>b. place b = i) bs = filter (\<lambda>b. place b = i) (unorderedBindings l)) \<and>
    length hs = Suc (length bs) \<and> hs ! 0 = h\<lparr>current_event := extendEvent (current_event h)\<rparr> \<and>
    hs ! length bs = EventListener_handleEvent methods sch doc_of l h \<and>
    (\<forall>i<length bs. hs ! Suc i =
       (if stopped (hs ! i) \<or> \<not> concerns sch (doc_of (user (hs ! i))) (bs ! i) (ev_target (current_event h)) then hs ! i
        else Binding_invokeWithEvent methods (bs ! i) (hs ! i)))"
proof -
  let ?bs = "EventListener_bindings l" and ?h = "h\<lparr>current_event := extendEvent (current_event h)\<rparr>"
  let ?run = "\<lambda>i. fold (handling_step methods sch doc_of) (take i ?bs) ?h"
  let ?hs = "map ?run [0..<Suc (length ?bs)]"
  have t: "ev_target (current_event (?run i)) = ev_target (current_event h)" for i
    by (simp add: extendEvent_def split: option.split)
  have step: "?run (Suc i) = (if stopped (?run i) \<or> \<not> concerns sch (doc_of (user (?run i))) (?bs ! i) (ev_target (current_event h))
      then ?run i else Binding_invokeWithEvent methods (?bs ! i) (?run i))" if "i < length ?bs" for i
    using that t by (simp add: take_Suc_conv_app_nth handling_step_def Binding_handleEvent_def concerns_iff)
  have sort: "?bs = sort_key place (unorderedBindings l)" by (simp add: EventListener_bindings_def place_def)
  have "hs ! Suc i =
      (if stopped (hs ! i) \<or> \<not> concerns sch (doc_of (user (hs ! i))) (?bs ! i) (ev_target (current_event h)) then hs ! i
       else Binding_invokeWithEvent methods (?bs ! i) (hs ! i))" if "i < length ?bs" "hs = ?hs" for i hs
  proof -
    have "?hs ! Suc i = ?run (Suc i)" "?hs ! i = ?run i" using that(1) by (simp_all del: upt_Suc add: nth_map)
    then show ?thesis unfolding that(2) using step [OF that(1)] by (simp only:)
  qed
  moreover have "?hs ! length ?bs = EventListener_handleEvent methods sch doc_of l h"
    by (simp add: EventListener_handleEvent_def handle_bindings_steps del: upt_Suc)
  moreover have "?hs ! 0 = ?h" by (simp del: upt_Suc)
  moreover have "mset ?bs = mset (unorderedBindings l)" "sorted (map place ?bs)"
    "filter (\<lambda>b. place b = i) ?bs = filter (\<lambda>b. place b = i) (unorderedBindings l)" for i
    unfolding sort by (simp_all add: sort_key_stable)
  ultimately show ?thesis by (intro exI [of _ ?bs] exI [of _ ?hs]) auto
qed

text \<open>A listener with two bindings, the first of which stops the propagation of the event.\<close>

definition test_listener :: event_listener where
  "test_listener = (EventListener_new (Element_target 2) ''click'' [])\<lparr>unorderedBindings :=
     [test_binding\<lparr>binding_action := (binding_action test_binding)\<lparr>aid := 1, action_index := 1\<rparr>\<rparr>, test_binding]\<rparr>"

text \<open>
  Here the state of the user is the page with the names of the methods that ran. The method that runs
  first takes the word away that makes the element a controller's.
\<close>

definition test_methods :: "(document \<times> string list) controller_methods" where
  "test_methods ident name = Some (\<lambda>sc ev (doc, ran).
     ((setAttribute (scope_element sc) ''data-controller'' [] doc, ran @ [name]), False, None))"

definition test_handling :: "(document \<times> string list) handling" where
  "test_handling = \<lparr>user = (test_document, []), current_event = \<lparr>ev_target = Element_target 2, ev_stopped = None\<rparr>, error_log = []\<rparr>"

theorem events_in_order_witness:
  "snd (user (EventListener_handleEvent test_methods defaultSchema fst test_listener test_handling)) = [''go''] \<and>
   (\<exists>bs hs. mset bs = mset (unorderedBindings test_listener) \<and> length hs = 3 \<and>
     hs ! 2 = EventListener_handleEvent test_methods defaultSchema fst test_listener test_handling)"
proof -
  have r: "snd (user (EventListener_handleEvent test_methods defaultSchema fst test_listener test_handling)) = [''go'']"
    by code_simp
  obtain bs hs where b: "mset bs = mset (unorderedBindings test_listener)" "length hs = Suc (length bs)"
    "hs ! length bs = EventListener_handleEvent test_methods defaultSchema fst test_listener test_handling"
    using events_in_order [of test_listener test_handling test_methods defaultSchema fst] by blast
  have "length bs = 2" using arg_cong [OF b(1), of size] by (simp add: test_listener_def)
  with b r show ?thesis by (intro conjI exI [of _ bs] exI [of _ hs]) (simp_all add: numeral_2_eq_2)
qed

text \<open>An event name with a colon can have the key of another name with an option.\<close>

lemma cache_key_collision:
  "Dispatcher_cacheKey ''click:once'' [] = Dispatcher_cacheKey ''click'' [(''once'', True)]"
  by code_simp

section \<open>Tokens and elements\<close>

text \<open>C11: When the value of an observed attribute changes, the tokens before the first difference
  stay, all old tokens from there on are reported as unmatched and then all new ones as matched;
  afterwards the observer has the tokens of the new value, and those of the other elements are
  untouched.\<close>

theorem changed_tokens:
  assumes "tokens_ok a E s" "e \<in> E"
  shows "\<exists>ps us cs s' d'. TokenListObserver_elementAttributeValueChanged a tdel doc e (s, d) = (s', d') \<and>
    tokens_of s e = ps @ us \<and> tokens_of s' e = ps @ cs \<and> map content (ps @ cs) = attribute_words a doc e \<and>
    d' = fold (tokenMatched tdel doc) cs (fold (tokenUnmatched tdel doc) us d) \<and>
    (us = [] \<or> cs = [] \<or> content (hd us) \<noteq> content (hd cs)) \<and>
    tokens_ok a E s' \<and> (\<forall>e'. e' = e \<or> tokens_of s' e' = tokens_of s e')"
proof -
  obtain s' d' where r: "TokenListObserver_elementAttributeValueChanged a tdel doc e (s, d) = (s', d')"
    by (cases "TokenListObserver_elementAttributeValueChanged a tdel doc e (s, d)")
  obtain ps us cs where "replaces tdel doc a E e ps us cs (s, d) (s', d')"
    "map content (ps @ cs) = attribute_words a doc e" "us = [] \<or> cs = [] \<or> content (hd us) \<noteq> content (hd cs)"
    using attributeChanged_replaces [of a E "(s, d)" e tdel doc] assms r by auto
  then show ?thesis
    using r by (intro exI [of _ ps] exI [of _ us] exI [of _ cs] exI [of _ s'] exI [of _ d']) (auto simp: replaces_def)
qed

text \<open>An observer that counts what it hears.\<close>

definition test_tokens :: "(string \<times> string) list token_delegate" where
  "test_tokens = \<lparr>tokenMatched = (\<lambda>doc t log. log @ [(''matched'', content t)]),
     tokenUnmatched = (\<lambda>doc t log. log @ [(''unmatched'', content t)])\<rparr>"

definition words_document :: "string \<Rightarrow> document" where
  "words_document v = \<lparr>root = Node 0 ''HTML'' [(''data-action'', v)] [], detached = []\<rparr>"

theorem changed_tokens_witness:
  "let (s, log) = TokenListObserver_elementMatchedAttribute ''data-action'' test_tokens (words_document ''a b c'') 0
         (TokenListObserver_new, []);
       (s', log') = TokenListObserver_elementAttributeValueChanged ''data-action'' test_tokens (words_document ''a c d'') 0
         (s, log)
   in log = [(''matched'', ''a''), (''matched'', ''b''), (''matched'', ''c'')] \<and>
      log' = log @ [(''unmatched'', ''b''), (''unmatched'', ''c''), (''matched'', ''c''), (''matched'', ''d'')] \<and>
      tokens_ok ''data-action'' {0} s'"
proof -
  define sd where "sd = TokenListObserver_elementMatchedAttribute ''data-action'' test_tokens (words_document ''a b c'') 0
         (TokenListObserver_new, [])"
  obtain s log where s: "sd = (s, log)" by (cases sd)
  obtain s' log' where s': "TokenListObserver_elementAttributeValueChanged ''data-action'' test_tokens
      (words_document ''a c d'') 0 (s, log) = (s', log')"
    by (cases "TokenListObserver_elementAttributeValueChanged ''data-action'' test_tokens (words_document ''a c d'') 0 (s, log)")
  have "tokens_ok ''data-action'' {0} s"
    using elementMatched_replaces [of "''data-action''" "{}" "(TokenListObserver_new, [])" 0 test_tokens "words_document ''a b c''"]
      tokens_ok_new s by (auto simp: replaces_def sd_def)
  from changed_tokens [OF this, of 0 test_tokens "words_document ''a c d''" log] s'
  have ok: "tokens_ok ''data-action'' {0} s'" by auto
  have "snd sd = [(''matched'', ''a''), (''matched'', ''b''), (''matched'', ''c'')]" unfolding sd_def by code_simp
  moreover have "snd (TokenListObserver_elementAttributeValueChanged ''data-action'' test_tokens (words_document ''a c d'') 0 sd) =
      [(''matched'', ''a''), (''matched'', ''b''), (''matched'', ''c''), (''unmatched'', ''b''), (''unmatched'', ''c''),
       (''matched'', ''c''), (''matched'', ''d'')]" unfolding sd_def by code_simp
  ultimately show ?thesis using ok s s' by (simp add: sd_def [symmetric])
qed

text \<open>The tokens of an attribute are the words of its value.\<close>

lemma token_words:
  "map content (parseTokenString n s e a) = words s \<and> map index (parseTokenString n s e a) = [0..<length (words s)] \<and>
   concat (words s) = filter (\<lambda>c. \<not> is_space c) s \<and> [] \<notin> set (words s) \<and> list_all (list_all (\<lambda>c. \<not> is_space c)) (words s)"
  using words_well_formed [of _ s] by (auto simp: parseTokenString_props concat_words list_all_iff)

text \<open>Words joined by a blank are read back as the tokens of an attribute in their order.\<close>

lemma words_read_back:
  assumes "list_all (\<lambda>w. w \<noteq> [] \<and> list_all (\<lambda>c. \<not> is_space c) w) ws" "is_space d"
  shows "map content (parseTokenString n (join_with d ws) e a) = ws"
  using words_join [OF _ assms(2), of ws] assms(1) by (simp add: parseTokenString_props list_all_iff)

text \<open>C24: Refreshing an element observer reports the elements that no longer match as unmatched, then
  the active ones that newly match as matched, each once, and says nothing about the elements
  that match before and after, whatever happened to their attributes.\<close>

theorem refresh_reports:
  fixes s :: element_observer and del :: "'d element_delegate"
  assumes "started s" "distinct (elements s)"
  shows "\<exists>kept gone fresh. ElementObserver_refresh del doc (s, d) =
      (s\<lparr>elements := kept @ fresh\<rparr>,
       fold (call_back (elementMatched del) doc) fresh (fold (call_back (elementUnmatched del) doc) gone d)) \<and>
    kept = filter (\<lambda>e. e \<in> set (matchElementsInTree del doc (element s))) (elements s) \<and>
    gone = filter (\<lambda>e. e \<notin> set (matchElementsInTree del doc (element s))) (elements s) \<and>
    fresh = filter (\<lambda>e. e \<notin> set (elements s) \<and> ElementObserver_elementIsActive doc s e)
      (Set_of_array (matchElementsInTree del doc (element s)))"
  using refresh_eq [OF assms, of del doc d] by simp

theorem refresh_reports_witness:
  "ElementObserver_refresh (AttributeObserver_new ''data-action''
       \<lparr>elementMatchedAttribute = Some (\<lambda>doc e a log. log @ [(True, e)]),
        elementUnmatchedAttribute = Some (\<lambda>doc e a log. log @ [(False, e)]), elementAttributeValueChanged = None\<rparr>)
     test_document (\<lparr>element = 0, started = True, elements = [1], mutationObserver = Some []\<rparr>, []) =
   (\<lparr>element = 0, started = True, elements = [2], mutationObserver = Some []\<rparr>, [(False, 1), (True, 2)])"
proof -
  let ?s = "\<lparr>element = 0, started = True, elements = [1], mutationObserver = Some []\<rparr>"
  let ?del = "AttributeObserver_new ''data-action''
       \<lparr>elementMatchedAttribute = Some (\<lambda>doc e a log. log @ [(True, e)]),
        elementUnmatchedAttribute = Some (\<lambda>doc e a log. log @ [(False, e)]), elementAttributeValueChanged = None\<rparr>"
  have s: "started ?s" "distinct (elements ?s)" by simp_all
  have "matchElementsInTree ?del test_document (element ?s) = [2]" by code_simp
  moreover have "ElementObserver_elementIsActive test_document ?s 2" by code_simp
  ultimately show ?thesis
    using refresh_reports [OF s, of ?del test_document "[]"]
    by (auto simp: call_back_def AttributeObserver_new_def AttributeObserver_elementMatched_def
        AttributeObserver_elementUnmatched_def Set_of_array_def Set_add_def)
qed

section \<open>Targets, data attributes and values\<close>

text \<open>The search for one target gives the first element of the search for all of them, and asking
  whether there is a target agrees with both, whatever has been warned about before.\<close>

lemma target_found_first:
  "snd (TargetSet_find sch doc sc names g) = head_option (snd (TargetSet_findAll sch doc sc names g')) \<and>
   snd (TargetSet_has sch doc sc name g) = (snd (TargetSet_findAll sch doc sc [name] g') \<noteq> [])"
proof -
  have has: "snd (TargetSet_has sch doc sc name g) = (snd (TargetSet_find sch doc sc [name] g) \<noteq> None)"
    by (simp only: TargetSet_has_def split_beta Let_def snd_conv)
  have first: "snd (TargetSet_find sch doc sc ns g) = head_option (snd (TargetSet_findAll sch doc sc ns g'))" for ns
    by (simp only: TargetSet_find_def TargetSet_findAll_def find_from_snd find_all_from_snd append_Nil)
  show ?thesis unfolding has first by (simp add: head_option_def split: list.split)
qed

text \<open>Queries about targets, one after the other, on one guide.\<close>

datatype target_query = Find "string list" | Find_all "string list" | Has string

fun run_query :: "schema \<Rightarrow> document \<Rightarrow> scope \<Rightarrow> target_query \<Rightarrow> guide \<Rightarrow> guide" where
  "run_query sch doc sc (Find names) g = fst (TargetSet_find sch doc sc names g)"
| "run_query sch doc sc (Find_all names) g = fst (TargetSet_findAll sch doc sc names g)"
| "run_query sch doc sc (Has name) g = fst (TargetSet_has sch doc sc name g)"

lemma run_query_ok: "guide_ok g \<Longrightarrow> guide_ok (run_query sch doc sc q g)"
proof (cases q)
  case (Has name)
  assume "guide_ok g"
  then show ?thesis
    by (simp only: Has run_query.simps TargetSet_has_def TargetSet_find_def split_beta Let_def fst_conv find_from_ok)
qed (simp_all only: run_query.simps TargetSet_find_def TargetSet_findAll_def find_from_ok find_all_from_ok)

text \<open>Whatever sequence of target queries a scope is asked, the deprecation of an element and key
  is logged at most once.\<close>

lemma deprecations_once:
  "distinct (map (\<lambda>(e, key, message). (e, key)) (warnings (fold (run_query sch doc sc) qs Guide_new)))"
proof -
  have "guide_ok (fold (run_query sch doc sc) qs g)" if "guide_ok g" for g
    using that by (induction qs arbitrary: g) (simp_all add: run_query_ok)
  from this [OF guide_ok_new] show ?thesis unfolding guide_ok_def by blast
qed

lemma attribute_name_eq:
  "asciiLower (DataMap_getAttributeNameForKey sc k) = asciiLower (DataMap_getAttributeNameForKey sc k') \<longleftrightarrow>
     dasherize k = dasherize k'"
proof -
  have "asciiLower (dasherize k) = dasherize k" for k using asciiLower_dasherize by simp
  then show ?thesis
    unfolding DataMap_getAttributeNameForKey_def asciiLower_append append_same_eq same_append_eq by (simp only:)
qed

text \<open>C27: What is set under a key of the data map is read back under every key with the same
  attribute name, reading any other key is not affected, and deleting says whether there was a
  value and removes it.\<close>

theorem data_round_trip:
  assumes "document_wf doc" "get_node doc (scope_element sc) \<noteq> None"
  shows "snd (DataMap_set sc key v doc) = Some v \<and>
    DataMap_get (fst (DataMap_set sc key v doc)) sc key' =
      (if dasherize key' = dasherize key then Some v else DataMap_get doc sc key') \<and>
    snd (DataMap_delete sc key doc) = DataMap_has doc sc key \<and>
    DataMap_get (fst (DataMap_delete sc key doc)) sc key' =
      (if dasherize key' = dasherize key then None else DataMap_get doc sc key')"
proof -
  let ?n = "DataMap_getAttributeNameForKey sc key" and ?n' = "DataMap_getAttributeNameForKey sc key'"
  have set: "DataMap_get (fst (DataMap_set sc key v doc)) sc k =
      (if dasherize k = dasherize key then Some v else DataMap_get doc sc k)" for k
    unfolding DataMap_get_def DataMap_set_def Let_def fst_conv getAttribute_setAttribute [OF assms]
    using attribute_name_eq [of sc k key] by simp
  have "snd (DataMap_set sc key v doc) = DataMap_get (fst (DataMap_set sc key v doc)) sc key"
    by (simp add: DataMap_set_def Let_def)
  moreover have "snd (DataMap_delete sc key doc) = DataMap_has doc sc key" by (simp add: DataMap_delete_def Let_def)
  moreover have "DataMap_get (fst (DataMap_delete sc key doc)) sc key' =
      (if dasherize key' = dasherize key then None else DataMap_get doc sc key')"
  proof (cases "DataMap_has doc sc key")
    case True
    then have "fst (DataMap_delete sc key doc) = removeAttribute (scope_element sc) ?n doc"
      by (simp add: DataMap_delete_def Let_def)
    then show ?thesis
      unfolding DataMap_get_def Let_def using getAttribute_removeAttribute [OF assms(1)] attribute_name_eq [of sc key' key]
      by simp
  next
    case False
    then have "DataMap_get doc sc key' = None" if "dasherize key' = dasherize key"
      using that by (simp add: DataMap_has_def DataMap_get_def hasAttribute_def DataMap_getAttributeNameForKey_def)
    with False show ?thesis by (simp add: DataMap_delete_def)
  qed
  ultimately show ?thesis using set by simp
qed

theorem data_round_trip_witness:
  "DataMap_get (fst (DataMap_set \<lparr>scope_element = 1, scope_identifier = ''search''\<rparr> ''maxCount'' ''5'' test_document))
     \<lparr>scope_element = 1, scope_identifier = ''search''\<rparr> ''max-count'' = Some ''5''"
proof -
  let ?sc = "\<lparr>scope_element = 1, scope_identifier = ''search''\<rparr>"
  have n: "get_node test_document (scope_element ?sc) \<noteq> None" by code_simp
  have k: "dasherize ''max-count'' = dasherize ''maxCount''" by code_simp
  from data_round_trip [OF test_document_wf n, of "''maxCount''" "''5''" "''max-count''"] k show ?thesis
    by (simp only: if_True simp_thms)
qed

text \<open>An observer of one attribute.\<close>

definition test_values :: "string list string_map_delegate" where
  "test_values = \<lparr>getStringMapKeyForAttribute = (\<lambda>n. if n = ''data-action'' then Some ''action'' else None),
     stringMapKeyAdded = Some (\<lambda>key n log. log @ [''added '' @ key]),
     stringMapValueChanged = Some (\<lambda>v key log. log @ [''changed '' @ key]),
     stringMapKeyRemoved = Some (\<lambda>key n log. log @ [''removed '' @ key])\<rparr>"

definition test_observer :: string_map_observer where
  "test_observer = \<lparr>sm_element = 2, sm_started = True, stringMap = []\<rparr>"

text \<open>C26: Refreshing the started observer of an element's data attributes makes its map agree with
  the attributes of the element for every tracked name in lower case, and keeps the invariant
  that it has tracked names only. A tracked name with a capital letter, which getAttribute
  lowers but attributeNames never lists, agrees only if it is among the names of the attributes
  or was in the map before, and is missing otherwise.\<close>

theorem value_map_follows:
  fixes del :: "'d string_map_delegate" and doc :: document and sd :: "string_map_observer \<times> 'd"
  assumes "string_map_ok del (fst sd)" "sm_started (fst sd)"
  defines "own \<equiv> sm_element (fst sd)" and "after \<equiv> fst (StringMapObserver_refresh del doc sd)"
  shows "Map_get (stringMap after) name =
      (if getStringMapKeyForAttribute del name \<noteq> None \<and>
          (name \<in> set (attributeNames doc own) \<or> Map_get (stringMap (fst sd)) name \<noteq> None)
       then getAttribute doc own name else None) \<and>
    (asciiLower name = name \<longrightarrow> Map_get (stringMap after) name =
      (if getStringMapKeyForAttribute del name \<noteq> None then getAttribute doc own name else None)) \<and>
    string_map_ok del after"
proof (intro conjI impI)
  show "Map_get (stringMap after) name =
      (if getStringMapKeyForAttribute del name \<noteq> None \<and>
          (name \<in> set (attributeNames doc own) \<or> Map_get (stringMap (fst sd)) name \<noteq> None)
       then getAttribute doc own name else None)"
    unfolding after_def own_def refresh_every [OF assms(1,2)] tracked_def by (simp split: option.split)
  show "Map_get (stringMap after) name =
      (if getStringMapKeyForAttribute del name \<noteq> None then getAttribute doc own name else None)"
    if "asciiLower name = name"
    unfolding after_def own_def refresh_follows [OF assms(1,2) that] tracked_def by (simp split: option.split)
  show "string_map_ok del after"
    unfolding after_def StringMapObserver_refresh_def using fold_refreshAttribute_props [OF assms(1), of doc] assms(2) by simp
qed

theorem value_map_follows_witness:
  "Map_get (stringMap (fst (StringMapObserver_refresh test_values test_document (test_observer, [])))) ''data-action'' =
     Some ''search#go''"
proof -
  have ok: "string_map_ok test_values (fst (test_observer, []))"
    by (simp add: string_map_ok_def test_observer_def)
  have st: "sm_started (fst (test_observer, []))" "asciiLower ''data-action'' = ''data-action''" by code_simp+
  have v: "getStringMapKeyForAttribute test_values ''data-action'' \<noteq> None"
    "getAttribute test_document (sm_element (fst (test_observer, []))) ''data-action'' = Some ''search#go''" by code_simp+
  note m = value_map_follows [OF ok st(1), of test_document "''data-action''"]
  from mp [OF conjunct1 [OF conjunct2 [OF m]] st(2)] v show ?thesis by (simp only: simp_thms if_True)
qed


text \<open>C25: A multimap is a relation: after any sequence of additions and deletions, membership, the
  values of a key, the keys and the size are those of the relation that the same operations
  build.\<close>

theorem multimap_is_relation:
  "Multimap_has (Multimap_run ops) k v = ((k, v) \<in> fold rel_step ops {}) \<and>
   set (Multimap_getValuesForKey (Multimap_run ops) k) = {v. (k, v) \<in> fold rel_step ops {}} \<and>
   Multimap_hasKey (Multimap_run ops) k = (\<exists>v. (k, v) \<in> fold rel_step ops {}) \<and>
   Multimap_size (Multimap_run ops) = card (fold rel_step ops {})"
  by (simp add: mm.multimap_simps Multimap_run_props Multimap_size_card)

lemma dasherize_no_upper: "\<forall>c\<in>set s. \<not> is_upper_char c \<Longrightarrow> dasherize s = s"
  by (induction s) auto

lemma no_upper_dasherize: "\<forall>c\<in>set (dasherize s). \<not> is_upper_char c"
proof (induction s)
  case (Cons c s)
  have "\<not> is_upper_char (toLowerCase c)"
    using is_lower_toLowerCase [of c] by (cases "is_upper_char c") (auto simp: char_class_defs toLowerCase_def)
  moreover have "\<not> is_upper_char (CHR ''-'')" by code_simp
  ultimately show ?case using Cons by auto
qed simp

text \<open>A value declared without separators in its name is read from the property of that name with
  Value appended and from the data attribute of the dashed name, whatever its type.\<close>

lemma value_names:
  assumes "list_all (\<lambda>c. \<not> is_separator c) token"
  shows "v_name (valueDescriptorForTokenAndType token t) = token @ ''Value'' \<and>
    v_type (valueDescriptorForTokenAndType token t) = t \<and>
    DataMap_getAttributeNameForKey sc (v_key (valueDescriptorForTokenAndType token t)) =
      ''data-'' @ scope_identifier sc @ ''-'' @ dasherize token @ ''-value''"
proof -
  have "\<forall>c\<in>set ''-value''. \<not> is_upper_char c" by code_simp
  then have "dasherize (dasherize token @ ''-value'') = dasherize token @ ''-value''"
    using no_upper_dasherize [of token] by (intro dasherize_no_upper) auto
  moreover have "v_name (valueDescriptorForTokenAndType token t) = token @ ''Value''"
    using assms by (intro value_name) (simp add: list_all_iff)
  moreover have "v_key (valueDescriptorForTokenAndType token t) = dasherize token @ ''-value''"
    "v_type (valueDescriptorForTokenAndType token t) = t"
    by (simp_all only: valueDescriptorForTokenAndType_def Let_def value_descriptor.simps)
  ultimately show ?thesis by (simp only: DataMap_getAttributeNameForKey_def simp_thms)
qed

section \<open>Starting\<close>

text \<open>C17: Started through the helpers that compile it to a state machine, an application does nothing
  until the document is ready; then, whatever has been loaded or has happened to the page in
  between, its dispatcher and its router are started on the page as it is then, and the promise
  is resolved. An error while waiting would leave the application alone and reject the promise.\<close>

theorem start_awaits_document:
  "Application_prototype_start (doc, a) = Some (Awaiting Dom_ready (generator_new\<lparr>gen_label := 1\<rparr>), (doc, a)) \<and>
   start_awaited (Inr v) (Awaiting Dom_ready (generator_new\<lparr>gen_label := 1\<rparr>)) (doc', a') =
     Some (Resolved_with Undefined_value, (doc', Application_start doc' a')) \<and>
   start_awaited (Inl e) (Awaiting Dom_ready (generator_new\<lparr>gen_label := 1\<rparr>)) (doc', a') =
     Some (Failed_with e, (doc', a'))"
  by (simp add: start_defs gen_step.simps [of _ _ start_body])

end
