(* ===== verification/Class_Properties.thy ===== *)
theory Class_Properties
  imports Blessed_Class Stimulus_Properties
begin

text \<open>
  The properties of values and of declared properties: what is written is read back, what is read
  has its type, and a blessed class has the properties its class and their ancestors declare.
\<close>

section \<open>Values\<close>

text \<open>C34: A value that has been set is read back: Booleans, numbers and strings as they are, arrays
  and objects as JSON keeps them; setting undefined removes it, and its default is read.\<close>

theorem value_round_trip:
  assumes "document_wf doc" "get_node doc (scope_element sc) \<noteq> None" "has_type v (v_type vd)" "proper v"
  shows "get_value (set_value sc vd (JV v) doc) sc vd = Reads (kept_as v) \<and>
    has_value (set_value sc vd (JV v) doc) sc vd \<and>
    get_value (set_value sc vd Undefined doc) sc vd = Reads (defaultValue vd) \<and>
    \<not> has_value (set_value sc vd Undefined doc) sc vd"
proof -
  have has: "has_value doc' sc vd \<longleftrightarrow> DataMap_get doc' sc (v_key vd) \<noteq> None" for doc'
    by (simp add: has_value_def DataMap_has_def DataMap_get_def hasAttribute_def)
  show ?thesis
    using get_set_value [OF assms(1,2), of vd] read_written [OF assms(3,4)] by (simp add: get_value_def has)
qed

text \<open>C33: Whatever the data attribute holds, reading a value has one of three outcomes: a value of
  the declared type with exact numbers; an exception, only for arrays and objects with an
  attribute: a SyntaxError, or a TypeError for a text that is JSON of another kind; or, only for
  arrays, numbers and objects with an attribute, a value of the declared type that holds a
  number which is no exact integer, as NaN or a fraction, or a character above 255, and which
  the model determines no further than its type.\<close>

theorem value_typed:
  "case get_value doc sc vd of
     Reads v \<Rightarrow> has_type v (v_type vd) \<and> proper v
   | Throws e \<Rightarrow> has_value doc sc vd \<and>
       (v_type vd = Array_type \<and> e \<in> {''SyntaxError'', ''TypeError: Expected array''} \<or>
        v_type vd = Object_type \<and> e \<in> {''SyntaxError'', ''TypeError: Expected object''})
   | Reads_beyond v \<Rightarrow> has_value doc sc vd \<and> has_type v (v_type vd) \<and>
       v_type vd \<in> {Array_type, Number_type, Object_type}"
proof (cases "DataMap_get doc sc (v_key vd)")
  case None
  then show ?thesis
    using default_typed by (simp add: get_value_def)
next
  case (Some s)
  then have "has_value doc sc vd"
    by (simp add: has_value_def DataMap_has_def DataMap_get_def hasAttribute_def)
  then show ?thesis
    using Some reader_type reader_throws reader_beyond by (auto simp: get_value_def split: reading.split)
qed

text \<open>A value of an element, and two classes of which one extends the other.\<close>

definition test_scope :: scope where
  "test_scope = \<lparr>scope_element = 1, scope_identifier = ''search''\<rparr>"

definition test_value :: value_descriptor where
  "test_value = valueDescriptorForTokenAndType ''config'' Object_type"

theorem value_round_trip_witness:
  "get_value (set_value test_scope test_value (JV (JObj [(''b'', JNum (Num (- 2))), (''1'', JArr [JNum NaN, JStr ''x''])])) test_document)
     test_scope test_value = Reads (JObj [(''1'', JArr [JNull, JStr ''x'']), (''b'', JNum (Num (- 2)))])"
proof -
  let ?v = "JObj [(''b'', JNum (Num (- 2))), (''1'', JArr [JNum NaN, JStr ''x''])]"
  have n: "get_node test_document (scope_element test_scope) \<noteq> None" by code_simp
  have t: "has_type ?v (v_type test_value)" by code_simp
  have p: "proper ?v" by code_simp
  have k: "kept_as ?v = JObj [(''1'', JArr [JNull, JStr ''x'']), (''b'', JNum (Num (- 2)))]" by code_simp
  from value_round_trip [OF test_document_wf n t p] k show ?thesis by simp
qed

section \<open>Declared properties\<close>

definition test_base :: constructor_fn where
  "test_base = Constructor
     (map_of [(''values'', Static_object [(''maxCount'', String_constant), (''label'', String_constant)]),
       (''targets'', Static_array [''item'', ''list''])])
     (map_of []) (Some Controller_class)"

definition test_child :: constructor_fn where
  "test_child = Constructor (map_of [(''values'', Static_object [(''maxCount'', Number_constant), (''page-size'', Number_constant)])])
     (map_of [(''itemTarget'', Data (Own_member ''itemTarget''))]) (Some test_base)"

lemma test_child_blessed: "standard_blessings test_child" "bless test_child \<noteq> Inl e"
proof -
  show s: "standard_blessings test_child" by code_simp
  have "unknown_declaration (readInheritableStaticObjectPairs test_child ''values'') = None" by code_simp
  then show "bless test_child \<noteq> Inl e"
    by (simp add: bless_eq [OF s] ValuePropertiesBlessing_eq)
qed

text \<open>The names a class lists in a static array are those of the class and of all classes it
  extends, without repetition; of a static object's keys the nearest class has the last word.\<close>

lemma declarations_inherited:
  "(name \<in> set (readInheritableStaticArrayValues c p) \<longleftrightarrow> (\<exists>a\<in>set (ancestors_up c). declares a p name)) \<and>
   distinct (readInheritableStaticArrayValues c p) \<and>
   map_of (rev (readInheritableStaticObjectPairs c p)) key = nearest_declaration c p key"
  using inherited_names inherited_arrays(2) inherited_last by blast

text \<open>Blessing fails exactly for a class that declares, or inherits, a value of an unknown type, with
  the error of the first such declaration.\<close>

lemma bless_fails:
  assumes "standard_blessings c"
  shows "bless c = Inl e \<longleftrightarrow> unknown_declaration (readInheritableStaticObjectPairs c ''values'') = Some e"
  by (cases "unknown_declaration (readInheritableStaticObjectPairs c ''values'')")
    (simp_all add: bless_eq [OF assms] ValuePropertiesBlessing_eq)

text \<open>Two target names that make the same property.\<close>

definition same_property :: "string \<Rightarrow> string \<Rightarrow> bool" where
  "same_property t t' \<longleftrightarrow> ''has'' @ capitalize t' = t \<or> ''has'' @ capitalize t = t' \<or> (t' \<noteq> t \<and> capitalize t' = capitalize t)"

text \<open>C35: In a blessed class every declared target name has its getters: the target, all targets, and
  whether there is one; a property of the class itself with that name comes first. This is said
  of names whose properties no other declared target makes too, as a target hasItem makes the
  hasItemTarget of a target item.\<close>

theorem targets_blessed:
  assumes "standard_blessings c" "bless c = Inr b" "t \<in> set (readInheritableStaticArrayValues c ''targets'')"
    and "list_all (\<lambda>t'. \<not> same_property t t') (readInheritableStaticArrayValues c ''targets'')"
  shows "find_property b (t @ ''Target'') = Some (shadowed c (t @ ''Target'') (getter (Target_get t))) \<and>
    find_property b (t @ ''Targets'') = Some (shadowed c (t @ ''Targets'') (getter (Targets_get t))) \<and>
    find_property b (''has'' @ capitalize t @ ''Target'') =
      Some (shadowed c (''has'' @ capitalize t @ ''Target'') (getter (Target_has t)))"
proof -
  obtain vs where vs: "ValuePropertiesBlessing c = Inr vs"
    using bless_Inr [OF assms(1,2)] by blast
  have apart: "\<forall>t'\<in>set (readInheritableStaticArrayValues c ''targets'').
      ''has'' @ capitalize t' \<noteq> t \<and> ''has'' @ capitalize t \<noteq> t' \<and> (capitalize t' = capitalize t \<longrightarrow> t' = t)"
    using assms(4) unfolding list_all_iff same_property_def by blast
  have get: "Map_get (TargetPropertiesBlessing c) k = Some d"
    if "Map_get (propertiesForTargetDefinition t) k = Some d"
      "\<forall>t'\<in>set (readInheritableStaticArrayValues c ''targets''). Map_get (propertiesForTargetDefinition t') k \<noteq> None \<longrightarrow> t' = t"
    for k d
    unfolding TargetPropertiesBlessing_def by (rule assign_all_unique [OF target_properties_wf assms(3) that])
  have blessed: "find_property b (x @ s) = Some (shadowed c (x @ s) d)"
    if "Map_get (TargetPropertiesBlessing c) (x @ s) = Some d" "s = ''Target'' \<or> s = ''Targets''" for x s d
  proof (rule blessed_property [OF assms(1,2) vs])
    show "x @ s \<noteq> ''constructor''" using that(2) ends_apart(12,13) by blast
    show "Map_get (ClassPropertiesBlessing c) (x @ s) = None" using that(2) by (intro class_map_target_name) blast
    show "Map_get vs (x @ s) = None" using that(2) by (intro value_map_target_name [OF vs]) blast
  qed (use that(1) in simp_all)
  have "Map_get (TargetPropertiesBlessing c) (t @ ''Target'') = Some (getter (Target_get t))"
    using apart by (intro get) (simp_all only: target_keys, auto)
  moreover have "Map_get (TargetPropertiesBlessing c) (t @ ''Targets'') = Some (getter (Targets_get t))"
    by (intro get) (simp_all only: target_keys, auto)
  moreover have "Map_get (TargetPropertiesBlessing c) ((''has'' @ capitalize t) @ ''Target'') = Some (getter (Target_has t))"
    using apart assms(3) by (intro get) (simp_all only: target_keys, auto)
  ultimately have "find_property b (t @ ''Target'') = Some (shadowed c (t @ ''Target'') (getter (Target_get t)))"
    "find_property b (t @ ''Targets'') = Some (shadowed c (t @ ''Targets'') (getter (Targets_get t)))"
    "find_property b ((''has'' @ capitalize t) @ ''Target'') =
      Some (shadowed c ((''has'' @ capitalize t) @ ''Target'') (getter (Target_has t)))"
    using blessed by blast+
  then show ?thesis
    by (simp only: append_assoc simp_thms)
qed

theorem targets_blessed_witness:
  "\<exists>b. bless test_child = Inr b \<and> find_property b ''itemTarget'' = Some (Data (Own_member ''itemTarget'')) \<and>
     find_property b ''itemTargets'' = Some (Accessor (Some (Targets_get ''item'')) None)"
proof -
  obtain b where b: "bless test_child = Inr b"
    using test_child_blessed(2) by (cases "bless test_child") auto
  have i: "''item'' \<in> set (readInheritableStaticArrayValues test_child ''targets'')" by code_simp
  have a: "list_all (\<lambda>t'. \<not> same_property ''item'' t') (readInheritableStaticArrayValues test_child ''targets'')"
    by code_simp
  have "own_property test_child ''itemTarget'' = Some (Data (Own_member ''itemTarget''))"
    "own_property test_child ''itemTargets'' = None" by code_simp+
  with targets_blessed [OF test_child_blessed(1) b i a] b show ?thesis by (simp add: shadowed_def)
qed

text \<open>C36: In a blessed class a declared value has the property of its name in camel case with Value
  appended, so that a name without separators is kept and page-size gives pageSizeValue; the
  property reads and writes the value with the type of the nearest declaration, and a property
  of the class itself with that name comes first, and lends its getter or setter. This is said
  of values whose property no other declared value makes too.\<close>

theorem values_blessed:
  assumes "standard_blessings c" "bless c = Inr b" "values_apart c token"
    and "nearest_declaration c ''values'' token = Some T" "parseValueTypeConstant T = Inr t"
  shows "find_property b (value_word token @ ''Value'') = Some (shadowed c (value_word token @ ''Value'')
    \<lparr>acc_get = Some (Value_get (valueDescriptorForTokenAndType token t)),
     acc_set = Some (Value_set (valueDescriptorForTokenAndType token t))\<rparr>) \<and>
    (list_all (\<lambda>c. \<not> is_separator c) token \<longrightarrow> value_word token = token)"
proof -
  obtain vs where vs: "ValuePropertiesBlessing c = Inr vs"
    using bless_Inr [OF assms(1,2)] by blast
  have e: "value_word token @ ''Value'' = (value_word token @ ''V'') @ ''alue''" by simp
  have "find_property b (value_word token @ ''Value'') = Some (shadowed c (value_word token @ ''Value'')
    \<lparr>acc_get = Some (Value_get (valueDescriptorForTokenAndType token t)),
     acc_set = Some (Value_set (valueDescriptorForTokenAndType token t))\<rparr>)"
  proof (rule blessed_property [OF assms(1,2) vs _ _ _ value_map_own_name [OF vs assms(3-5)]])
    show "value_word token @ ''Value'' \<noteq> ''constructor''"
      unfolding e by (rule ends_apart)
    show "Map_get (ClassPropertiesBlessing c) (value_word token @ ''Value'') = None"
      unfolding e by (rule class_map_target_name) blast
    show "Map_get (TargetPropertiesBlessing c) (value_word token @ ''Value'') = None"
      unfolding e by (rule target_map_value_name) blast
  qed simp
  then show ?thesis by (simp add: value_word_plain)
qed

theorem values_blessed_witness:
  "\<exists>b. bless test_child = Inr b \<and> find_property b ''pageSizeValue'' =
     Some (Accessor (Some (Value_get (valueDescriptorForTokenAndType ''page-size'' Number_type)))
       (Some (Value_set (valueDescriptorForTokenAndType ''page-size'' Number_type))))"
proof -
  obtain b where b: "bless test_child = Inr b"
    using test_child_blessed(2) by (cases "bless test_child") auto
  have w: "value_word ''page-size'' @ ''Value'' = ''pageSizeValue''" by code_simp
  have a: "values_apart test_child ''page-size''" by code_simp
  have n: "nearest_declaration test_child ''values'' ''page-size'' = Some Number_constant" by code_simp
  have p: "parseValueTypeConstant Number_constant = Inr Number_type" by code_simp
  have "own_property test_child ''pageSizeValue'' = None" by code_simp
  with values_blessed [OF test_child_blessed(1) b a n p] b show ?thesis unfolding w by (simp add: shadowed_def)
qed

end
