(* ===== verification/Gui_Base.thy ===== *)
theory Gui_Base
  imports Json
begin

text \<open>
  The page of \<^verbatim>\<open>src/gui/web/node.html\<close> and what the controllers of
  \<^verbatim>\<open>src/gui/web/assets/scripts/main.js\<close> share: the state of the page, asynchronous
  handlers, the classes \<open>BaseElement\<close>, \<open>Flash\<close>, \<open>PeerInfo\<close>, \<open>Messaging\<close> and
  the collapsible titles.

  An asynchronous handler runs up to its first \<open>await\<close> and leaves a \<open>task\<close> behind: what
  it waits for, and how it goes on with the answer. Several tasks can be pending, and the
  network decides which one is answered next, so interleavings are sequences of answers. A
  rejected promise is \<open>Inl\<close> the text of the exception.
\<close>

section \<open>The page\<close>

text \<open>
  The content of an element: text, a string assigned to \<open>innerHTML\<close>, or child elements (tag,
  classes, content).
\<close>

datatype dnode = Text string | Raw string | Elem string "string list" "dnode list"

text \<open>A form field: its \<open>name\<close> and its \<open>value\<close> (\<open>None\<close> for \<open>undefined\<close>).\<close>

record input_field =
  iname :: string
  ivalue :: "string option"

text \<open>
  The state of the page. \<open>inputs\<close> and \<open>outputs\<close> are indexed by controller and target name;
  \<open>files\<close> are the files chosen for an upload, \<open>downloads\<close> the names and contents of the links
  clicked for a download (each link stays in the page), \<open>scroll\<close> the scroll offsets and widths
  the scripts set, \<open>packet_source\<close> the address of the \<open>EventSource\<close> that pushes packets.
\<close>

record gui =
  endpoint :: "string option"
  socketAddr :: "string option"
  inputs :: "string \<times> string \<Rightarrow> input_field"
  outputs :: "string \<times> string \<Rightarrow> dnode list"
  flashes :: "(nat \<times> dnode) list"
  next_flash :: nat
  files :: "string list"
  downloads :: "(string \<times> string) list"
  follow :: bool
  scroll :: "string \<Rightarrow> nat"
  packet_source :: "string option"
  unhandled :: "string list"

text \<open>
  What the browser computes for the scripts: the height and width of a content, the scroll
  width of the holder of a child of a given width, the current time and the local time of a
  time stamp (\<open>NaN\<close> in all three parts when it is no number).
\<close>

record browser =
  scrollHeight :: "dnode list \<Rightarrow> nat"
  scrollWidth :: "dnode list \<Rightarrow> nat"
  holderWidth :: "nat \<Rightarrow> nat"
  clock :: "js_num \<times> js_num \<times> js_num"
  local_time :: "jsval \<Rightarrow> js_num \<times> js_num \<times> js_num"

definition set_innerHTML :: "string \<times> string \<Rightarrow> string \<Rightarrow> gui \<Rightarrow> gui" where
  "set_innerHTML t html g =
     g\<lparr>outputs := (outputs g)(t := (if html = [] then [] else [Raw html]))\<rparr>"

definition append_child :: "string \<times> string \<Rightarrow> dnode \<Rightarrow> gui \<Rightarrow> gui" where
  "append_child t el g = g\<lparr>outputs := (outputs g)(t := outputs g t @ [el])\<rparr>"

section \<open>Asynchronous handlers\<close>

record response =
  status :: nat
  statusText :: string

record fetch_args =
  http_method :: string
  content_type :: "string option"
  body :: "string option"

datatype task =
    Fetch string "fetch_args option" "string + response \<Rightarrow> gui \<Rightarrow> gui \<times> task list"
  | Read_text response "string + string \<Rightarrow> gui \<Rightarrow> gui \<times> task list"
  | Read_json response "string + json \<Rightarrow> gui \<Rightarrow> gui \<times> task list"
  | Read_blob response "string + string \<Rightarrow> gui \<Rightarrow> gui \<times> task list"
  | Render_svg string "string + string \<Rightarrow> gui \<Rightarrow> gui \<times> task list"
  | Read_file string "string \<Rightarrow> gui \<Rightarrow> gui \<times> task list"

type_synonym act = "gui \<Rightarrow> gui \<times> task list"

definition now :: "(gui \<Rightarrow> gui) \<Rightarrow> act" where
  "now f g = (f g, [])"

definition await :: "task \<Rightarrow> act" where
  "await t g = (g, [t])"

text \<open>
  Two synchronous pieces one after the other. A call \<open>this.update()\<close> without \<open>await\<close> runs
  the callee up to its first \<open>await\<close> and leaves its task pending beside the caller's.
\<close>

definition andThen :: "act \<Rightarrow> act \<Rightarrow> act" where
  "andThen a b g = (let (g1, ts1) = a g; (g2, ts2) = b g1 in (g2, ts1 @ ts2))"

text \<open>An exception that no handler catches rejects the promise nobody looks at.\<close>

definition unhandled_rejection :: "string \<Rightarrow> act" where
  "unhandled_rejection e = now (\<lambda>g. g\<lparr>unhandled := unhandled g @ [e]\<rparr>)"

lemmas act_defs = now_def await_def andThen_def unhandled_rejection_def

text \<open>The requests a piece of work leaves pending.\<close>

fun request_of :: "task \<Rightarrow> (string \<times> fetch_args option) list" where
  "request_of (Fetch url opts k) = [(url, opts)]"
| "request_of t = []"

definition requests :: "task list \<Rightarrow> (string \<times> fetch_args option) list" where
  "requests ts = concat (map request_of ts)"

lemma requests_simps [simp]:
  "requests [] = []" "requests (t # ts) = request_of t @ requests ts"
  "requests (ts @ us) = requests ts @ requests us"
  by (simp_all add: requests_def)

section \<open>The class Flash\<close>

definition createFlash :: "string \<Rightarrow> string \<Rightarrow> dnode" where
  "createFlash className content =
     (let content = trim (collapse_spaces content)
      in Elem ''div'' [''flash-msg'', className]
           ((if content = [] then [] else [Text content]) @
            [Elem ''span'' [''closebtn''] [Raw ''&times;''], Elem ''span'' [''progress''] []]))"

definition append_flash :: "dnode \<Rightarrow> gui \<Rightarrow> gui" where
  "append_flash el g =
     g\<lparr>flashes := flashes g @ [(next_flash g, el)], next_flash := Suc (next_flash g)\<rparr>"

definition printError :: "string \<Rightarrow> gui \<Rightarrow> gui" where
  "printError e = append_flash (createFlash ''error'' e)"

definition printSuccess :: "string \<Rightarrow> gui \<Rightarrow> gui" where
  "printSuccess e = append_flash (createFlash ''success'' e)"

text \<open>
  The message removes itself after four seconds, and at once when its close button is
  clicked; removing it again has no effect.
\<close>

definition remove_flash :: "nat \<Rightarrow> gui \<Rightarrow> gui" where
  "remove_flash i g = g\<lparr>flashes := filter (\<lambda>f. fst f \<noteq> i) (flashes g)\<rparr>"

section \<open>The class BaseElement\<close>

fun checkInputs :: "input_field list \<Rightarrow> gui \<Rightarrow> gui \<times> bool" where
  "checkInputs [] g = (g, True)"
| "checkInputs (el # els) g =
     (if ivalue el = Some [] \<or> ivalue el = None then
        (printError (''form validation failed: \"'' @ iname el @ ''\" is empty or invalid'') g, False)
      else checkInputs els g)"

definition base_fetch ::
    "string \<Rightarrow> fetch_args option \<Rightarrow> (response \<Rightarrow> act) \<Rightarrow> (string \<Rightarrow> act) \<Rightarrow> act" where
  "base_fetch addr opts ok catch =
     await (Fetch addr opts (\<lambda>r. case r of
         Inl e \<Rightarrow> catch e
       | Inr resp \<Rightarrow>
           (if status resp \<noteq> 200 then
              await (Read_text resp (\<lambda>t. case t of
                  Inl e \<Rightarrow> catch e
                | Inr text \<Rightarrow>
                    catch (''wrong status: '' @ show_nat (status resp) @ '' '' @ statusText resp @
                      '' - '' @ text)))
            else ok resp)))"

definition await_text :: "response \<Rightarrow> (string \<Rightarrow> act) \<Rightarrow> (string \<Rightarrow> act) \<Rightarrow> act" where
  "await_text resp ok catch = await (Read_text resp (\<lambda>t. case t of Inl e \<Rightarrow> catch e | Inr x \<Rightarrow> ok x))"

definition await_json :: "response \<Rightarrow> (json \<Rightarrow> act) \<Rightarrow> (string \<Rightarrow> act) \<Rightarrow> act" where
  "await_json resp ok catch = await (Read_json resp (\<lambda>t. case t of Inl e \<Rightarrow> catch e | Inr x \<Rightarrow> ok x))"

lemmas async_defs = base_fetch_def await_text_def await_json_def

text \<open>The value of a form field, where the code has checked that there is one.\<close>

definition value_of :: "input_field \<Rightarrow> string" where
  "value_of f = (case ivalue f of None \<Rightarrow> ''undefined'' | Some v \<Rightarrow> v)"

section \<open>The class PeerInfo\<close>

text \<open>\<open>queryDict\<close>: a later parameter of the same name wins, a name without \<open>=\<close> has no value.\<close>

definition query_item :: "string \<Rightarrow> string \<times> string option" where
  "query_item item =
     (case split_on (CHR ''='') item of
        k # v # _ \<Rightarrow> (k, Some v)
      | [k] \<Rightarrow> (k, None)
      | [] \<Rightarrow> ([], None))"

definition getQueryArgs :: "string \<Rightarrow> (string \<times> string option) list" where
  "getQueryArgs search =
     fold (\<lambda>item d. let (k, v) = query_item item in set_prop k v d)
       (split_on (CHR ''&'') (drop 1 search)) []"

datatype uri_error = URIError | Not_modelled

text \<open>
  The bytes of an escape sequence are a character in UTF-8; a malformed sequence throws. A text with a
  character above 255 is decoded, but the model has no string for it.
\<close>

definition escaped_byte :: "string \<Rightarrow> (nat \<times> string) option" where
  "escaped_byte s =
     (case s of
        p # x # y # rest \<Rightarrow>
          (case (digit_value x, digit_value y) of
             (Some a, Some b) \<Rightarrow> (if p = CHR ''%'' \<and> a < 16 \<and> b < 16 then Some (16 * a + b, rest) else None)
           | _ \<Rightarrow> None)
      | _ \<Rightarrow> None)"

fun continuation_bytes :: "nat \<Rightarrow> nat \<Rightarrow> string \<Rightarrow> (nat \<times> string) option" where
  "continuation_bytes 0 n s = Some (n, s)"
| "continuation_bytes (Suc k) n s =
     (case escaped_byte s of
        Some (b, rest) \<Rightarrow> (if 0x80 \<le> b \<and> b < 0xC0 then continuation_bytes k (n * 0x40 + (b - 0x80)) rest else None)
      | None \<Rightarrow> None)"

definition escaped_character :: "string \<Rightarrow> (nat \<times> string) option" where
  "escaped_character s =
     (case escaped_byte s of
        None \<Rightarrow> None
      | Some (b, rest) \<Rightarrow>
          (let (k, n, least) = (if b < 0x80 then (0, b, 0) else if b < 0xE0 then (1, b - 0xC0, 0x80)
             else if b < 0xF0 then (2, b - 0xE0, 0x800) else (3, b - 0xF0, 0x10000))
           in if (0x80 \<le> b \<and> b < 0xC0) \<or> 0xF8 \<le> b then None
              else case continuation_bytes k n rest of
                Some (c, rest) \<Rightarrow>
                  (if c < least \<or> 0x10FFFF < c \<or> (0xD800 \<le> c \<and> c \<le> 0xDFFF) then None else Some (c, rest))
              | None \<Rightarrow> None))"

lemma escaped_byte_shorter: "escaped_byte s = Some (b, rest) \<Longrightarrow> length rest < length s"
  by (auto simp: escaped_byte_def split: list.splits option.splits if_splits)

lemma continuation_bytes_shorter: "continuation_bytes k n s = Some (c, rest) \<Longrightarrow> length rest \<le> length s"
  by (induction k n s rule: continuation_bytes.induct)
    (fastforce split: option.splits if_splits dest: escaped_byte_shorter)+

lemma escaped_character_shorter: "escaped_character s = Some (c, rest) \<Longrightarrow> length rest < length s"
  by (auto simp: escaped_character_def Let_def split: option.splits if_splits prod.splits
      dest!: escaped_byte_shorter continuation_bytes_shorter)

function decoded_characters :: "string \<Rightarrow> nat list option" where
  "decoded_characters [] = Some []"
| "decoded_characters (c # cs) =
     (if c \<noteq> CHR ''%'' then map_option (Cons (code c)) (decoded_characters cs)
      else (case escaped_character (c # cs) of
          None \<Rightarrow> None
        | Some (n, rest) \<Rightarrow> map_option (Cons n) (decoded_characters rest)))"
  by pat_completeness auto
termination
  by (relation "measure length") (auto dest: escaped_character_shorter)

definition decodeURIComponent :: "string \<Rightarrow> uri_error + string" where
  "decodeURIComponent s =
     (case decoded_characters s of
        None \<Rightarrow> Inl URIError
      | Some cs \<Rightarrow> (if list_all (\<lambda>c. c < 0x100) cs then Inr (map char_of cs) else Inl Not_modelled))"

definition getAPIURL :: "gui \<Rightarrow> string \<Rightarrow> string" where
  "getAPIURL g suffix = (case endpoint g of None \<Rightarrow> ''undefined'' | Some e \<Rightarrow> e) @ suffix"

text \<open>
  \<open>initialize\<close> calls the browser's \<open>fetch\<close>, not the checking one of \<open>BaseElement\<close>:
  the status of the response is not looked at.
\<close>

definition PeerInfo_catch :: "string \<Rightarrow> act" where
  "PeerInfo_catch e = now (printError (''failed to fetch socket address: '' @ e))"

definition PeerInfo_address :: "string \<Rightarrow> act" where
  "PeerInfo_address text = now (\<lambda>g.
     g\<lparr>outputs := (outputs g)((''peerInfo'', ''socketAddr'') := [Text (''tcp://'' @ text)]),
       socketAddr := Some text\<rparr>)"

definition PeerInfo_response :: "string + response \<Rightarrow> act" where
  "PeerInfo_response r =
     (case r of
        Inl e \<Rightarrow> PeerInfo_catch e
      | Inr resp \<Rightarrow> await_text resp PeerInfo_address PeerInfo_catch)"

definition PeerInfo_initialize :: "string \<Rightarrow> act" where
  "PeerInfo_initialize search g =
     (case decodeURIComponent
          (case Map_get (getQueryArgs search) ''addr'' of Some (Some v) \<Rightarrow> v | _ \<Rightarrow> ''undefined'') of
        Inl Not_modelled \<Rightarrow> (g, [])
      | Inl URIError \<Rightarrow> unhandled_rejection ''URIError: URI malformed'' g
      | Inr addr \<Rightarrow>
          (let ep = ''http://'' @ addr;
               g = g\<lparr>endpoint := Some ep,
                     outputs := (outputs g)((''peerInfo'', ''peerAddr'') := [Text ep])\<rparr>
           in await (Fetch (ep @ ''/socket/address'') None PeerInfo_response) g))"

section \<open>The class Messaging\<close>

definition addMsg :: "browser \<Rightarrow> dnode \<Rightarrow> gui \<Rightarrow> gui" where
  "addMsg b el g =
     (let g = append_child (''messaging'', ''messages'') el g
      in g\<lparr>scroll := (scroll g)(''messaging.holder.top'' :=
             scrollHeight b (outputs g (''messaging'', ''messages'')))\<rparr>)"

section \<open>Collapsible titles\<close>

record collapsible =
  active :: bool
  display :: string

definition initCollapsible_one :: "collapsible \<Rightarrow> collapsible" where
  "initCollapsible_one c = c\<lparr>display := (if active c then ''block'' else ''none'')\<rparr>"

definition collapsible_click :: "collapsible \<Rightarrow> collapsible" where
  "collapsible_click c =
     (if active c then c\<lparr>display := ''none'', active := False\<rparr>
      else c\<lparr>display := ''block'', active := True\<rparr>)"

end
