(* ===== verification/Gui_Messaging.thy ===== *)
theory Gui_Messaging
  imports Gui_Base
begin

text \<open>
  The controllers \<open>Unicast\<close>, \<open>Routing\<close>, \<open>Packets\<close> and \<open>Broadcast\<close> of
  \<^verbatim>\<open>src/gui/web/assets/scripts/main.js\<close>, one definition per method. A form field
  \<open>this.xTarget\<close> of controller \<open>c\<close> is \<open>inputs g (c, x)\<close>.
\<close>

section \<open>Requests\<close>

definition post_json :: "json \<Rightarrow> fetch_args" where
  "post_json v = \<lparr>http_method = ''POST'', content_type = Some ''application/json'',
     body = Some (stringify v)\<rparr>"

definition post_form :: "string \<Rightarrow> fetch_args" where
  "post_form content = \<lparr>http_method = ''POST'', content_type = Some ''multipart/form-data'',
     body = Some content\<rparr>"

definition chat_message :: "string \<Rightarrow> json" where
  "chat_message message =
     JObj [(''Type'', JStr ''chat''), (''payload'', JObj [(''Message'', JStr message)])]"

definition show_time :: "js_num \<times> js_num \<times> js_num \<Rightarrow> string" where
  "show_time t = (case t of (h, m, s) \<Rightarrow> show_num h @ '':'' @ show_num m @ '':'' @ show_num s)"

section \<open>Unicast\<close>

definition unicast_packet :: "string \<Rightarrow> string \<Rightarrow> json" where
  "unicast_packet destination message =
     JObj [(''Dest'', JStr destination), (''Msg'', chat_message message)]"

definition unicast_html :: "browser \<Rightarrow> string \<Rightarrow> string \<Rightarrow> string" where
  "unicast_html b message destination =
     newline 16 @ ''<div>'' @
     newline 20 @ ''<p class=\"msg\">'' @ message @ ''</p>'' @
     newline 20 @ ''<p class=\"details\">'' @
     newline 24 @ ''to '' @ destination @ '' '' @
     newline 24 @ ''at '' @ show_time (clock b) @
     newline 20 @ ''</p>'' @
     newline 16 @ ''</div>''"

definition Unicast_send :: "browser \<Rightarrow> act" where
  "Unicast_send b g =
     (let addr = getAPIURL g ''/messaging/unicast'';
          m = inputs g (''unicast'', ''message'');
          d = inputs g (''unicast'', ''destination'');
          (g, ok) = checkInputs [m, d] g
      in if \<not> ok then (g, [])
         else let message = value_of m; destination = value_of d
              in base_fetch addr (Some (post_json (unicast_packet destination message)))
                   (\<lambda>resp. now (addMsg b (Elem ''div'' [''sent''] [Raw (unicast_html b message destination)])))
                   (\<lambda>e. now (printError (''failed to send message: '' @ e))) g)"

section \<open>Routing\<close>

definition routing_row :: "string \<times> json \<Rightarrow> dnode" where
  "routing_row kv = Elem ''tr'' []
     [Raw (''<td>'' @ fst kv @ ''</td><td>'' @ json_to_string (snd kv) @ ''</td>'')]"

text \<open>The second half of \<open>update\<close>: fetch the graph and draw it.\<close>

definition Routing_graph :: "string \<Rightarrow> act" where
  "Routing_graph addr =
     (let catch = (\<lambda>e. now (printError (''Failed to display routing: '' @ e)))
      in base_fetch (addr @ ''?graphviz=on'') None
           (\<lambda>resp. await_text resp
              (\<lambda>data. await (Render_svg data (\<lambda>r. case r of
                   Inl e \<Rightarrow> catch e
                 | Inr svg \<Rightarrow>
                     now (append_child (''routing'', ''graphviz'') (Elem ''svg'' [] [Raw svg]) \<circ>
                          set_innerHTML (''routing'', ''graphviz'') []))))
              catch)
           catch)"

definition show_routes :: "json \<Rightarrow> gui \<Rightarrow> gui" where
  "show_routes data g =
     (let g = set_innerHTML (''routing'', ''table'') [] g
      in case object_entries data of
           Inl e \<Rightarrow> printError (''Failed to fetch routing: '' @ e) g
         | Inr kvs \<Rightarrow>
             printSuccess ''Routing table updated''
               (fold (\<lambda>kv. append_child (''routing'', ''table'') (routing_row kv)) kvs g))"

definition Routing_update :: act where
  "Routing_update g =
     (let addr = getAPIURL g ''/messaging/routing'';
          catch = (\<lambda>e. andThen (now (printError (''Failed to fetch routing: '' @ e))) (Routing_graph addr))
      in base_fetch addr None
           (\<lambda>resp. await_json resp (\<lambda>data. andThen (now (show_routes data)) (Routing_graph addr)) catch)
           catch g)"

definition Routing_addPeer :: act where
  "Routing_addPeer g =
     (let p = inputs g (''routing'', ''peer''); (g, ok) = checkInputs [p] g
      in if \<not> ok then (g, [])
         else let addr = getAPIURL g ''/messaging/peers''; peer = value_of p
              in base_fetch addr (Some (post_json (JArr [JStr peer])))
                   (\<lambda>resp. andThen (now (printSuccess ''peer added'')) Routing_update)
                   (\<lambda>e. now (printError (''failed to add peer: '' @ e))) g)"

definition Routing_setEntry :: act where
  "Routing_setEntry g =
     (let addr = getAPIURL g ''/messaging/routing'';
          f = inputs g (''routing'', ''origin''); (g, ok) = checkInputs [f] g
      in if \<not> ok then (g, [])
         else let origin = value_of f; relay = value_of (inputs g (''routing'', ''relay''));
                  message = JObj [(''Origin'', JStr origin), (''RelayAddr'', JStr relay)]
              in base_fetch addr (Some (post_json message))
                   (\<lambda>resp. andThen
                      (now (printSuccess (if relay = [] then ''Entry deleted'' else ''Entry set'')))
                      Routing_update)
                   (\<lambda>e. now (printError (''failed to set entry: '' @ e))) g)"

section \<open>Packets\<close>

definition Packets_initialize :: act where
  "Packets_initialize = now (\<lambda>g. g\<lparr>packet_source := Some (getAPIURL g ''/registry/pktnotify'')\<rparr>)"

text \<open>
  The chat element of a packet: a chain of property reads, any of which may throw, in the
  order of the code. \<open>None\<close> when the packet is no chat message.
\<close>

definition chat_element :: "browser \<Rightarrow> string option \<Rightarrow> jsval \<Rightarrow> string + dnode option" where
  "chat_element b self pkt =
     bind_sum (get_prop pkt ''Msg'') (\<lambda>msg.
     bind_sum (get_prop msg ''Type'') (\<lambda>type.
     if \<not> loose_eq type (Some ''chat'') then Inr None
     else
       bind_sum (get_prop pkt ''Header'') (\<lambda>header.
       bind_sum (get_prop header ''Timestamp'') (\<lambda>stamp.
       bind_sum (get_prop header ''Source'') (\<lambda>source.
       bind_sum (get_prop msg ''Payload'') (\<lambda>payload.
       bind_sum (get_prop payload ''Message'') (\<lambda>message.
         Inr (Some (Elem ''div'' [if loose_eq source self then ''sent'' else ''received'']
           [Raw (''<div><p class=\"msg\">'' @ to_string message @ ''</p><p class=\"details\">from '' @
              to_string source @ '' at '' @ show_time (local_time b stamp) @ ''</p></div>'')]))))))))) "

definition packet_history :: "browser \<Rightarrow> json \<Rightarrow> gui \<Rightarrow> gui" where
  "packet_history b pkt g =
     (let g = append_child (''packets'', ''packets'')
                (Elem ''div'' [] [Raw (''<pre>'' @ stringify_pretty 0 pkt @ ''</pre>'')]) g;
          w = scrollWidth b (outputs g (''packets'', ''packets''));
          g = g\<lparr>scroll := (scroll g)(''packets.scroll.width'' := w)\<rparr>
      in if follow g then
           g\<lparr>scroll := (scroll g)(''packets.packets.left'' := w,
                                 ''packets.holder.left'' := holderWidth b w)\<rparr>
         else g)"

text \<open>\<open>data\<close> is what \<open>JSON.parse\<close> makes of the event's data.\<close>

definition packetMessage :: "browser \<Rightarrow> string + json \<Rightarrow> act" where
  "packetMessage b data g =
     (case data of
        Inl e \<Rightarrow> unhandled_rejection e g
      | Inr pkt \<Rightarrow>
          (case chat_element b (socketAddr g) (JV pkt) of
             Inl e \<Rightarrow> unhandled_rejection e g
           | Inr None \<Rightarrow> now (packet_history b pkt) g
           | Inr (Some el) \<Rightarrow> now (packet_history b pkt \<circ> addMsg b el) g))"

definition packetError :: act where
  "packetError = now (printError ''failed to listen pkt: stopped listening'')"

definition packetsScroll :: act where
  "packetsScroll = now (\<lambda>g.
     g\<lparr>scroll := (scroll g)(''packets.packets.left'' := scroll g ''packets.holder.left'')\<rparr>)"

section \<open>Broadcast\<close>

definition Broadcast_sendChat :: act where
  "Broadcast_sendChat g =
     (let addr = getAPIURL g ''/messaging/broadcast'';
          m = inputs g (''broadcast'', ''chatMessage''); (g, ok) = checkInputs [m] g
      in if \<not> ok then (g, [])
         else base_fetch addr (Some (post_json (chat_message (value_of m))))
                (\<lambda>resp. now (printSuccess ''chat message broadcasted''))
                (\<lambda>e. now (printError (''failed to send message: '' @ e))) g)"

definition private_recipients :: "string \<Rightarrow> (string \<times> json) list" where
  "private_recipients destination =
     fold (\<lambda>e r. set_prop (trim e) (JObj []) r) (split_on (CHR '','') destination) []"

definition private_message :: "string \<Rightarrow> string \<Rightarrow> json" where
  "private_message destination message =
     JObj [(''Type'', JStr ''private''),
           (''payload'', JObj [(''Recipients'', JObj (private_recipients destination)),
                               (''Msg'', chat_message message)])]"

definition Broadcast_sendPrivate :: act where
  "Broadcast_sendPrivate g =
     (let addr = getAPIURL g ''/messaging/broadcast'';
          m = inputs g (''broadcast'', ''privateMessage'');
          d = inputs g (''broadcast'', ''privateRecipients''); (g, ok) = checkInputs [m, d] g
      in if \<not> ok then (g, [])
         else base_fetch addr (Some (post_json (private_message (value_of d) (value_of m))))
                (\<lambda>resp. now (printSuccess ''private message sent''))
                (\<lambda>e. now (printError (''failed to send message: '' @ e))) g)"

end
