(* ===== verification/Double.thy ===== *)
theory Double
  imports Complex_Main "HOL-Library.Log_Nat"
begin

text \<open>
  Numbers of JavaScript that are not negative: doubles of IEEE 754, rounded to the nearest one, to the
  even one if there are two. A double is an integer multiple of the least positive one,
  \<open>2 ^ -1074\<close>, and is represented by that integer; infinity does not occur.
\<close>

section \<open>Rounding\<close>

text \<open>The integer next to \<open>a / b\<close>.\<close>

definition round_even :: "nat \<Rightarrow> nat \<Rightarrow> nat" where
  "round_even a b =
     (let q = a div b; r = a mod b
      in if 2 * r < b \<or> (2 * r = b \<and> even q) then q else q + 1)"

text \<open>
  The double next to \<open>a / b\<close> least doubles. It has 53 bits, so the doubles around it are
  \<open>spacing\<close> apart; the least ones are 1 apart.
\<close>

definition spacing :: "nat \<Rightarrow> nat" where
  "spacing n = 2 ^ (floorlog 2 n - 53)"

definition double :: "nat \<Rightarrow> nat \<Rightarrow> nat" where
  "double a b = spacing (a div b) * round_even a (b * spacing (a div b))"

definition one_double :: nat where
  "one_double = 2 ^ 1074"

lemma one_double_pos [simp]: "0 < one_double"
  unfolding one_double_def by (rule zero_less_power) simp

text \<open>The quotient of two integers, the product of a double and an integer, and \<open>Math.round\<close>.\<close>

definition double_div :: "nat \<Rightarrow> nat \<Rightarrow> nat" where
  "double_div a b = double (a * one_double) b"

definition double_times :: "nat \<Rightarrow> nat \<Rightarrow> nat" where
  "double_times x n = double (x * n) 1"

definition Math_round :: "nat \<Rightarrow> nat" where
  "Math_round x = (2 * x + one_double) div (2 * one_double)"

section \<open>How far a double is from the number\<close>

lemma spacing_pos [simp]: "0 < spacing n"
  by (simp add: spacing_def)

lemma round_even_le: "0 < b \<Longrightarrow> a \<le> n * b \<Longrightarrow> round_even a b \<le> n"
proof -
  assume b: "0 < b" and a: "a \<le> n * b"
  show ?thesis
  proof (cases "a = n * b")
    case True
    with b show ?thesis by (simp add: round_even_def)
  next
    case False
    with a b have "a div b < n" by (simp add: less_mult_imp_div_less)
    then show ?thesis by (simp add: round_even_def Let_def)
  qed
qed

lemma round_even_close:
  assumes "0 < b"
  shows "2 * a \<le> 2 * (round_even a b * b) + b" "2 * (round_even a b * b) \<le> 2 * a + b"
proof -
  define q r where "q = a div b" and "r = a mod b"
  have "a = q * b + r" "r < b" using assms by (simp_all add: q_def r_def)
  moreover have "round_even a b = (if 2 * r < b \<or> (2 * r = b \<and> even q) then q else q + 1)"
    by (simp add: round_even_def Let_def q_def r_def)
  ultimately show "2 * a \<le> 2 * (round_even a b * b) + b" "2 * (round_even a b * b) \<le> 2 * a + b"
    by (auto simp: algebra_simps)
qed

text \<open>Rounding does not pass a double.\<close>

lemma double_le:
  assumes "0 < b" "spacing (a div b) dvd r" "a \<le> b * r"
  shows "double a b \<le> r"
proof -
  obtain n where n: "r = spacing (a div b) * n" using assms(2) by blast
  have "a \<le> n * (b * spacing (a div b))" using assms(3) n by (simp add: ac_simps)
  then have "round_even a (b * spacing (a div b)) \<le> n" using assms(1) by (intro round_even_le) simp_all
  then show ?thesis unfolding double_def n by simp
qed

lemma double_close:
  assumes "0 < b"
  shows "\<bar>rat_of_nat (double a b) - rat_of_nat a / rat_of_nat b\<bar> \<le> rat_of_nat (spacing (a div b)) / 2"
proof -
  let ?s = "spacing (a div b)"
  have "0 < b * ?s" using assms by simp
  note round_even_close [OF this, of a]
  then have "2 * a \<le> 2 * (double a b * b) + b * ?s" "2 * (double a b * b) \<le> 2 * a + b * ?s"
    by (simp_all add: double_def ac_simps)
  then have "rat_of_nat (2 * a) \<le> rat_of_nat (2 * (double a b * b) + b * ?s)"
    "rat_of_nat (2 * (double a b * b)) \<le> rat_of_nat (2 * a + b * ?s)"
    unfolding of_nat_le_iff by blast+
  then have "rat_of_nat (double a b) - rat_of_nat a / rat_of_nat b \<le> rat_of_nat ?s / 2"
    "rat_of_nat a / rat_of_nat b - rat_of_nat (double a b) \<le> rat_of_nat ?s / 2"
    using assms by (simp_all add: field_simps)
  then show ?thesis unfolding abs_le_iff by linarith
qed

lemma spacing_dvd:
  assumes "n < 2 ^ k" "k \<le> m + 53"
  shows "spacing n dvd 2 ^ m"
proof -
  have "floorlog 2 n \<le> k" using assms(1) by (intro floorlog_leI) simp_all
  then have "floorlog 2 n - 53 \<le> m" using assms(2) by linarith
  then show ?thesis unfolding spacing_def by (rule le_imp_power_dvd)
qed

lemma spacing_le: "n < 2 ^ k \<Longrightarrow> k \<le> m + 53 \<Longrightarrow> spacing n \<le> 2 ^ m"
  by (rule dvd_imp_le [OF spacing_dvd]) simp_all

section \<open>Percentages\<close>

definition percentage :: "nat \<Rightarrow> nat \<Rightarrow> nat" where
  "percentage a b = Math_round (double_times (double_div a b) 100)"

text \<open>
  A percentage is at most 100, and is next to the exact one, except that one very close to the
  middle between two integers may be rounded to either.
\<close>

lemma Math_round_close: "\<bar>rat_of_nat (Math_round x) - rat_of_nat x / rat_of_nat one_double\<bar> \<le> 1 / 2"
proof -
  define q r where "q = (2 * x + one_double) div (2 * one_double)" and "r = (2 * x + one_double) mod (2 * one_double)"
  have "q * (2 * one_double) + r = 2 * x + one_double" unfolding q_def r_def by (rule div_mult_mod_eq)
  moreover have "r < 2 * one_double" unfolding r_def by (rule mod_less_divisor) simp
  ultimately have "2 * x \<le> q * (2 * one_double) + one_double" "q * (2 * one_double) \<le> 2 * x + one_double" by linarith+
  then have "rat_of_nat (2 * x) \<le> rat_of_nat (q * (2 * one_double) + one_double)"
    "rat_of_nat (q * (2 * one_double)) \<le> rat_of_nat (2 * x + one_double)"
    unfolding of_nat_le_iff by blast+
  then have "rat_of_nat q - rat_of_nat x / rat_of_nat one_double \<le> 1 / 2"
    "rat_of_nat x / rat_of_nat one_double - rat_of_nat q \<le> 1 / 2"
    using one_double_pos by (simp_all add: field_simps)
  then show ?thesis unfolding abs_le_iff Math_round_def q_def by linarith
qed

lemma one_double_less: "n \<le> 100 * one_double \<Longrightarrow> n < 2 ^ 1081"
proof -
  have "100 * one_double < 2 ^ 1081" unfolding one_double_def by simp
  then show "n \<le> 100 * one_double \<Longrightarrow> ?thesis" by (rule le_less_trans [rotated])
qed

lemma quotient_le:
  assumes "a \<le> b" "0 < b"
  shows "a * one_double div b \<le> one_double" "a * one_double div b < 2 ^ 1075" "double_div a b \<le> one_double"
proof -
  have "a * one_double \<le> b * one_double" using assms(1) by simp
  then have "a * one_double div b \<le> b * one_double div b" by (rule div_le_mono)
  then show le: "a * one_double div b \<le> one_double" using assms(2) by simp
  have "one_double < 2 ^ 1075" unfolding one_double_def by (rule power_strict_increasing) simp_all
  with le show less: "a * one_double div b < 2 ^ 1075" by (rule le_less_trans)
  have "spacing (a * one_double div b) dvd one_double"
    using spacing_dvd [OF less, of 1074] unfolding one_double_def by simp
  then show "double_div a b \<le> one_double"
    unfolding double_div_def using assms by (intro double_le) simp_all
qed

lemma percent_le:
  assumes "x \<le> one_double"
  shows "x * 100 div 1 < 2 ^ 1081" "double_times x 100 \<le> 100 * one_double"
proof -
  have "x * 100 \<le> 100 * one_double" using assms by simp
  from one_double_less [OF this] show less: "x * 100 div 1 < 2 ^ 1081" unfolding div_by_1 .
  have "spacing (x * 100 div 1) dvd one_double"
    using spacing_dvd [OF less, of 1074] unfolding one_double_def by simp
  then show "double_times x 100 \<le> 100 * one_double"
    unfolding double_times_def using assms by (intro double_le) simp_all
qed

lemma percentage_le:
  assumes "a \<le> b" "0 < b"
  shows "percentage a b \<le> 100"
proof -
  have "double_times (double_div a b) 100 \<le> 100 * one_double" using percent_le quotient_le(3) [OF assms] by blast
  then have "percentage a b \<le> (201 * one_double) div (2 * one_double)"
    unfolding percentage_def Math_round_def by (intro div_le_mono) simp
  also have "\<dots> < 101" by (rule less_mult_imp_div_less) simp
  finally show ?thesis by simp
qed

lemma half_spacing:
  assumes "n < 2 ^ k" "k \<le> m + 54" "m + j = 1074"
  shows "rat_of_nat (spacing n) / 2 \<le> rat_of_nat one_double / 2 ^ j"
proof -
  have "spacing n \<le> 2 ^ Suc m" using spacing_le [OF assms(1), of "Suc m"] assms(2) by simp
  then have "rat_of_nat (spacing n) \<le> rat_of_nat (2 ^ Suc m)" unfolding of_nat_le_iff .
  moreover have "rat_of_nat one_double = 2 ^ m * 2 ^ j" unfolding one_double_def assms(3) [symmetric] by (simp add: power_add)
  ultimately show ?thesis by simp
qed

lemma percentage_close:
  assumes "a \<le> b" "0 < b"
  shows "\<bar>rat_of_nat (percentage a b) - 100 * (rat_of_nat a / rat_of_nat b)\<bar> \<le> 1 / 2 + 1 / 2 ^ 45"
proof -
  define u where "u = rat_of_nat one_double"
  define x y where "x = double_div a b" and "y = double_times x 100"
  have u: "0 < u" by (simp add: u_def)
  have "\<bar>rat_of_nat x - rat_of_nat a * u / rat_of_nat b\<bar> \<le> u / 2 ^ 53"
    using order_trans [OF double_close [OF assms(2), of "a * one_double"] half_spacing [OF quotient_le(2) [OF assms], of 1021 53]]
    by (simp add: x_def double_div_def u_def)
  then have "\<bar>rat_of_nat x / u - rat_of_nat a / rat_of_nat b\<bar> \<le> 1 / 2 ^ 53"
    using u by (simp add: abs_le_iff field_simps)
  moreover have "\<bar>rat_of_nat y - rat_of_nat x * 100\<bar> \<le> u / 2 ^ 47"
    using order_trans [OF double_close [of 1 "x * 100"] half_spacing [OF percent_le(1), of x 1027 47]]
      quotient_le(3) [OF assms] by (simp add: y_def double_times_def u_def x_def)
  then have "\<bar>rat_of_nat y / u - rat_of_nat x / u * 100\<bar> \<le> 1 / 2 ^ 47"
    using u by (simp add: abs_le_iff field_simps)
  moreover have "\<bar>rat_of_nat (percentage a b) - rat_of_nat y / u\<bar> \<le> 1 / 2"
    using Math_round_close [of y] by (simp add: percentage_def x_def y_def u_def)
  moreover have "100 * (1 / 2 ^ 53) + 1 / 2 ^ 47 \<le> (1 / 2 ^ 45 :: rat)" by simp
  ultimately show ?thesis unfolding abs_le_iff by linarith
qed

text \<open>What 29 of 200 come to is less than 14.5 in doubles.\<close>

lemma spacing_eq: "2 ^ (k + 52) \<le> n \<Longrightarrow> n < 2 ^ (k + 53) \<Longrightarrow> spacing n = 2 ^ k"
proof -
  assume n: "2 ^ (k + 52) \<le> n" "n < 2 ^ (k + 53)"
  have "floorlog 2 n \<le> k + 53" using n(2) by (intro floorlog_leI) simp_all
  moreover have "Suc (k + 52) \<le> floorlog 2 n" using n(1) by (intro floorlog_ge_SucI) simp_all
  ultimately have "floorlog 2 n - 53 = k" by linarith
  then show ?thesis by (simp add: spacing_def)
qed

lemma double_eq: "2 ^ (k + 52) \<le> a div b \<Longrightarrow> a div b < 2 ^ (k + 53) \<Longrightarrow> double a b = 2 ^ k * round_even a (b * 2 ^ k)"
  by (simp add: double_def spacing_eq)

lemma percentage_29_200: "percentage 29 200 = 14"
proof -
  have "double_div 29 200 = 2 ^ 1019 * round_even (29 * one_double) (200 * 2 ^ 1019)"
    unfolding double_div_def by (intro double_eq) (simp_all add: one_double_def)
  also have "\<dots> = 2 ^ 1019 * 5224175567749775"
    by (simp add: round_even_def one_double_def)
  finally have x: "double_div 29 200 = 2 ^ 1019 * 5224175567749775" .
  have "double_times (double_div 29 200) 100 = 2 ^ 1025 * round_even (2 ^ 1019 * 5224175567749775 * 100) (1 * 2 ^ 1025)"
    unfolding double_times_def x by (intro double_eq) simp_all
  then show ?thesis
    by (simp add: percentage_def Math_round_def round_even_def one_double_def)
qed

end
