(* ===== verification/Gui_DataSharing.thy ===== *)
theory Gui_DataSharing
  imports Gui_Messaging Double
begin

text \<open>
  The controllers \<open>Catalog\<close>, \<open>DataSharing\<close>, \<open>Search\<close> and \<open>Naming\<close> of
  \<^verbatim>\<open>src/gui/web/assets/scripts/main.js\<close>, one definition per method.
\<close>

section \<open>Catalog\<close>

definition catalog_entry :: "string \<times> json \<Rightarrow> dnode" where
  "catalog_entry kv = Elem ''div'' []
     (Elem ''p'' [] [Raw (fst kv)] # map (\<lambda>peer. Elem ''p'' [] [Raw peer]) (for_in_keys (snd kv)))"

definition show_catalog :: "json \<Rightarrow> gui \<Rightarrow> gui" where
  "show_catalog data g =
     (let g = set_innerHTML (''catalog'', ''content'') [] g
      in case object_entries data of
           Inl e \<Rightarrow> printError (''Failed to fetch catalog: '' @ e) g
         | Inr kvs \<Rightarrow>
             (if length kvs = 0 then
                printSuccess ''Catalog updated, nothing found''
                  (set_innerHTML (''catalog'', ''content'') ''<i>no elements</i>'' g)
              else
                printSuccess ''Catalog updated''
                  (fold (\<lambda>kv. append_child (''catalog'', ''content'') (catalog_entry kv)) kvs g)))"

definition Catalog_update :: act where
  "Catalog_update g =
     (let addr = getAPIURL g ''/datasharing/catalog'';
          catch = (\<lambda>e. now (printError (''Failed to fetch catalog: '' @ e)))
      in base_fetch addr None (\<lambda>resp. await_json resp (\<lambda>data. now (show_catalog data)) catch) catch g)"

definition Catalog_add :: act where
  "Catalog_add g =
     (let addr = getAPIURL g ''/datasharing/catalog'';
          k = inputs g (''catalog'', ''key''); v = inputs g (''catalog'', ''value'');
          (g, ok) = checkInputs [k, v] g
      in if \<not> ok then (g, [])
         else base_fetch addr (Some (post_json (JArr [JStr (value_of k), JStr (value_of v)])))
                (\<lambda>resp. Catalog_update)
                (\<lambda>e. now (printError (''failed to add catalog entry: '' @ e))) g)"

section \<open>DataSharing\<close>

text \<open>The listener of the reader's \<open>load\<close> event: \<open>addr\<close> was computed by \<open>upload\<close>.\<close>

definition upload_load :: "string \<Rightarrow> string \<Rightarrow> act" where
  "upload_load addr result =
     (let catch = (\<lambda>e. now (printError (''failed to upload data: '' @ e)))
      in base_fetch addr (Some (post_form result))
           (\<lambda>resp. await_text resp
              (\<lambda>text. now (set_innerHTML (''dataSharing'', ''uploadResult'') (''Metahash: '' @ text) \<circ>
                            printSuccess (''data uploaded, metahash: '' @ text)))
              catch)
           catch)"

text \<open>The listener of its \<open>progress\<close> event: \<open>percentage\<close> is \<^verbatim>\<open>Math.round((loaded / total) * 100)\<close>.\<close>

definition upload_progress :: "nat \<Rightarrow> nat \<Rightarrow> act" where
  "upload_progress loaded tot =
     (if loaded \<noteq> 0 \<and> tot \<noteq> 0 then
        now (printSuccess (''File upload progress: '' @ show_nat (percentage loaded tot)))
      else now id)"

definition DataSharing_upload :: act where
  "DataSharing_upload g =
     (let addr = getAPIURL g ''/datasharing/upload''
      in case files g of
           [] \<Rightarrow> now (printError ''No file found'') g
         | file # _ \<Rightarrow> await (Read_file file (upload_load addr)) g)"

definition triggerDownload :: "string \<Rightarrow> string \<Rightarrow> gui \<Rightarrow> gui" where
  "triggerDownload metahash blob g = g\<lparr>downloads := downloads g @ [(metahash, blob)]\<rparr>"

definition DataSharing_download :: act where
  "DataSharing_download g =
     (let f = inputs g (''dataSharing'', ''downloadMetahash''); (g, ok) = checkInputs [f] g
      in if \<not> ok then (g, [])
         else let metahash = value_of f;
                  addr = getAPIURL g (''/datasharing/download?key='' @ metahash);
                  catch = (\<lambda>e. now (printError (''Failed to download data: '' @ e)))
              in base_fetch addr None
                   (\<lambda>resp. await (Read_blob resp (\<lambda>r. case r of
                        Inl e \<Rightarrow> catch e
                      | Inr blob \<Rightarrow>
                          now (printSuccess ''Data downloaded!'' \<circ> triggerDownload metahash blob))))
                   catch g)"

section \<open>Search\<close>

definition searchAll_packet :: "string \<Rightarrow> string \<Rightarrow> string \<Rightarrow> json" where
  "searchAll_packet pattern budget timeout =
     JObj [(''Pattern'', JStr pattern), (''Budget'', JNum (parseInt budget)),
           (''Timeout'', JStr timeout)]"

definition Search_searchAll :: act where
  "Search_searchAll g =
     (let addr = getAPIURL g ''/datasharing/searchAll'';
          p = inputs g (''search'', ''searchAllPattern'');
          n = inputs g (''search'', ''searchAllBudget'');
          t = inputs g (''search'', ''searchAllTimeout'');
          (g, ok) = checkInputs [p, n, t] g
      in if \<not> ok then (g, [])
         else let pkt = searchAll_packet (value_of p) (value_of n) (value_of t);
                  catch = (\<lambda>e. now (printError (''failed to searchAll: '' @ e)));
                  g = set_innerHTML (''search'', ''searchAllResult'') ''<i>searching all...</i>'' g
              in base_fetch addr (Some (post_form (stringify pkt)))
                   (\<lambda>resp. await_text resp
                      (\<lambda>text. now (set_innerHTML (''search'', ''searchAllResult'') (''Names: '' @ text) \<circ>
                                    printSuccess (''SearchAll done, result: '' @ text)))
                      catch)
                   catch g)"

definition searchFirst_packet :: "string \<Rightarrow> string \<Rightarrow> string \<Rightarrow> string \<Rightarrow> string \<Rightarrow> json" where
  "searchFirst_packet pattern initial factor retry timeout =
     JObj [(''Pattern'', JStr pattern), (''Initial'', JNum (parseInt initial)),
           (''Factor'', JNum (parseInt factor)), (''Retry'', JNum (parseInt retry)),
           (''Timeout'', JStr timeout)]"

definition show_searchFirst :: "string \<Rightarrow> gui \<Rightarrow> gui" where
  "show_searchFirst text =
     printSuccess (''search first done, result: '' @ text) \<circ>
     set_innerHTML (''search'', ''searchFirstResult'')
       (if text = [] then ''<i>Nothing found</i>'' else ''Names: '' @ text) \<circ>
     printSuccess (''Search done, result: '' @ text)"

definition Search_searchFirst :: act where
  "Search_searchFirst g =
     (let addr = getAPIURL g ''/datasharing/searchFirst'';
          p = inputs g (''search'', ''searchFirstPattern'');
          i = inputs g (''search'', ''searchFirstInitialBudget'');
          f = inputs g (''search'', ''searchFirstFactor'');
          r = inputs g (''search'', ''searchFirstRetry'');
          t = inputs g (''search'', ''searchFirstTimeout'');
          (g, ok) = checkInputs [p, i, f, r, t] g
      in if \<not> ok then (g, [])
         else let pkt = searchFirst_packet (value_of p) (value_of i) (value_of f) (value_of r) (value_of t);
                  catch = (\<lambda>e. now (printError (''failed to Search first: '' @ e)));
                  g = set_innerHTML (''search'', ''searchFirstResult'') ''<i>searching first...</i>'' g
              in base_fetch addr (Some (post_form (stringify pkt)))
                   (\<lambda>resp. await_text resp (\<lambda>text. now (show_searchFirst text)) catch)
                   catch g)"

section \<open>Naming\<close>

text \<open>\<open>resolve\<close> calls \<open>checkInputs\<close> but does not look at what it returns.\<close>

definition Naming_resolve :: act where
  "Naming_resolve g =
     (let f = inputs g (''naming'', ''resolveFilename'');
          (g, _) = checkInputs [f] g;
          filename = value_of f;
          addr = getAPIURL g (''/datasharing/naming?name='' @ filename);
          catch = (\<lambda>e. now (printError (''Failed to resolve filename: '' @ e)))
      in base_fetch addr None
           (\<lambda>resp. await_text resp
              (\<lambda>text. now (printSuccess ''filename resolved'' \<circ>
                 set_innerHTML (''naming'', ''resolveResult'')
                   (if text = [] then ''<i>nothing found</i>'' else text)))
              catch)
           catch g)"

definition Naming_tag :: act where
  "Naming_tag g =
     (let addr = getAPIURL g ''/datasharing/naming'';
          f = inputs g (''naming'', ''tagFilename''); m = inputs g (''naming'', ''tagMetahash'');
          (g, ok) = checkInputs [f, m] g
      in if \<not> ok then (g, [])
         else base_fetch addr (Some (post_json (JArr [JStr (value_of f), JStr (value_of m)])))
                (\<lambda>resp. now (printSuccess ''tagging done''))
                (\<lambda>e. now (printError (''failed to tag filename: '' @ e))) g)"

end
