(* ===== verification/Gui_World.thy ===== *)
theory Gui_World
  imports Gui_DataSharing
begin

text \<open>
  The page as a whole: what the user does, the packets the proxy pushes, the timers of the
  flash messages and the answers of the network, in any order. A world is a page with its
  pending tasks, each under a number of its own.
\<close>

section \<open>Worlds\<close>

record world =
  page :: gui
  pending :: "(nat \<times> task) list"
  next_task :: nat

datatype answer =
    A_response "string + response"
  | A_text "string + string"
  | A_json "string + json"
  | A_blob "string + string"
  | A_svg "string + string"
  | A_file string
  | A_file_error

text \<open>A reader that fails has no listener for its \<open>error\<close> event.\<close>

fun resume :: "task \<Rightarrow> answer \<Rightarrow> act option" where
  "resume (Fetch url opts k) (A_response r) = Some (k r)"
| "resume (Read_text resp k) (A_text r) = Some (k r)"
| "resume (Read_json resp k) (A_json r) = Some (k r)"
| "resume (Read_blob resp k) (A_blob r) = Some (k r)"
| "resume (Render_svg src k) (A_svg r) = Some (k r)"
| "resume (Read_file file k) (A_file r) = Some (k r)"
| "resume (Read_file file k) A_file_error = Some (now id)"
| "resume t a = None"

fun_cases resume_Some: "resume t a = Some k"

definition run_act :: "act \<Rightarrow> world \<Rightarrow> world" where
  "run_act a w =
     (let (g, ts) = a (page w)
      in w\<lparr>page := g, pending := pending w @ zip [next_task w..<next_task w + length ts] ts,
           next_task := next_task w + length ts\<rparr>)"

section \<open>Events\<close>

datatype event =
    Edit "string \<times> string" string
  | Choose_files "string list"
  | Toggle_follow
  | Scroll_packets nat
  | Close_flash nat
  | Packet "string + json"
  | Packet_error
  | Upload_progress nat nat
  | Click_unicast_send
  | Click_broadcast_sendChat
  | Click_broadcast_sendPrivate
  | Click_routing_update
  | Click_routing_addPeer
  | Click_routing_setEntry
  | Click_catalog_update
  | Click_catalog_add
  | Click_dataSharing_upload
  | Click_dataSharing_download
  | Click_search_searchAll
  | Click_search_searchFirst
  | Click_naming_resolve
  | Click_naming_tag

text \<open>
  The actions of the buttons of \<^verbatim>\<open>node.html\<close> (\<open>data-action\<close>), the listeners the scripts
  install, and the user's own changes of the page. A timer and the close button of a flash
  message do the same.
\<close>

fun handler :: "browser \<Rightarrow> event \<Rightarrow> act" where
  "handler b (Edit t v) = now (\<lambda>g. g\<lparr>inputs := (inputs g)(t := (inputs g t)\<lparr>ivalue := Some v\<rparr>)\<rparr>)"
| "handler b (Choose_files fs) = now (\<lambda>g. g\<lparr>files := fs\<rparr>)"
| "handler b Toggle_follow = now (\<lambda>g. g\<lparr>follow := \<not> follow g\<rparr>)"
| "handler b (Scroll_packets n) =
     andThen (now (\<lambda>g. g\<lparr>scroll := (scroll g)(''packets.holder.left'' := n)\<rparr>)) packetsScroll"
| "handler b (Close_flash i) = now (remove_flash i)"
| "handler b (Packet data) = packetMessage b data"
| "handler b Packet_error = packetError"
| "handler b (Upload_progress loaded tot) = upload_progress loaded tot"
| "handler b Click_unicast_send = Unicast_send b"
| "handler b Click_broadcast_sendChat = Broadcast_sendChat"
| "handler b Click_broadcast_sendPrivate = Broadcast_sendPrivate"
| "handler b Click_routing_update = Routing_update"
| "handler b Click_routing_addPeer = Routing_addPeer"
| "handler b Click_routing_setEntry = Routing_setEntry"
| "handler b Click_catalog_update = Catalog_update"
| "handler b Click_catalog_add = Catalog_add"
| "handler b Click_dataSharing_upload = DataSharing_upload"
| "handler b Click_dataSharing_download = DataSharing_download"
| "handler b Click_search_searchAll = Search_searchAll"
| "handler b Click_search_searchFirst = Search_searchFirst"
| "handler b Click_naming_resolve = Naming_resolve"
| "handler b Click_naming_tag = Naming_tag"

text \<open>
  The page loads: the controllers are initialised in the order of the document, \<open>PeerInfo\<close>
  before \<open>Routing\<close>, \<open>Catalog\<close> and \<open>Packets\<close>; the other controllers have no \<open>initialize\<close> method.
\<close>

definition page_load :: "string \<Rightarrow> act" where
  "page_load search = andThen (PeerInfo_initialize search)
     (andThen Routing_update (andThen Catalog_update Packets_initialize))"

text \<open>The \<open>name\<close> attributes of the form fields of \<^verbatim>\<open>node.html\<close>; every field starts empty.\<close>

definition field_names :: "((string \<times> string) \<times> string) list" where
  "field_names =
     [((''unicast'', ''message''), ''message''), ((''unicast'', ''destination''), ''destination''),
      ((''broadcast'', ''chatMessage''), ''message''),
      ((''broadcast'', ''privateMessage''), ''message''),
      ((''broadcast'', ''privateRecipients''), ''recipients''),
      ((''routing'', ''peer''), ''peer''), ((''routing'', ''origin''), ''origin''),
      ((''routing'', ''relay''), ''relay''), ((''catalog'', ''key''), ''key''),
      ((''catalog'', ''value''), ''value''), ((''search'', ''searchAllPattern''), ''pattern''),
      ((''search'', ''searchAllBudget''), ''budget''),
      ((''search'', ''searchAllTimeout''), ''timeout''),
      ((''search'', ''searchFirstPattern''), ''pattern''),
      ((''search'', ''searchFirstInitialBudget''), ''budget''),
      ((''search'', ''searchFirstFactor''), ''factor''),
      ((''search'', ''searchFirstRetry''), ''retry''),
      ((''search'', ''searchFirstTimeout''), ''timeout''),
      ((''naming'', ''resolveFilename''), ''filename''),
      ((''naming'', ''tagFilename''), ''filename''), ((''naming'', ''tagMetahash''), ''metahash'')]"

definition empty_page :: gui where
  "empty_page = \<lparr>endpoint = None, socketAddr = None,
     inputs = (\<lambda>t. \<lparr>iname = (case map_of field_names t of None \<Rightarrow> [] | Some n \<Rightarrow> n),
                    ivalue = Some []\<rparr>), outputs = (\<lambda>t. []), flashes = [],
     next_flash = 0, files = [], downloads = [], follow = True, scroll = (\<lambda>s. 0),
     packet_source = None, unhandled = []\<rparr>"

definition init_world :: "string \<Rightarrow> world" where
  "init_world search = run_act (page_load search) \<lparr>page = empty_page, pending = [], next_task = 0\<rparr>"

inductive world_step :: "browser \<Rightarrow> world \<Rightarrow> world \<Rightarrow> bool" where
  event: "world_step b w (run_act (handler b e) w)"
| answer: "Map_get (pending w) i = Some t \<Longrightarrow> resume t a = Some k \<Longrightarrow>
     world_step b w (run_act k (w\<lparr>pending := Map_delete i (pending w)\<rparr>))"

inductive reachable :: "browser \<Rightarrow> string \<Rightarrow> world \<Rightarrow> bool" where
  load: "reachable b search (init_world search)"
| step: "reachable b search w \<Longrightarrow> world_step b w w' \<Longrightarrow> reachable b search w'"

inductive_cases world_stepE: "world_step b w w'"

end
