(* ===== verification/Gui_Forms.thy ===== *)
theory Gui_Forms
  imports Gui_World Json_Parse
begin

text \<open>
  The forms of the page: what \<open>checkInputs\<close> decides, and what every handler that checks its
  form does with a complete and with an incomplete one.
\<close>

section \<open>Checking a form\<close>

definition filled :: "input_field \<Rightarrow> bool" where
  "filled f \<longleftrightarrow> ivalue f \<noteq> Some [] \<and> ivalue f \<noteq> None"

definition validation_error :: "input_field \<Rightarrow> string" where
  "validation_error el = ''form validation failed: \"'' @ iname el @ ''\" is empty or invalid''"

definition first_empty :: "gui \<Rightarrow> (string \<times> string) list \<Rightarrow> input_field option" where
  "first_empty g fs = List.find (\<lambda>f. \<not> filled f) (map (inputs g) fs)"

lemma checkInputs_find:
  "checkInputs els g =
     (case List.find (\<lambda>f. \<not> filled f) els of
        None \<Rightarrow> (g, True)
      | Some el \<Rightarrow> (printError (validation_error el) g, False))"
  by (induction els) (auto simp: filled_def validation_error_def)

declare checkInputs.simps [simp del]

lemma checkInputs_cases:
  obtains (ok) "list_all filled els" "checkInputs els g = (g, True)"
  | (bad) f where "f \<in> set els" "\<not> filled f"
      "checkInputs els g = (printError (validation_error f) g, False)"
  by (cases "List.find (\<lambda>f. \<not> filled f) els")
    (force simp: checkInputs_find find_None_iff find_Some_iff list_all_iff)+

lemma value_of_filled: "filled f \<Longrightarrow> ivalue f = Some (value_of f) \<and> value_of f \<noteq> []"
  by (auto simp: filled_def value_of_def split: option.splits)

section \<open>Requests and frames\<close>

lemma base_fetch_fst [simp]: "fst (base_fetch addr opts ok catch g) = g"
  by (simp add: base_fetch_def await_def)

lemma base_fetch_requests [simp]: "requests (snd (base_fetch addr opts ok catch g)) = [(addr, opts)]"
  by (simp add: base_fetch_def await_def)

lemma getAPIURL_set_innerHTML [simp]: "getAPIURL (set_innerHTML t s g) p = getAPIURL g p"
  by (simp add: getAPIURL_def set_innerHTML_def)

lemma flashes_set_innerHTML [simp]:
  "flashes (set_innerHTML t s g) = flashes g" "next_flash (set_innerHTML t s g) = next_flash g"
  by (simp_all add: set_innerHTML_def)

lemma http_method_post [simp]:
  "http_method (post_json v) = ''POST''" "http_method (post_form s) = ''POST''"
  by (simp_all add: post_json_def post_form_def)

section \<open>Handlers that check their form\<close>

text \<open>
  A handler with the form fields \<open>fs\<close>: an empty field stops it with one error message that
  names the first empty field; a complete form makes it send one POST request to the path.
\<close>

definition validates :: "act \<Rightarrow> (string \<times> string) list \<Rightarrow> string \<Rightarrow> bool" where
  "validates h fs path \<longleftrightarrow> (\<forall>g.
     case first_empty g fs of
       Some f \<Rightarrow> h g = (printError (validation_error f) g, [])
     | None \<Rightarrow> (\<exists>args. requests (snd (h g)) = [(getAPIURL g path, Some args)] \<and>
         http_method args = ''POST'' \<and> flashes (fst (h g)) = flashes g \<and>
         next_flash (fst (h g)) = next_flash g))"

lemma validatesI:
  assumes "\<And>g f. checkInputs (map (inputs g) fs) g = (printError (validation_error f) g, False) \<Longrightarrow>
      h g = (printError (validation_error f) g, [])"
    and "\<And>g. checkInputs (map (inputs g) fs) g = (g, True) \<Longrightarrow>
      \<exists>args. requests (snd (h g)) = [(getAPIURL g path, Some args)] \<and>
        http_method args = ''POST'' \<and> flashes (fst (h g)) = flashes g \<and>
        next_flash (fst (h g)) = next_flash g"
  shows "validates h fs path"
  unfolding validates_def
proof (intro allI)
  fix g
  show "case first_empty g fs of
       Some f \<Rightarrow> h g = (printError (validation_error f) g, [])
     | None \<Rightarrow> (\<exists>args. requests (snd (h g)) = [(getAPIURL g path, Some args)] \<and>
         http_method args = ''POST'' \<and> flashes (fst (h g)) = flashes g \<and>
         next_flash (fst (h g)) = next_flash g)"
    using assms [of g] by (auto simp: checkInputs_find first_empty_def split: option.splits)
qed

lemma validatesD:
  assumes "validates h fs path"
  shows "first_empty g fs = Some f \<Longrightarrow> h g = (printError (validation_error f) g, [])"
    and "first_empty g fs = None \<Longrightarrow> \<exists>args. requests (snd (h g)) = [(getAPIURL g path, Some args)] \<and>
      http_method args = ''POST'' \<and> flashes (fst (h g)) = flashes g \<and>
      next_flash (fst (h g)) = next_flash g"
  using assms [unfolded validates_def, THEN spec, of g] by simp_all

text \<open>The forms of \<^verbatim>\<open>node.html\<close> whose handlers check their fields, with the path of the request.\<close>

definition forms :: "(event \<times> (string \<times> string) list \<times> string) list" where
  "forms =
     [(Click_unicast_send, map (Pair ''unicast'') [''message'', ''destination''], ''/messaging/unicast''),
      (Click_broadcast_sendChat, map (Pair ''broadcast'') [''chatMessage''], ''/messaging/broadcast''),
      (Click_broadcast_sendPrivate, map (Pair ''broadcast'') [''privateMessage'', ''privateRecipients''],
         ''/messaging/broadcast''),
      (Click_routing_addPeer, map (Pair ''routing'') [''peer''], ''/messaging/peers''),
      (Click_routing_setEntry, map (Pair ''routing'') [''origin''], ''/messaging/routing''),
      (Click_catalog_add, map (Pair ''catalog'') [''key'', ''value''], ''/datasharing/catalog''),
      (Click_search_searchAll,
         map (Pair ''search'') [''searchAllPattern'', ''searchAllBudget'', ''searchAllTimeout''],
         ''/datasharing/searchAll''),
      (Click_search_searchFirst,
         map (Pair ''search'') [''searchFirstPattern'', ''searchFirstInitialBudget'',
           ''searchFirstFactor'', ''searchFirstRetry'', ''searchFirstTimeout''],
         ''/datasharing/searchFirst''),
      (Click_naming_tag, map (Pair ''naming'') [''tagFilename'', ''tagMetahash''], ''/datasharing/naming'')]"

lemmas form_handler_defs = Unicast_send_def Broadcast_sendChat_def Broadcast_sendPrivate_def
  Routing_addPeer_def Routing_setEntry_def Catalog_add_def Search_searchAll_def
  Search_searchFirst_def Naming_tag_def

lemma forms_validate: "list_all (\<lambda>(e, fs, path). validates (handler b e) fs path) forms"
  unfolding forms_def list.pred_inject prod.case handler.simps
  by (intro conjI TrueI validatesI) (simp_all add: form_handler_defs Let_def)

text \<open>
  All the handlers that check their form and stop, with the address and the method of the request of a
  complete form: those above, and the download.
\<close>

definition method_of :: "fetch_args option \<Rightarrow> string" where
  "method_of args = (case args of None \<Rightarrow> ''GET'' | Some a \<Rightarrow> http_method a)"

definition download_field :: "string \<times> string" where
  "download_field = (''dataSharing'', ''downloadMetahash'')"

definition checked_forms :: "(event \<times> (string \<times> string) list \<times> (gui \<Rightarrow> string) \<times> string) list" where
  "checked_forms =
     (Click_dataSharing_download, [download_field],
        (\<lambda>g. getAPIURL g (''/datasharing/download?key='' @ value_of (inputs g download_field))), ''GET'') #
     map (\<lambda>(e, fs, path). (e, fs, \<lambda>g. getAPIURL g path, ''POST'')) forms"

definition stops_or_sends :: "act \<Rightarrow> (string \<times> string) list \<Rightarrow> (gui \<Rightarrow> string) \<Rightarrow> string \<Rightarrow> gui \<Rightarrow> bool" where
  "stops_or_sends h fs url meth g \<longleftrightarrow>
     (case first_empty g fs of
        Some f \<Rightarrow> h g = (printError (validation_error f) g, [])
      | None \<Rightarrow> (\<exists>args. requests (snd (h g)) = [(url g, args)] \<and> method_of args = meth \<and>
          flashes (fst (h g)) = flashes g \<and> next_flash (fst (h g)) = next_flash g))"

lemma download_stops_or_sends:
  "stops_or_sends DataSharing_download [download_field]
     (\<lambda>g. getAPIURL g (''/datasharing/download?key='' @ value_of (inputs g download_field))) ''GET'' g"
  by (auto simp: stops_or_sends_def DataSharing_download_def checkInputs_find first_empty_def download_field_def
      Let_def method_of_def split: option.splits)

lemma checked_forms_stop_or_send:
  "(e, fs, url, meth) \<in> set checked_forms \<Longrightarrow> stops_or_sends (handler b e) fs url meth g"
proof -
  have "stops_or_sends (handler b e) fs (\<lambda>g. getAPIURL g path) ''POST'' g" if "(e, fs, path) \<in> set forms" for e fs path
  proof -
    have "validates (handler b e) fs path" using that forms_validate [of b] by (auto simp: list_all_iff)
    then show ?thesis
      using validatesD [of "handler b e" fs path g]
      by (cases "first_empty g fs") (force simp: stops_or_sends_def method_of_def)+
  qed
  then show "(e, fs, url, meth) \<in> set checked_forms \<Longrightarrow> ?thesis"
    using download_stops_or_sends by (auto simp: checked_forms_def)
qed

text \<open>No other handler, but for \<open>Naming.resolve\<close>, reports a form.\<close>

lemma trim_two:
  assumes "\<not> is_space c" "\<not> is_space d"
  shows "\<exists>z. trim (c # d # s) = c # d # z"
proof -
  have "\<exists>z. trimEnd (c # d # s) = c # d # z"
    using assms by (auto simp: trimEnd_def dropWhile_append intro: exI [of _ "rev (dropWhile is_space (rev s))"])
  then show ?thesis using assms by (simp add: trim_def trimStart_def)
qed

lemma error_two:
  assumes "\<not> is_space c" "\<not> is_space d"
  shows "\<exists>z ks. createFlash ''error'' (c # d # s) = Elem ''div'' [''flash-msg'', ''error''] (Text (c # d # z) # ks)"
  using trim_two [OF assms, of "collapse_spaces s"] assms by (auto simp: createFlash_def Let_def)

lemma append_flash_eq: "append_flash el g = append_flash el' g \<Longrightarrow> el = el'"
proof -
  assume "append_flash el g = append_flash el' g"
  then have "flashes (append_flash el g) = flashes (append_flash el' g)" by simp
  then show ?thesis by (simp add: append_flash_def)
qed

lemma validation_text:
  "printError ''failed to listen pkt: stopped listening'' g \<noteq> printError (validation_error f) g"
  "printError ''No file found'' g \<noteq> printError (validation_error f) g"
  "printSuccess s g \<noteq> printError (validation_error f) g"
proof -
  have two: "\<exists>z ks. createFlash ''error'' (validation_error f) = Elem ''div'' [''flash-msg'', ''error''] (Text (CHR ''f'' # CHR ''o'' # z) # ks)"
    "\<exists>z ks. createFlash ''error'' ''failed to listen pkt: stopped listening'' = Elem ''div'' [''flash-msg'', ''error''] (Text (CHR ''f'' # CHR ''a'' # z) # ks)"
    "\<exists>z ks. createFlash ''error'' ''No file found'' = Elem ''div'' [''flash-msg'', ''error''] (Text (CHR ''N'' # CHR ''o'' # z) # ks)"
    unfolding validation_error_def append_Cons by (rule error_two; simp add: is_space_def)+
  have "createFlash ''error'' ''failed to listen pkt: stopped listening'' \<noteq> createFlash ''error'' (validation_error f)"
    using two(1,2) by (elim exE) (simp only:, simp)
  then show "printError ''failed to listen pkt: stopped listening'' g \<noteq> printError (validation_error f) g"
    unfolding printError_def by (blast dest: append_flash_eq)
  have "createFlash ''error'' ''No file found'' \<noteq> createFlash ''error'' (validation_error f)"
    using two(1,3) by (elim exE) (simp only:, simp)
  then show "printError ''No file found'' g \<noteq> printError (validation_error f) g"
    unfolding printError_def by (blast dest: append_flash_eq)
  have "createFlash ''success'' s \<noteq> createFlash ''error'' (validation_error f)" by (simp add: createFlash_def Let_def)
  then show "printSuccess s g \<noteq> printError (validation_error f) g"
    unfolding printError_def printSuccess_def by (blast dest: append_flash_eq)
qed

lemma no_new_flash: "length (flashes g') \<le> length (flashes g) \<Longrightarrow> g' \<noteq> printError e g"
  by (auto simp: printError_def append_flash_def)

lemma no_other_form:
  assumes "e \<notin> fst ` set checked_forms" "e \<noteq> Click_naming_resolve"
  shows "fst (handler b e g) \<noteq> printError (validation_error f) g"
proof (cases e)
  case (Upload_progress loaded tot)
  then show ?thesis
    using validation_text(3) no_new_flash [of g g] by (auto simp: upload_progress_def now_def)
next
  case (Packet data)
  have "length (flashes (fst (packetMessage b data g))) \<le> length (flashes g)"
    by (cases data; cases "chat_element b (socketAddr g) (JV (projr data))")
      (auto simp: packetMessage_def unhandled_rejection_def now_def packet_history_def addMsg_def append_child_def
        Let_def split: option.splits)
  with Packet show ?thesis by (simp add: no_new_flash)
next
  case Click_dataSharing_upload
  then show ?thesis
    using validation_text(2) no_new_flash [of g g]
    by (auto simp: DataSharing_upload_def now_def await_def Let_def split: list.splits)
next
  case Packet_error
  then show ?thesis using validation_text(1) by (simp add: packetError_def now_def)
qed (use assms in \<open>auto simp: checked_forms_def forms_def now_def andThen_def packetsScroll_def remove_flash_def
    Routing_update_def Catalog_update_def Let_def intro!: no_new_flash\<close>)

section \<open>What the requests carry\<close>

text \<open>The JSON value each form stands for, in terms of its fields.\<close>

definition text_of :: "gui \<Rightarrow> string \<Rightarrow> string \<Rightarrow> json" where
  "text_of g c x = JStr (value_of (inputs g (c, x)))"

definition number_of :: "gui \<Rightarrow> string \<Rightarrow> string \<Rightarrow> json" where
  "number_of g c x = JNum (parseInt (value_of (inputs g (c, x))))"

definition recipients_of :: "string \<Rightarrow> string list" where
  "recipients_of s = Set_of_array (filter (\<lambda>r. r \<noteq> ''__proto__'') (map trim (split_on (CHR '','') s)))"

definition chat_json :: "json \<Rightarrow> json" where
  "chat_json message = JObj [(''Type'', JStr ''chat''), (''payload'', JObj [(''Message'', message)])]"

fun form_content :: "event \<Rightarrow> gui \<Rightarrow> json" where
  "form_content Click_unicast_send g =
     JObj [(''Dest'', text_of g ''unicast'' ''destination''), (''Msg'', chat_json (text_of g ''unicast'' ''message''))]"
| "form_content Click_broadcast_sendChat g = chat_json (text_of g ''broadcast'' ''chatMessage'')"
| "form_content Click_broadcast_sendPrivate g =
     JObj [(''Type'', JStr ''private''),
       (''payload'', JObj
         [(''Recipients'', JObj (map (\<lambda>r. (r, JObj [])) (recipients_of (value_of (inputs g (''broadcast'', ''privateRecipients'')))))),
          (''Msg'', chat_json (text_of g ''broadcast'' ''privateMessage''))])]"
| "form_content Click_routing_addPeer g = JArr [text_of g ''routing'' ''peer'']"
| "form_content Click_routing_setEntry g =
     JObj [(''Origin'', text_of g ''routing'' ''origin''), (''RelayAddr'', text_of g ''routing'' ''relay'')]"
| "form_content Click_catalog_add g = JArr [text_of g ''catalog'' ''key'', text_of g ''catalog'' ''value'']"
| "form_content Click_search_searchAll g =
     JObj [(''Pattern'', text_of g ''search'' ''searchAllPattern''), (''Budget'', number_of g ''search'' ''searchAllBudget''),
       (''Timeout'', text_of g ''search'' ''searchAllTimeout'')]"
| "form_content Click_search_searchFirst g =
     JObj [(''Pattern'', text_of g ''search'' ''searchFirstPattern''),
       (''Initial'', number_of g ''search'' ''searchFirstInitialBudget''),
       (''Factor'', number_of g ''search'' ''searchFirstFactor''), (''Retry'', number_of g ''search'' ''searchFirstRetry''),
       (''Timeout'', text_of g ''search'' ''searchFirstTimeout'')]"
| "form_content Click_naming_tag g = JArr [text_of g ''naming'' ''tagFilename'', text_of g ''naming'' ''tagMetahash'']"
| "form_content e g = JNull"

lemma recipients_sent: "private_recipients s = map (\<lambda>r. (r, JObj [])) (recipients_of s)"
proof -
  have "fold (\<lambda>e r. set_prop (trim e) (JObj []) r) ws (map (\<lambda>r. (r, JObj [])) rs) =
      map (\<lambda>r. (r, JObj [])) (fold Set_add (filter (\<lambda>r. r \<noteq> ''__proto__'') (map trim ws)) rs)" for ws and rs :: "string list"
  proof (induction ws arbitrary: rs)
    case (Cons w ws)
    have "set_prop (trim w) (JObj []) (map (\<lambda>r. (r, JObj [])) rs) =
        map (\<lambda>r. (r, JObj [])) (if trim w = ''__proto__'' then rs else Set_add (trim w) rs)"
    proof (cases "trim w \<in> set rs")
      case True
      then have "Map_set (trim w) (JObj []) (map (\<lambda>r. (r, JObj [])) rs) = map (\<lambda>r. (r, JObj [])) rs"
        by (induction rs) auto
      with True show ?thesis by (simp add: set_prop_def Set_add_def)
    next
      case False
      then have "Map_set (trim w) (JObj []) (map (\<lambda>r. (r, JObj [])) rs) = map (\<lambda>r. (r, JObj [])) (rs @ [trim w])"
        by (induction rs) auto
      with False show ?thesis by (simp add: set_prop_def Set_add_def)
    qed
    with Cons.IH show ?case by simp
  qed simp
  from this [of "split_on (CHR '','') s" "[]"] show ?thesis
    by (simp add: private_recipients_def recipients_of_def Set_of_array_def)
qed

lemma form_posted:
  assumes "(e, fs, path) \<in> set forms" "first_empty g fs = None"
  shows "\<exists>args. requests (snd (handler b e g)) = [(getAPIURL g path, Some args)] \<and>
    body args = Some (stringify (form_content e g))"
  using assms
  by (auto simp: forms_def first_empty_def form_handler_defs checkInputs_find Let_def post_json_def post_form_def
      unicast_packet_def chat_message_def private_message_def searchAll_packet_def searchFirst_packet_def
      recipients_sent text_of_def number_of_def chat_json_def simp del: stringify.simps)

lemma form_content_proper: "e \<notin> {Click_search_searchAll, Click_search_searchFirst} \<Longrightarrow> proper (form_content e g)"
proof -
  have "distinct (recipients_of s)" for s by (simp add: recipients_of_def)
  then show "e \<notin> {Click_search_searchAll, Click_search_searchFirst} \<Longrightarrow> ?thesis"
    by (cases "(e, g)" rule: form_content.cases)
      (simp_all add: text_of_def chat_json_def list_all_iff comp_def)
qed

end
