(* ===== verification/Gui_Errors.thy ===== *)
theory Gui_Errors
  imports Gui_Forms
begin

text \<open>
  No failure is silent: whatever the network does with a pending task, a rejected promise
  ends in an error message that quotes the exception, and a response whose status is not 200
  never reaches the part of a handler that reports success.
\<close>

section \<open>What an answer may change\<close>

text \<open>
  The continuations of the handlers leave the user's fields alone, append messages under fresh
  numbers and never take a chat message away.
\<close>

definition tame :: "gui \<Rightarrow> gui \<Rightarrow> bool" where
  "tame g g' \<longleftrightarrow> inputs g' = inputs g \<and> endpoint g' = endpoint g \<and> files g' = files g \<and>
     follow g' = follow g \<and> unhandled g' = unhandled g \<and>
     (\<exists>new. flashes g' = flashes g @ zip [next_flash g..<next_flash g + length new] new \<and>
        next_flash g' = next_flash g + length new) \<and>
     (\<exists>els. outputs g' (''messaging'', ''messages'') = outputs g (''messaging'', ''messages'') @ els)"

lemma tame_refl [simp, intro]: "tame g g"
  by (simp add: tame_def)

lemma tame_trans:
  assumes "tame g g'" "tame g' g''"
  shows "tame g g''"
proof -
  obtain n1 n2 where n: "flashes g' = flashes g @ zip [next_flash g..<next_flash g + length n1] n1"
      "next_flash g' = next_flash g + length n1"
      "flashes g'' = flashes g' @ zip [next_flash g'..<next_flash g' + length n2] n2"
      "next_flash g'' = next_flash g' + length n2"
    using assms unfolding tame_def by blast
  then have "flashes g'' = flashes g @ zip [next_flash g..<next_flash g + length (n1 @ n2)] (n1 @ n2) \<and>
      next_flash g'' = next_flash g + length (n1 @ n2)"
    by (simp add: upt_add_eq_append [of "next_flash g" "next_flash g + length n1" "length n2", simplified]
        add.assoc [symmetric] zip_append)
  with assms show ?thesis unfolding tame_def by (metis append_assoc)
qed

lemma tame_append_flash [intro]: "tame g (append_flash el g)"
  by (simp add: tame_def append_flash_def exI [of _ "[el]"])

lemma tame_print [intro]: "tame g (printError e g)" "tame g (printSuccess e g)"
  by (auto simp: printError_def printSuccess_def)

lemma tame_set_innerHTML [intro]:
  "t \<noteq> (''messaging'', ''messages'') \<Longrightarrow> tame g (set_innerHTML t s g)"
  by (auto simp: tame_def set_innerHTML_def)

lemma tame_append_child [intro]: "tame g (append_child t el g)"
  by (auto simp: tame_def append_child_def)

lemma tame_addMsg [intro]: "tame g (addMsg b el g)"
  by (auto simp: tame_def addMsg_def append_child_def Let_def)

lemma tame_fold: "(\<And>x g. tame g (f x g)) \<Longrightarrow> tame g (fold f xs g)"
  by (induction xs arbitrary: g) (auto intro: tame_trans)

lemma tame_set_then:
  "t \<noteq> (''messaging'', ''messages'') \<Longrightarrow> tame (set_innerHTML t s g) g' \<Longrightarrow> tame g g'"
  by (rule tame_trans [OF tame_set_innerHTML])

lemma tame_entries:
  "tame g (printSuccess msg (fold (\<lambda>kv. append_child t (f kv)) kvs g))"
  by (rule tame_trans [OF tame_fold tame_print(2)]) (rule tame_append_child)

lemma tame_show_routes [intro]: "tame g (show_routes data g)"
  unfolding show_routes_def Let_def
  by (rule tame_set_then [of "(''routing'', ''table'')" "[]"], simp)
    (cases "object_entries data"; simp add: tame_print tame_entries)

lemma tame_show_catalog [intro]: "tame g (show_catalog data g)"
  unfolding show_catalog_def Let_def
  by (rule tame_set_then [of "(''catalog'', ''content'')" "[]"], simp)
    (cases "object_entries data"; simp add: tame_print tame_entries
      tame_set_then [of "(''catalog'', ''content'')", OF _ tame_print(2)])

section \<open>Tasks that report their failures\<close>

definition error_shown :: "string \<Rightarrow> gui \<Rightarrow> gui \<Rightarrow> bool" where
  "error_shown e g g' \<longleftrightarrow>
     (\<exists>what. flashes g' = flashes g @ [(next_flash g, createFlash ''error'' (what @ e))])"

definition wrong_status :: "response \<Rightarrow> string \<Rightarrow> string" where
  "wrong_status resp text =
     ''wrong status: '' @ show_nat (status resp) @ '' '' @ statusText resp @ '' - '' @ text"

text \<open>
  For the addresses in \<open>strict\<close>, a wrong status leaves the page alone and makes the handler wait for the text
  of the response, and then report it.
\<close>

inductive reports :: "(string \<Rightarrow> bool) \<Rightarrow> task \<Rightarrow> bool" for strict where
  reports_Fetch: "(\<And>e g. error_shown e g (fst (k (Inl e) g))) \<Longrightarrow>
     (\<And>resp g. strict url \<Longrightarrow> status resp \<noteq> 200 \<Longrightarrow>
        \<exists>c. k (Inr resp) g = (g, [Read_text resp c]) \<and>
          (\<forall>text g. error_shown (wrong_status resp text) g (fst (c (Inr text) g)))) \<Longrightarrow>
     (\<And>r g. tame g (fst (k r g))) \<Longrightarrow>
     (\<And>r g t. t \<in> set (snd (k r g)) \<Longrightarrow> reports strict t) \<Longrightarrow> reports strict (Fetch url opts k)"
| reports_text: "(\<And>e g. error_shown e g (fst (k (Inl e) g))) \<Longrightarrow>
     (\<And>r g. tame g (fst (k r g))) \<Longrightarrow>
     (\<And>r g t. t \<in> set (snd (k r g)) \<Longrightarrow> reports strict t) \<Longrightarrow> reports strict (Read_text resp k)"
| reports_json: "(\<And>e g. error_shown e g (fst (k (Inl e) g))) \<Longrightarrow>
     (\<And>r g. tame g (fst (k r g))) \<Longrightarrow>
     (\<And>r g t. t \<in> set (snd (k r g)) \<Longrightarrow> reports strict t) \<Longrightarrow> reports strict (Read_json resp k)"
| reports_blob: "(\<And>e g. error_shown e g (fst (k (Inl e) g))) \<Longrightarrow>
     (\<And>r g. tame g (fst (k r g))) \<Longrightarrow>
     (\<And>r g t. t \<in> set (snd (k r g)) \<Longrightarrow> reports strict t) \<Longrightarrow> reports strict (Read_blob resp k)"
| reports_svg: "(\<And>e g. error_shown e g (fst (k (Inl e) g))) \<Longrightarrow>
     (\<And>r g. tame g (fst (k r g))) \<Longrightarrow>
     (\<And>r g t. t \<in> set (snd (k r g)) \<Longrightarrow> reports strict t) \<Longrightarrow> reports strict (Render_svg src k)"
| reports_file: "(\<And>r g. tame g (fst (k r g))) \<Longrightarrow> (\<And>r g t. t \<in> set (snd (k r g)) \<Longrightarrow> reports strict t) \<Longrightarrow>
     reports strict (Read_file file k)"

inductive_cases reports_FetchE: "reports strict (Fetch url opts k)"

lemma reports_weaken: "reports strict t \<Longrightarrow> (\<And>url. strict' url \<Longrightarrow> strict url) \<Longrightarrow> reports strict' t"
  by (induction rule: reports.induct) (auto intro: reports.intros)

definition all_report :: "(string \<Rightarrow> bool) \<Rightarrow> act \<Rightarrow> bool" where
  "all_report strict a \<longleftrightarrow> (\<forall>g. \<forall>t\<in>set (snd (a g)). reports strict t)"

definition good :: "(string \<Rightarrow> bool) \<Rightarrow> act \<Rightarrow> bool" where
  "good strict a \<longleftrightarrow> all_report strict a \<and> (\<forall>g. tame g (fst (a g)))"

definition catches :: "(string \<Rightarrow> bool) \<Rightarrow> (string \<Rightarrow> act) \<Rightarrow> bool" where
  "catches strict c \<longleftrightarrow> (\<forall>e g. error_shown e g (fst (c e g))) \<and> (\<forall>e. good strict (c e))"

lemma all_reportD: "all_report strict a \<Longrightarrow> t \<in> set (snd (a g)) \<Longrightarrow> reports strict t"
  by (simp add: all_report_def)

lemma all_reportI: "(\<And>g. list_all (reports strict) (snd (h g))) \<Longrightarrow> all_report strict h"
  by (simp add: all_report_def list_all_iff)

lemma all_report_list: "all_report strict h \<Longrightarrow> list_all (reports strict) (snd (h g))"
  by (simp add: all_report_def list_all_iff)

lemma goodD:
  "good strict a \<Longrightarrow> all_report strict a"
  "good strict a \<Longrightarrow> t \<in> set (snd (a g)) \<Longrightarrow> reports strict t"
  "good strict a \<Longrightarrow> tame g (fst (a g))"
  by (auto simp: good_def all_report_def)

lemma all_report_now [intro]: "all_report strict (now f)"
  by (simp add: all_report_def now_def)

lemma good_now [intro]: "(\<And>g. tame g (f g)) \<Longrightarrow> good strict (now f)"
  by (simp add: good_def all_report_now) (simp add: now_def)

lemma good_await [intro]: "reports strict t \<Longrightarrow> good strict (await t)"
  by (simp add: good_def all_report_def await_def)

lemma all_report_andThen [intro]:
  "all_report strict a \<Longrightarrow> all_report strict b \<Longrightarrow> all_report strict (andThen a b)"
  by (fastforce simp: all_report_def andThen_def split_beta Let_def)

lemma good_andThen [intro]: "good strict a \<Longrightarrow> good strict b \<Longrightarrow> good strict (andThen a b)"
  unfolding good_def by (auto simp: andThen_def split_beta Let_def intro: tame_trans)

lemma catchesD:
  "catches strict c \<Longrightarrow> error_shown e g (fst (c e g))"
  "catches strict c \<Longrightarrow> good strict (c e)"
  by (auto simp: catches_def)

lemma catches_printError [intro]: "catches strict (\<lambda>e. now (printError (what @ e)))"
  unfolding catches_def
  by (intro conjI allI good_now tame_print) (auto simp: error_shown_def now_def printError_def append_flash_def)

lemma catches_andThen:
  "catches strict c \<Longrightarrow> good strict a \<Longrightarrow> (\<And>g. flashes (fst (a g)) = flashes g) \<Longrightarrow>
   catches strict (\<lambda>e. andThen (c e) a)"
  by (auto simp: catches_def intro: good_andThen)
    (simp add: error_shown_def andThen_def split_beta Let_def)

lemma good_case:
  assumes "catches strict catch" and "\<And>x. good strict (ok x)"
  shows "good strict (case r of Inl e \<Rightarrow> catch e | Inr x \<Rightarrow> ok x)"
  using assms by (auto dest: catchesD(2) split: sum.split)

lemmas case_facts = catchesD(1) goodD(3) [OF good_case] goodD(2) [OF good_case]

lemma good_await_text [intro]:
  assumes c: "catches strict catch" and ok: "\<And>x. good strict (ok x)"
  shows "good strict (await_text resp ok catch)"
  unfolding await_text_def
  by (intro good_await reports_text) (simp_all add: case_facts [OF c] case_facts(2,3) [OF c ok])

lemma good_await_json [intro]:
  assumes c: "catches strict catch" and ok: "\<And>x. good strict (ok x)"
  shows "good strict (await_json resp ok catch)"
  unfolding await_json_def
  by (intro good_await reports_json) (simp_all add: case_facts [OF c] case_facts(2,3) [OF c ok])

lemma good_blob [intro]:
  assumes c: "catches strict catch" and ok: "\<And>x. good strict (ok x)"
  shows "good strict (await (Read_blob resp (\<lambda>r. case r of Inl e \<Rightarrow> catch e | Inr x \<Rightarrow> ok x)))"
  by (intro good_await reports_blob) (simp_all add: case_facts [OF c] case_facts(2,3) [OF c ok])

lemma good_svg [intro]:
  assumes c: "catches strict catch" and ok: "\<And>x. good strict (ok x)"
  shows "good strict (await (Render_svg src (\<lambda>r. case r of Inl e \<Rightarrow> catch e | Inr x \<Rightarrow> ok x)))"
  by (intro good_await reports_svg) (simp_all add: case_facts [OF c] case_facts(2,3) [OF c ok])

lemma good_base_fetch [intro]:
  assumes c: "catches strict catch" and ok: "\<And>x. good strict (ok x)"
  shows "good strict (base_fetch addr opts ok catch)"
proof -
  define wait where "wait resp = Read_text resp (\<lambda>t. case t of Inl e \<Rightarrow> catch e
      | Inr text \<Rightarrow> catch (wrong_status resp text))" for resp
  have c': "good strict (catch e)" for e by (rule catchesD(2) [OF c])
  have wait: "reports strict (wait resp)" for resp
    unfolding wait_def
    by (rule reports_text) (simp_all add: case_facts [OF c] case_facts(2,3) [OF c c'])
  have ok': "good strict (if status resp \<noteq> 200 then await (wait resp) else ok resp)" for resp
    using ok wait by (simp add: good_await)
  have "reports strict (Fetch addr opts (\<lambda>r. case r of Inl e \<Rightarrow> catch e
      | Inr resp \<Rightarrow> if status resp \<noteq> 200 then await (wait resp) else ok resp))"
  proof (rule reports_Fetch)
    fix resp :: response and g
    assume "strict addr" "status resp \<noteq> 200"
    then show "\<exists>ca. (case Inr resp of Inl e \<Rightarrow> catch e
        | Inr resp \<Rightarrow> if status resp \<noteq> 200 then await (wait resp) else ok resp) g =
          (g, [Read_text resp ca]) \<and>
          (\<forall>text g. error_shown (wrong_status resp text) g (fst (ca (Inr text) g)))"
      by (auto simp: await_def wait_def intro: catchesD(1) [OF c])
  qed (simp_all only: sum.case case_facts(1) [OF c] case_facts(2,3) [OF c ok'])
  then show ?thesis
    unfolding base_fetch_def wait_def wrong_status_def by (rule good_await)
qed

section \<open>Every task of the page reports its failures\<close>

lemma all_report_form:
  assumes "validates h fs path"
    and "\<And>g. checkInputs (map (inputs g) fs) g = (g, True) \<Longrightarrow> list_all (reports strict) (snd (h g))"
  shows "all_report strict h"
proof (rule all_reportI)
  fix g
  show "list_all (reports strict) (snd (h g))"
  proof (cases "first_empty g fs")
    case None
    then have "checkInputs (map (inputs g) fs) g = (g, True)"
      by (simp add: checkInputs_find first_empty_def)
    with assms(2) show ?thesis .
  next
    case (Some f)
    with assms(1) have "h g = (printError (validation_error f) g, [])"
      by (rule validatesD(1))
    then show ?thesis by simp
  qed
qed

lemmas fetch_reports = all_report_list [OF goodD(1) [OF good_base_fetch]]

lemma good_at: "(\<And>g. list_all (reports strict) (snd (h g))) \<Longrightarrow> (\<And>g. fst (h g) = g) \<Longrightarrow> good strict h"
  by (simp add: good_def all_reportI)

lemma Routing_graph_good [intro]: "good strict (Routing_graph addr)"
  unfolding Routing_graph_def Let_def
  by (intro good_base_fetch good_await_text good_svg good_now catches_printError)
    (simp add: tame_set_then [of "(''routing'', ''graphviz'')", OF _ tame_append_child])

lemma Routing_update_good: "good strict Routing_update"
proof (rule good_at)
  fix g
  have "catches strict
      (\<lambda>e. andThen (now (printError (''Failed to fetch routing: '' @ e))) (Routing_graph addr))" for addr
    by (intro catches_andThen catches_printError Routing_graph_good)
      (simp add: Routing_graph_def Let_def)
  then show "list_all (reports strict) (snd (Routing_update g))"
    unfolding Routing_update_def Let_def
    by (intro fetch_reports good_await_json good_andThen good_now Routing_graph_good tame_show_routes)
  show "fst (Routing_update g) = g"
    by (simp add: Routing_update_def Let_def)
qed

lemma Catalog_update_good: "good strict Catalog_update"
  by (rule good_at, unfold Catalog_update_def Let_def)
    (intro fetch_reports good_await_json good_now catches_printError tame_show_catalog, simp)

lemma tame_comp: "(\<And>g. tame g (f g)) \<Longrightarrow> (\<And>g. tame g (f' g)) \<Longrightarrow> tame g ((f \<circ> f') g)"
  by (auto intro: tame_trans)

lemma tame_triggerDownload: "tame g (triggerDownload m d g)"
  by (simp add: tame_def triggerDownload_def)

lemma tame_show_searchFirst: "tame g (show_searchFirst text g)"
  unfolding show_searchFirst_def
  by (intro tame_comp tame_print tame_set_innerHTML) simp

lemma tame_result [intro]:
  "tame g (set_innerHTML (''dataSharing'', x) s g)" "tame g (set_innerHTML (''search'', x) s g)"
  "tame g (set_innerHTML (''naming'', x) s g)"
  by (auto intro!: tame_set_innerHTML)

lemmas report_intros = fetch_reports good_base_fetch good_await_text good_await_json good_blob
  good_svg good_andThen good_now catches_printError Routing_update_good Catalog_update_good
  tame_comp tame_print tame_addMsg tame_result tame_triggerDownload tame_show_searchFirst

lemma list_all_Nil: "list_all P []"
  by simp

lemma form_reports: "list_all (\<lambda>(e, fs, path). all_report strict (handler b e)) forms"
  using forms_validate [of b]
  unfolding forms_def list.pred_inject prod.case handler.simps
  by (elim conjE, intro conjI list_all_Nil; elim all_report_form)
    (simp_all only: form_handler_defs Let_def list.map split if_True if_False not_True_eq_False
      snd_conv, (intro report_intros)+)

lemma handler_reports: "all_report strict (handler b e)"
proof (cases "e \<in> fst ` set forms")
  case True
  then show ?thesis using form_reports [of strict b] by (auto simp: list_all_iff)
next
  case False
  then show ?thesis
  proof (cases e)
    case (Packet data)
    show ?thesis
      by (rule all_reportI)
        (simp add: Packet packetMessage_def now_def unhandled_rejection_def split: sum.split option.split)
  next
    case Click_dataSharing_upload
    have "good strict (upload_load addr r)" for addr r
      unfolding upload_load_def Let_def by (intro report_intros)
    then have "reports strict (Read_file f (upload_load addr))" for f addr
      by (intro reports_file) (auto dest: goodD)
    then show ?thesis
      by (intro all_reportI) (simp add: Click_dataSharing_upload DataSharing_upload_def await_def now_def split: list.split)
  next
    case Click_dataSharing_download
    have "list_all (reports strict) (snd (DataSharing_download g))" for g
      by (cases rule: checkInputs_cases [of "[inputs g (''dataSharing'', ''downloadMetahash'')]" g])
        (simp_all only: DataSharing_download_def Let_def split if_True if_False not_True_eq_False
          not_False_eq_True snd_conv, (rule list_all_Nil | intro report_intros)+)
    then show ?thesis by (intro all_reportI) (simp add: Click_dataSharing_download)
  next
    case Click_naming_resolve
    have "list_all (reports strict) (snd (Naming_resolve g))" for g
      unfolding Naming_resolve_def Let_def split_beta by (intro report_intros)
    then show ?thesis by (intro all_reportI) (simp add: Click_naming_resolve)
  qed (auto simp: forms_def packetError_def packetsScroll_def upload_progress_def
      intro: goodD(1) [OF Routing_update_good] goodD(1) [OF Catalog_update_good])
qed


section \<open>Reachable worlds\<close>

definition socket_address :: "string \<Rightarrow> bool" where
  "socket_address url \<longleftrightarrow> (\<exists>ep. url = ep @ ''/socket/address'')"

abbreviation checked :: "string \<Rightarrow> bool" where
  "checked \<equiv> \<lambda>url. \<not> socket_address url"

lemma socket_address_simps [simp]:
  "socket_address (ep @ ''/socket/address'')" "socket_address url \<Longrightarrow> socket_address (c # url)"
  unfolding socket_address_def by (blast, metis append_Cons)

lemma PeerInfo_response_reports:
  assumes "socket_address url"
  shows "reports checked (Fetch url None PeerInfo_response)"
proof -
  have c: "catches checked PeerInfo_catch"
    unfolding PeerInfo_catch_def by (rule catches_printError)
  have reading: "good checked (await_text resp PeerInfo_address PeerInfo_catch)" for resp
    by (intro good_await_text c) (auto simp: PeerInfo_address_def tame_def intro!: good_now)
  show ?thesis
    by (rule reports_Fetch) (use assms in \<open>simp_all add: PeerInfo_response_def
        case_facts(1) [OF c] case_facts(2,3) [OF c reading]\<close>)
qed

lemma PeerInfo_initialize_reports: "all_report checked (PeerInfo_initialize search)"
  by (rule all_reportI)
    (simp add: PeerInfo_initialize_def await_def unhandled_rejection_def now_def Let_def
        PeerInfo_response_reports split: sum.split uri_error.split)

definition flash_ok :: "gui \<Rightarrow> bool" where
  "flash_ok g \<longleftrightarrow> distinct (map fst (flashes g)) \<and> (\<forall>f\<in>set (flashes g). fst f < next_flash g)"

lemma flash_ok_tame: "tame g g' \<Longrightarrow> flash_ok g \<Longrightarrow> flash_ok g'"
  by (fastforce simp: tame_def flash_ok_def dest: set_zip_leftD)

lemma flash_ok_cong:
  "flash_ok g \<Longrightarrow> flashes g' = flashes g \<and> next_flash g' = next_flash g \<Longrightarrow> flash_ok g'"
  by (simp add: flash_ok_def)

lemma flash_ok_form:
  assumes "validates h fs path" and "flash_ok g"
  shows "flash_ok (fst (h g))"
proof (cases "first_empty g fs")
  case None
  from validatesD(2) [OF assms(1) this]
  have "flashes (fst (h g)) = flashes g \<and> next_flash (fst (h g)) = next_flash g" by blast
  with assms(2) show ?thesis by (rule flash_ok_cong)
next
  case (Some f)
  with assms(1) have "h g = (printError (validation_error f) g, [])"
    by (rule validatesD(1))
  with assms(2) show ?thesis by (auto intro: flash_ok_tame)
qed


lemma flash_ok_handler: "flash_ok g \<Longrightarrow> flash_ok (fst (handler b e g))"
proof (cases "e \<in> fst ` set forms")
  case True
  assume "flash_ok g"
  from True obtain fs path where "validates (handler b e) fs path"
    using forms_validate [of b] by (fastforce simp: list_all_iff)
  then show ?thesis using \<open>flash_ok g\<close> by (rule flash_ok_form)
next
  case False
  assume ok: "flash_ok g"
  note ok' = flash_ok_tame [OF _ ok]
  show ?thesis
  proof (cases e)
    case (Packet data)
    have t: "tame g (packet_history b pkt g)" for g pkt
      by (simp add: packet_history_def tame_def append_child_def Let_def)
    have u: "flash_ok (g\<lparr>unhandled := us\<rparr>)" for us
      using ok by (simp add: flash_ok_def)
    note shown = ok' [OF t] ok' [OF tame_trans [OF tame_addMsg t]] u
    show ?thesis
      unfolding Packet handler.simps packetMessage_def
      by (cases data; simp add: now_def unhandled_rejection_def shown split: sum.split option.split)
  next
    case (Close_flash i)
    with ok show ?thesis
      by (auto simp: now_def remove_flash_def flash_ok_def distinct_map inj_on_def)
  next
    case Click_dataSharing_download
    show ?thesis
      by (cases rule: checkInputs_cases [of "[inputs g (''dataSharing'', ''downloadMetahash'')]" g])
        (simp_all add: Click_dataSharing_download DataSharing_download_def ok ok' tame_print Let_def)
  next
    case Click_naming_resolve
    show ?thesis
      by (cases rule: checkInputs_cases [of "[inputs g (''naming'', ''resolveFilename'')]" g])
        (simp_all add: Click_naming_resolve Naming_resolve_def ok ok' tame_print Let_def)
  qed (use False in \<open>simp_all add: forms_def packetError_def packetsScroll_def upload_progress_def
      now_def await_def andThen_def DataSharing_upload_def ok ok' tame_print
      flash_ok_cong [OF ok] goodD(3) [OF Routing_update_good [of checked]]
      goodD(3) [OF Catalog_update_good [of checked]] split: list.split\<close>)
qed

definition world_ok :: "world \<Rightarrow> bool" where
  "world_ok w \<longleftrightarrow> distinct (map fst (pending w)) \<and>
     (\<forall>(i, t)\<in>set (pending w). i < next_task w \<and> reports checked t) \<and> flash_ok (page w)"

lemma world_ok_run:
  assumes w: "world_ok w" and r: "all_report checked a" and f: "flash_ok (fst (a (page w)))"
  shows "world_ok (run_act a w)"
proof -
  obtain g ts where a: "a (page w) = (g, ts)" by (cases "a (page w)")
  have new: "distinct (map fst (zip [n..<n + length ts] ts))" for n by simp
  have "(i, t) \<in> set (zip [n..<n + length ts] ts) \<Longrightarrow> n \<le> i \<and> i < n + length ts \<and> t \<in> set ts" for i t n
    by (auto dest: set_zip_leftD set_zip_rightD)
  moreover have "\<forall>t\<in>set ts. reports checked t"
    using r a all_reportD by (metis snd_conv)
  ultimately show ?thesis
    using w f a unfolding world_ok_def run_act_def
    by (auto simp: map_fst_zip_take split: prod.splits)
qed

lemma world_ok_delete: "world_ok w \<Longrightarrow> world_ok (w\<lparr>pending := Map_delete i (pending w)\<rparr>)"
  by (auto simp: world_ok_def set_Map_delete distinct_delete)

lemma resume_reports:
  assumes "reports strict t" "resume t a = Some k"
  shows "good strict k"
  using assms
  by (cases rule: reports.cases; cases a) (auto simp: good_def all_report_def now_def)

lemma world_ok_step: "world_step b w w' \<Longrightarrow> world_ok w \<Longrightarrow> world_ok w'"
proof (induction rule: world_step.induct)
  case (event b w e)
  then have "flash_ok (fst (handler b e (page w)))"
    by (simp add: world_ok_def flash_ok_handler)
  with event handler_reports show ?case by (rule world_ok_run)
next
  case (answer w i t a k b)
  from answer(1,3) have "reports checked t" by (auto simp: world_ok_def dest!: map_of_SomeD)
  then have good: "good checked k" using answer(2) by (rule resume_reports)
  show ?case
  proof (rule world_ok_run [OF world_ok_delete [OF answer(3)] goodD(1) [OF good]])
    show "flash_ok (fst (k (page (w\<lparr>pending := Map_delete i (pending w)\<rparr>))))"
      using answer(3) goodD(3) [OF good] by (auto simp: world_ok_def intro: flash_ok_tame)
  qed
qed

lemma world_ok_init: "world_ok (init_world search)"
  unfolding init_world_def
proof (rule world_ok_run)
  show "all_report checked (page_load search)"
    unfolding page_load_def
    by (intro all_report_andThen PeerInfo_initialize_reports goodD(1) [OF Routing_update_good]
        goodD(1) [OF Catalog_update_good]) (auto simp: Packets_initialize_def)
qed (simp_all add: world_ok_def flash_ok_def empty_page_def page_load_def andThen_def split_beta Let_def
    Routing_update_def Catalog_update_def PeerInfo_initialize_def Packets_initialize_def await_def unhandled_rejection_def now_def
    split: sum.split uri_error.split)

lemma reachable_ok: "reachable b search w \<Longrightarrow> world_ok w"
  by (induction rule: reachable.induct) (auto intro: world_ok_init world_ok_step)

end
