(* ===== verification/Gui_Settling.thy ===== *)
theory Gui_Settling
  imports Gui_Errors
begin

text \<open>
  A page left alone comes to rest: every pending task is done after a bounded number of answers,
  whatever the answers are and in whichever order they come.
\<close>

section \<open>How many answers a task takes\<close>

text \<open>
  \<open>done_within n t\<close>: the task, and all that its answers leave behind, is done after at most \<open>n\<close> answers.
\<close>

inductive done_within :: "nat \<Rightarrow> task \<Rightarrow> bool" where
  done_within: "(\<And>a k g. resume t a = Some k \<Longrightarrow> \<exists>ns. list_all2 done_within ns (snd (k g)) \<and> sum_list ns < n) \<Longrightarrow> done_within n t"
monos list.rel_mono_strong

inductive_cases withinE: "done_within n t"

definition settles :: "nat \<Rightarrow> task list \<Rightarrow> bool" where
  "settles n ts \<longleftrightarrow> (\<exists>ns. list_all2 done_within ns ts \<and> sum_list ns \<le> n)"

definition all_settle :: "nat \<Rightarrow> act \<Rightarrow> bool" where
  "all_settle n a \<longleftrightarrow> (\<forall>g. settles n (snd (a g)))"

lemma within_iff: "done_within n t \<longleftrightarrow> (\<forall>a k g. resume t a = Some k \<longrightarrow> (\<exists>m<n. settles m (snd (k g))))"
proof
  assume "done_within n t"
  then show "\<forall>a k g. resume t a = Some k \<longrightarrow> (\<exists>m<n. settles m (snd (k g)))"
    by (elim withinE) (metis settles_def order_refl)
next
  assume "\<forall>a k g. resume t a = Some k \<longrightarrow> (\<exists>m<n. settles m (snd (k g)))"
  then show "done_within n t"
    by (intro done_within) (metis settles_def le_less_trans)
qed

lemma settles_Nil [intro, simp]: "settles n []"
  by (simp add: settles_def)

lemma settles_mono: "settles m ts \<Longrightarrow> m \<le> n \<Longrightarrow> settles n ts"
  unfolding settles_def by (meson order_trans)

lemma settles_append: "settles m ts \<Longrightarrow> settles n us \<Longrightarrow> settles (m + n) (ts @ us)"
proof -
  assume "settles m ts" "settles n us"
  then obtain ms ns where "list_all2 done_within ms ts" "sum_list ms \<le> m" "list_all2 done_within ns us" "sum_list ns \<le> n"
    by (auto simp: settles_def)
  then show ?thesis
    by (auto simp: settles_def list_all2_appendI intro!: exI [of _ "ms @ ns"])
qed

lemma settles_one: "done_within n t \<Longrightarrow> settles n [t]"
  unfolding settles_def by (intro exI [of _ "[n]"]) simp

lemma within_answer: "done_within n t \<Longrightarrow> resume t a = Some k \<Longrightarrow> 0 < n \<and> settles (n - 1) (snd (k g))"
proof -
  assume "done_within n t" "resume t a = Some k"
  then obtain m where m: "m < n" "settles m (snd (k g))"
    unfolding within_iff by blast
  then have "0 < n" "m \<le> n - 1" by simp_all
  with m(2) show ?thesis by (blast intro: settles_mono)
qed

lemma all_settle_now [intro]: "all_settle n (now f)"
  by (simp add: all_settle_def now_def)

lemma all_settle_await: "done_within n t \<Longrightarrow> all_settle n (await t)"
  by (simp add: all_settle_def await_def settles_one)

lemma all_settle_andThen:
  "all_settle m a \<Longrightarrow> all_settle n b \<Longrightarrow> all_settle (m + n) (andThen a b)"
  by (simp add: all_settle_def andThen_def case_prod_unfold Let_def settles_append)

lemma all_settle_mono: "all_settle m a \<Longrightarrow> m \<le> n \<Longrightarrow> all_settle n a"
  unfolding all_settle_def by (meson settles_mono)

text \<open>One answer more than what the continuations leave behind.\<close>

lemma within_tasks:
  "(\<And>r. all_settle n (kf r)) \<Longrightarrow> done_within (Suc n) (Fetch url opts kf)"
  "(\<And>r. all_settle n (kt r)) \<Longrightarrow> done_within (Suc n) (Read_text resp kt)"
  "(\<And>r. all_settle n (kj r)) \<Longrightarrow> done_within (Suc n) (Read_json resp kj)"
  "(\<And>r. all_settle n (kb r)) \<Longrightarrow> done_within (Suc n) (Read_blob resp kb)"
  "(\<And>r. all_settle n (ks r)) \<Longrightarrow> done_within (Suc n) (Render_svg src ks)"
  "(\<And>r. all_settle n (kl r)) \<Longrightarrow> done_within (Suc n) (Read_file f kl)"
proof -
  have "settles 0 (snd (now id g))" for g by (simp add: now_def settles_def)
  then show "(\<And>r. all_settle n (kf r)) \<Longrightarrow> done_within (Suc n) (Fetch url opts kf)"
    "(\<And>r. all_settle n (kt r)) \<Longrightarrow> done_within (Suc n) (Read_text resp kt)"
    "(\<And>r. all_settle n (kj r)) \<Longrightarrow> done_within (Suc n) (Read_json resp kj)"
    "(\<And>r. all_settle n (kb r)) \<Longrightarrow> done_within (Suc n) (Read_blob resp kb)"
    "(\<And>r. all_settle n (ks r)) \<Longrightarrow> done_within (Suc n) (Render_svg src ks)"
    "(\<And>r. all_settle n (kl r)) \<Longrightarrow> done_within (Suc n) (Read_file f kl)"
    unfolding within_iff all_settle_def by (blast elim: resume_Some)+
qed

lemma all_settle_case:
  "(\<And>e. all_settle n (f e)) \<Longrightarrow> (\<And>x. all_settle n (h x)) \<Longrightarrow> all_settle n (case r of Inl e \<Rightarrow> f e | Inr x \<Rightarrow> h x)"
  by (cases r) auto

lemma all_settle_text:
  "(\<And>x. all_settle n (ok x)) \<Longrightarrow> (\<And>e. all_settle n (catch e)) \<Longrightarrow> all_settle (Suc n) (await_text resp ok catch)"
  unfolding await_text_def by (intro all_settle_await within_tasks all_settle_case)

lemma all_settle_json:
  "(\<And>x. all_settle n (ok x)) \<Longrightarrow> (\<And>e. all_settle n (catch e)) \<Longrightarrow> all_settle (Suc n) (await_json resp ok catch)"
  unfolding await_json_def by (intro all_settle_await within_tasks all_settle_case)

lemma all_settle_base_fetch:
  assumes "\<And>r. all_settle n (ok r)" "\<And>e. all_settle m (catch e)" "Suc m \<le> n"
  shows "all_settle (Suc n) (base_fetch addr opts ok catch)"
proof -
  have m: "all_settle n (catch e)" for e
    using assms(2) by (rule all_settle_mono) (use assms(3) in simp)
  have "all_settle (Suc m) (await (Read_text resp (\<lambda>t. case t of Inl e \<Rightarrow> catch e | Inr text \<Rightarrow> catch (f text))))" for resp f
    by (intro all_settle_await within_tasks all_settle_case assms(2))
  then have "all_settle n (await (Read_text resp (\<lambda>t. case t of Inl e \<Rightarrow> catch e | Inr text \<Rightarrow> catch (f text))))" for resp f
    by (rule all_settle_mono) (rule assms(3))
  with m assms(1) show ?thesis
    unfolding base_fetch_def by (intro all_settle_await within_tasks all_settle_case) auto
qed

section \<open>The handlers of the page\<close>

lemma settle_numerals: "2 = Suc (Suc 0)" "3 = Suc (Suc (Suc 0))" "5 = Suc (Suc 3)" "6 = Suc 5"
  by simp_all

lemma graph_settles: "all_settle 3 (Routing_graph addr)"
  unfolding Routing_graph_def Let_def settle_numerals
  by (intro all_settle_base_fetch [where m = 0] all_settle_text all_settle_await within_tasks all_settle_case
      all_settle_now) simp

lemma pointwise: "all_settle n a \<Longrightarrow> settles n (snd (a g))"
  by (simp add: all_settle_def)

lemma update_settles: "all_settle 5 Routing_update"
proof -
  have c: "all_settle 3 (andThen (now f) (Routing_graph addr))" for f addr
    using all_settle_andThen [OF all_settle_now [of 0 f] graph_settles] by simp
  show ?thesis
    unfolding all_settle_def Routing_update_def Let_def settle_numerals(3)
    by (intro allI pointwise all_settle_base_fetch [where m = 3] all_settle_json c) simp
qed

lemma catalog_settles: "all_settle 2 Catalog_update"
  unfolding all_settle_def Catalog_update_def Let_def settle_numerals(1)
  by (intro allI pointwise all_settle_base_fetch [where m = 0] all_settle_json all_settle_now) simp

lemma settles_at: "settles m (snd p) \<Longrightarrow> m \<le> n \<Longrightarrow> settles n (snd p)"
  by (rule settles_mono)

text \<open>A request whose answer ends the handler, or leaves \<open>n\<close> answers to wait for.\<close>

lemma request_settles:
  "(\<And>r. all_settle n (ok r)) \<Longrightarrow> (\<And>e. all_settle 0 (catch e)) \<Longrightarrow> 1 \<le> n \<Longrightarrow> n \<le> 5 \<Longrightarrow>
     settles 6 (snd (base_fetch addr opts ok catch g))"
  by (rule settles_mono [OF pointwise [OF all_settle_base_fetch [where n = n and m = 0]]]) simp_all

lemmas short_request = request_settles [where n = "Suc 0", OF _ all_settle_now]
lemmas short_intros = all_settle_text all_settle_await within_tasks all_settle_case all_settle_now

lemma form_settles:
  "settles 6 (snd (Unicast_send b g))" "settles 6 (snd (Broadcast_sendChat g))"
  "settles 6 (snd (Broadcast_sendPrivate g))" "settles 6 (snd (DataSharing_download g))"
  "settles 6 (snd (Search_searchAll g))" "settles 6 (snd (Search_searchFirst g))"
  "settles 6 (snd (Naming_resolve g))" "settles 6 (snd (Naming_tag g))" "settles 6 (snd (Catalog_add g))"
  unfolding Unicast_send_def Broadcast_sendChat_def Broadcast_sendPrivate_def DataSharing_download_def
    Search_searchAll_def Search_searchFirst_def Naming_resolve_def Naming_tag_def Catalog_add_def Let_def
  by (auto split: prod.split intro!: short_request short_intros
      request_settles [where n = 2, OF catalog_settles all_settle_now])

lemma change_settles: "settles 6 (snd (Routing_addPeer g))" "settles 6 (snd (Routing_setEntry g))"
proof -
  have "all_settle 5 (andThen (now f) Routing_update)" for f
    using all_settle_andThen [OF all_settle_now [of 0 f] update_settles] by simp
  then show "settles 6 (snd (Routing_addPeer g))" "settles 6 (snd (Routing_setEntry g))"
    unfolding Routing_addPeer_def Routing_setEntry_def Let_def
    by (auto split: prod.split intro!: request_settles [where n = 5, OF _ all_settle_now])
qed

lemma upload_settles: "settles 6 (snd (DataSharing_upload g))"
proof -
  have "all_settle (Suc (Suc 0)) (upload_load addr r)" for addr r
    unfolding all_settle_def upload_load_def Let_def
    by (intro allI pointwise all_settle_base_fetch [where m = 0] short_intros) simp
  then have "done_within 3 (Read_file f (upload_load addr))" for f addr
    unfolding settle_numerals by (intro within_tasks)
  then show ?thesis
    unfolding DataSharing_upload_def Let_def
    using settles_mono [OF settles_one, of 3 _ 6] by (auto simp: now_def await_def split: list.split)
qed

lemma handler_settles: "settles 6 (snd (handler b e g))"
proof (cases e)
  case (Packet data)
  then show ?thesis
    by (simp add: packetMessage_def now_def unhandled_rejection_def split: sum.split option.split)
next
  case Click_routing_update
  then show ?thesis by (auto intro: settles_mono [OF pointwise [OF update_settles]])
next
  case Click_catalog_update
  then show ?thesis by (auto intro: settles_mono [OF pointwise [OF catalog_settles]])
qed (auto simp: form_settles change_settles upload_settles now_def andThen_def packetsScroll_def packetError_def upload_progress_def)

lemma initialize_settles: "all_settle 2 (PeerInfo_initialize search)"
proof -
  have "all_settle (Suc 0) (PeerInfo_response r)" for r
    unfolding PeerInfo_response_def PeerInfo_catch_def PeerInfo_address_def by (intro short_intros)
  then have "done_within 2 (Fetch url None PeerInfo_response)" for url
    unfolding settle_numerals by (intro within_tasks)
  then show ?thesis
    unfolding all_settle_def PeerInfo_initialize_def
    by (auto simp: await_def unhandled_rejection_def now_def Let_def settles_one split: sum.split uri_error.split)
qed

lemma load_settles: "all_settle 9 (page_load search)"
  using all_settle_andThen [OF initialize_settles
      all_settle_andThen [OF update_settles all_settle_andThen [OF catalog_settles all_settle_now [of 0]]]]
  by (simp add: page_load_def Packets_initialize_def)

section \<open>Worlds\<close>

text \<open>A number of answers, one after the other and without an event in between.\<close>

inductive answers :: "nat \<Rightarrow> world \<Rightarrow> world \<Rightarrow> bool" where
  none: "answers 0 w w"
| more: "Map_get (pending w) i = Some t \<Longrightarrow> resume t a = Some k \<Longrightarrow>
     answers n (run_act k (w\<lparr>pending := Map_delete i (pending w)\<rparr>)) w' \<Longrightarrow> answers (Suc n) w w'"

definition world_within :: "nat \<Rightarrow> world \<Rightarrow> bool" where
  "world_within n w \<longleftrightarrow> settles n (map snd (pending w))"

lemma world_within_run:
  assumes "world_within m w" "settles n (snd (a (page w)))"
  shows "world_within (m + n) (run_act a w)"
  using settles_append [OF assms(1) [unfolded world_within_def] assms(2)]
  by (simp add: world_within_def run_act_def case_prod_unfold Let_def)

lemma settles_split:
  assumes "settles N (ts @ t # us)"
  shows "\<exists>m M. done_within m t \<and> settles M (ts @ us) \<and> m + M \<le> N"
proof -
  obtain ns where ns: "list_all2 done_within ns (ts @ t # us)" "sum_list ns \<le> N"
    using assms by (auto simp: settles_def)
  then obtain xs m ys where "ns = xs @ m # ys" "list_all2 done_within xs ts" "done_within m t" "list_all2 done_within ys us"
    by (auto simp: list_all2_append2 list_all2_Cons2)
  with ns(2) show ?thesis
    by (intro exI [of _ m] exI [of _ "sum_list (xs @ ys)"]) (auto simp: settles_def list_all2_appendI intro!: exI [of _ "xs @ ys"])
qed

lemma delete_notin: "i \<notin> fst ` set xs \<Longrightarrow> Map_delete i (xs @ ys) = xs @ Map_delete i ys"
  by (induction xs) auto

lemma delete_id: "i \<notin> fst ` set xs \<Longrightarrow> Map_delete i xs = xs"
  using delete_notin [of i xs "[]"] by simp

lemma Map_delete_split:
  assumes "Map_wf p" "Map_get p i = Some t"
  shows "\<exists>xs ys. p = xs @ (i, t) # ys \<and> Map_delete i p = xs @ ys"
proof -
  obtain xs ys where p: "p = xs @ (i, t) # ys"
    using assms(2) by (meson map_of_SomeD split_list)
  with assms(1) have "i \<notin> fst ` set xs" "i \<notin> fst ` set ys"
    by auto
  with p have "Map_delete i p = xs @ ys"
    by (simp add: delete_notin delete_id)
  with p show ?thesis by blast
qed

lemma answer_within:
  assumes "world_ok w" "world_within N w" "Map_get (pending w) i = Some t" "resume t a = Some k"
  shows "0 < N \<and> world_within (N - 1) (run_act k (w\<lparr>pending := Map_delete i (pending w)\<rparr>))"
proof -
  obtain xs ys where p: "pending w = xs @ (i, t) # ys" "Map_delete i (pending w) = xs @ ys"
    using Map_delete_split [OF _ assms(3)] assms(1) by (auto simp: world_ok_def)
  obtain m M where m: "done_within m t" "settles M (map snd (xs @ ys))" "m + M \<le> N"
    using settles_split [of N "map snd xs" t "map snd ys"] assms(2) by (auto simp: world_within_def p)
  have k: "0 < m" "settles (m - 1) (snd (k g))" for g
    using within_answer [OF m(1) assms(4)] by blast+
  have "world_within (M + (m - 1)) (run_act k (w\<lparr>pending := Map_delete i (pending w)\<rparr>))"
    by (rule world_within_run) (use m(2) p(2) k(2) in \<open>simp_all add: world_within_def\<close>)
  moreover have "M + (m - 1) \<le> N - 1" "0 < N"
    using m(3) k(1) by simp_all
  ultimately show ?thesis
    unfolding world_within_def by (blast intro: settles_mono)
qed

lemma answers_within: "answers n w w' \<Longrightarrow> world_ok w \<Longrightarrow> world_within N w \<Longrightarrow> n \<le> N \<and> world_ok w' \<and> world_within (N - n) w'"
proof (induction arbitrary: N rule: answers.induct)
  case (more w i t a k n w')
  from answer_within [OF more.prems more.hyps(1,2)]
  have "0 < N" "world_within (N - 1) (run_act k (w\<lparr>pending := Map_delete i (pending w)\<rparr>))" by auto
  moreover have "world_ok (run_act k (w\<lparr>pending := Map_delete i (pending w)\<rparr>))"
    by (rule world_ok_step [OF world_step.answer [OF more.hyps(1,2)] more.prems(1)])
  ultimately show ?case
    using more.IH [of "N - 1"] by auto
qed simp

lemma answers_snoc:
  "answers n w w' \<Longrightarrow> Map_get (pending w') i = Some t \<Longrightarrow> resume t a = Some k \<Longrightarrow>
     answers (Suc n) w (run_act k (w'\<lparr>pending := Map_delete i (pending w')\<rparr>))"
  by (induction rule: answers.induct) (auto intro: answers.intros)

lemma can_answer: "\<exists>a k. resume t a = Some k"
  by (cases t) (blast intro: resume.simps)+

lemma answers_go_on:
  assumes "answers n w w'" "world_ok w'" "pending w' \<noteq> []"
  shows "\<exists>w''. answers (Suc n) w w''"
proof -
  obtain i t where "Map_get (pending w') i = Some t"
    using assms(3) by (metis list.exhaust map_of_Cons_code(2) surj_pair)
  then show ?thesis
    using answers_snoc [OF assms(1)] can_answer [of t] by blast
qed

text \<open>Every task of a reachable world is done within six answers.\<close>

definition six_each :: "world \<Rightarrow> bool" where
  "six_each w \<longleftrightarrow> (\<forall>t\<in>set (map snd (pending w)). done_within 6 t)"

lemma within_mono: "done_within m t \<Longrightarrow> m \<le> n \<Longrightarrow> done_within n t"
  unfolding within_iff by (meson less_le_trans)

lemma settles_each: "settles n ts \<Longrightarrow> t \<in> set ts \<Longrightarrow> done_within n t"
  using settles_split [of n] by (metis add_leD1 split_list within_mono)

lemma six_each_run:
  "six_each w \<Longrightarrow> \<forall>t\<in>set (snd (a (page w))). done_within 6 t \<Longrightarrow> six_each (run_act a w)"
  by (auto simp: six_each_def run_act_def case_prod_unfold Let_def dest: set_zip_rightD)

lemma six_each_delete: "six_each w \<Longrightarrow> six_each (w\<lparr>pending := Map_delete i (pending w)\<rparr>)"
  by (auto simp: six_each_def set_Map_delete)

lemma load_each: "\<forall>t\<in>set (snd (page_load search g)). done_within 6 t"
proof -
  have "all_settle 6 (PeerInfo_initialize search)" "all_settle 6 Routing_update" "all_settle 6 Catalog_update"
    using all_settle_mono [OF initialize_settles] all_settle_mono [OF update_settles] all_settle_mono [OF catalog_settles] by simp_all
  then have "\<forall>t\<in>set (snd (PeerInfo_initialize search g)). done_within 6 t" "\<forall>t\<in>set (snd (Routing_update g)). done_within 6 t"
    "\<forall>t\<in>set (snd (Catalog_update g)). done_within 6 t" for g
    by (auto simp: all_settle_def intro: settles_each)
  then show ?thesis
    by (auto simp: page_load_def Packets_initialize_def andThen_def now_def case_prod_unfold Let_def)
qed

lemma reachable_six: "reachable b search w \<Longrightarrow> six_each w"
proof (induction rule: reachable.induct)
  case (load b search)
  then show ?case
    unfolding init_world_def by (intro six_each_run) (simp_all add: six_each_def load_each)
next
  case (step b search w w')
  from step.hyps(2) show ?case
  proof cases
    case (event e)
    have "\<forall>t\<in>set (snd (handler b e (page w))). done_within 6 t"
      using handler_settles settles_each by blast
    then show ?thesis
      unfolding event using step.IH by (intro six_each_run)
  next
    case (answer i t a k)
    have "done_within 6 t"
      using answer(2) step.IH by (auto simp: six_each_def dest!: map_of_SomeD)
    then have "settles (6 - 1) (snd (k g))" for g
      using within_answer answer(3) by blast
    then have "settles 6 (snd (k g))" for g
      using settles_mono [of "6 - 1" _ 6] by simp
    then have "\<forall>t\<in>set (snd (k g)). done_within 6 t" for g
      using settles_each by blast
    then show ?thesis
      unfolding answer(1) using step.IH by (intro six_each_run six_each_delete) auto
  qed
qed

lemma six_within: "six_each w \<Longrightarrow> world_within (6 * length (pending w)) w"
proof -
  have "\<forall>t\<in>set ts. done_within 6 t \<Longrightarrow> settles (6 * length ts) ts" for ts
    by (induction ts) (use settles_append [OF settles_one] in fastforce)+
  then show "six_each w \<Longrightarrow> ?thesis"
    by (metis six_each_def world_within_def length_map)
qed

end
