(* ===== verification/Gui_Properties.thy ===== *)
theory Gui_Properties
  imports Gui_Settling
begin

text \<open>
  What the page promises: its forms, its error messages, its views of the routing table, the
  catalog, the packets and the searches, and the address it talks to.
\<close>

section \<open>A loaded page\<close>

definition test_search :: string where
  "test_search = ''?addr=127.0.0.1:1''"

lemma test_PeerInfo:
  "\<exists>g. PeerInfo_initialize test_search empty_page =
     (g, [Fetch ''http://127.0.0.1:1/socket/address'' None PeerInfo_response]) \<and> endpoint g = Some ''http://127.0.0.1:1''"
proof -
  have "getQueryArgs test_search = [(''addr'', Some ''127.0.0.1:1'')]"
    by (simp add: test_search_def getQueryArgs_def query_item_def set_prop_def)
  moreover have "decodeURIComponent ''127.0.0.1:1'' = Inr ''127.0.0.1:1''"
    by code_simp
  ultimately show ?thesis
    by (simp add: PeerInfo_initialize_def await_def Let_def)
qed

lemma base_fetch_task: "\<exists>k. base_fetch addr opts ok catch g = (g, [Fetch addr opts k])"
  by (auto simp: base_fetch_def await_def)

lemma test_world:
  "\<exists>k c. pending (init_world test_search) =
     [(0, Fetch ''http://127.0.0.1:1/socket/address'' None PeerInfo_response),
      (1, Fetch ''http://127.0.0.1:1/messaging/routing'' None k),
      (2, Fetch ''http://127.0.0.1:1/datasharing/catalog'' None c)]"
proof -
  obtain g where p: "PeerInfo_initialize test_search empty_page =
     (g, [Fetch ''http://127.0.0.1:1/socket/address'' None PeerInfo_response])"
    and e: "endpoint g = Some ''http://127.0.0.1:1''"
    using test_PeerInfo by blast
  from e have url: "getAPIURL g suffix = ''http://127.0.0.1:1'' @ suffix" for suffix
    by (simp add: getAPIURL_def)
  obtain k where k: "Routing_update g = (g, [Fetch ''http://127.0.0.1:1/messaging/routing'' None k])"
    using base_fetch_task unfolding Routing_update_def Let_def url by fastforce
  obtain c where c: "Catalog_update g = (g, [Fetch ''http://127.0.0.1:1/datasharing/catalog'' None c])"
    using base_fetch_task unfolding Catalog_update_def Let_def url by fastforce
  show ?thesis
    by (simp add: init_world_def run_act_def page_load_def andThen_def p k c upt_rec Packets_initialize_def now_def)
qed

section \<open>Forms and errors\<close>



definition test_page :: gui where
  "test_page = empty_page\<lparr>endpoint := Some ''http://127.0.0.1:1''\<rparr>"


fun failure :: "answer \<Rightarrow> string option" where
  "failure (A_response (Inl e)) = Some e"
| "failure (A_text (Inl e)) = Some e"
| "failure (A_json (Inl e)) = Some e"
| "failure (A_blob (Inl e)) = Some e"
| "failure (A_svg (Inl e)) = Some e"
| "failure a = None"

lemma pending_reports:
  assumes "reachable b search w" "Map_get (pending w) i = Some t"
  shows "reports checked t"
  using reachable_ok [OF assms(1)] assms(2) by (auto simp: world_ok_def dest!: map_of_SomeD)

text \<open>C7: In every reachable state of the page, whatever the pending task, an answer that rejects its
  promise makes the handler append exactly one error message, whose text ends in the text of the
  exception.\<close>

theorem no_silent_failure:
  assumes "reachable b search w" "Map_get (pending w) i = Some t" "resume t a = Some k"
    and "failure a = Some e"
  shows "error_shown e (page w) (fst (k (page w)))"
  using pending_reports [OF assms(1,2)] assms(3,4)
  by (cases rule: reports.cases; cases a rule: failure.cases) auto

text \<open>C13: In every reachable state, a response whose status is not 200 to any request but that for
  the socket address changes nothing on the page; the handler waits for the text of the response
  and then reports status and text as an error.\<close>

theorem wrong_status_reported:
  assumes "reachable b search w" "Map_get (pending w) i = Some (Fetch url opts k)"
    and "\<not> socket_address url" "status resp \<noteq> 200"
  shows "\<exists>c. k (Inr resp) (page w) = (page w, [Read_text resp c]) \<and>
    (\<forall>text g. error_shown (wrong_status resp text) g (fst (c (Inr text) g)))"
  using pending_reports [OF assms(1,2)] assms(3,4) by (auto elim!: reports_FetchE)

text \<open>C20: In every reachable state, the answer to a pending task leaves the form fields, the chosen
  files, the address and the unhandled exceptions alone, only appends messages, under fresh
  numbers, and never takes a chat message away.\<close>

theorem answers_only_add:
  assumes "reachable b search w" "Map_get (pending w) i = Some t" "resume t a = Some k"
  shows "tame (page w) (fst (k (page w)))"
  using goodD(3) [OF resume_reports [OF pending_reports [OF assms(1,2)] assms(3)]] .

theorem no_silent_failure_witness:
  "error_shown ''TypeError: Failed to fetch'' (page (init_world test_search))
     (fst (PeerInfo_response (Inl ''TypeError: Failed to fetch'') (page (init_world test_search))))"
proof -
  obtain k c where w: "pending (init_world test_search) =
     [(0, Fetch ''http://127.0.0.1:1/socket/address'' None PeerInfo_response),
      (1, Fetch ''http://127.0.0.1:1/messaging/routing'' None k),
      (2, Fetch ''http://127.0.0.1:1/datasharing/catalog'' None c)]"
    using test_world by blast
  show ?thesis
    by (rule no_silent_failure [OF reachable.load, where i = 0
        and t = "Fetch ''http://127.0.0.1:1/socket/address'' None PeerInfo_response"
        and a = "A_response (Inl ''TypeError: Failed to fetch'')"]) (simp_all only: w, simp_all)
qed

theorem wrong_status_reported_witness:
  "\<exists>k c. Map_get (pending (init_world test_search)) 1 =
       Some (Fetch ''http://127.0.0.1:1/messaging/routing'' None k) \<and>
     k (Inr \<lparr>status = 500, statusText = ''Internal Server Error''\<rparr>) (page (init_world test_search)) =
       (page (init_world test_search),
        [Read_text \<lparr>status = 500, statusText = ''Internal Server Error''\<rparr> c])"
proof -
  let ?r = "\<lparr>status = 500, statusText = ''Internal Server Error''\<rparr>"
  obtain k c where w: "pending (init_world test_search) =
     [(0, Fetch ''http://127.0.0.1:1/socket/address'' None PeerInfo_response),
      (1, Fetch ''http://127.0.0.1:1/messaging/routing'' None k),
      (2, Fetch ''http://127.0.0.1:1/datasharing/catalog'' None c)]"
    using test_world by blast
  then have k: "Map_get (pending (init_world test_search)) 1 =
      Some (Fetch ''http://127.0.0.1:1/messaging/routing'' None k)" by simp
  have n: "\<not> socket_address ''http://127.0.0.1:1/messaging/routing''"
  proof
    assume "socket_address ''http://127.0.0.1:1/messaging/routing''"
    then obtain ep where "''http://127.0.0.1:1/messaging/routing'' = ep @ ''/socket/address''"
      by (auto simp: socket_address_def)
    then have "last ''http://127.0.0.1:1/messaging/routing'' = last (ep @ ''/socket/address'')" by simp
    then show False by simp
  qed
  from wrong_status_reported [OF reachable.load k n, of ?r] k show ?thesis by auto
qed

theorem answers_only_add_witness:
  "tame (page (init_world test_search))
     (fst (PeerInfo_response (Inr \<lparr>status = 200, statusText = ''OK''\<rparr>) (page (init_world test_search))))"
proof -
  obtain k c where w: "pending (init_world test_search) =
     [(0, Fetch ''http://127.0.0.1:1/socket/address'' None PeerInfo_response),
      (1, Fetch ''http://127.0.0.1:1/messaging/routing'' None k),
      (2, Fetch ''http://127.0.0.1:1/datasharing/catalog'' None c)]"
    using test_world by blast
  show ?thesis
    by (rule answers_only_add [OF reachable.load, where i = 0
        and t = "Fetch ''http://127.0.0.1:1/socket/address'' None PeerInfo_response"
        and a = "A_response (Inr \<lparr>status = 200, statusText = ''OK''\<rparr>)"]) (simp_all only: w, simp_all)
qed

text \<open>C8: From every reachable state the page comes to rest when it is left alone: whatever the
  answers are and in whichever order they come, after at most six answers for each pending task
  nothing is pending any more, and as long as a task is pending another answer can come.\<close>

theorem comes_to_rest:
  assumes "reachable b search w"
  shows "(\<forall>n w'. answers n w w' \<longrightarrow> n \<le> 6 * length (pending w) \<and> (pending w' = [] \<or> (\<exists>w''. answers (Suc n) w w''))) \<and>
    (\<exists>n w'. answers n w w' \<and> pending w' = [])"
proof -
  let ?N = "6 * length (pending w)"
  have ok: "world_ok w" "world_within ?N w"
    using assms reachable_ok reachable_six six_within by blast+
  have run: "n \<le> ?N \<and> (pending w' = [] \<or> (\<exists>w''. answers (Suc n) w w''))" if "answers n w w'" for n w'
    using answers_within [OF that ok] answers_go_on [OF that] by blast
  have "\<exists>m w'. answers m w w' \<and> (pending w' = [] \<or> n \<le> m)" for n
  proof (induction n)
    case (Suc n)
    then show ?case using run le_Suc_eq by (metis Suc_leI le_neq_implies_less not_less_eq_eq)
  qed (use answers.none in blast)
  then have "\<exists>m w'. answers m w w' \<and> (pending w' = [] \<or> Suc ?N \<le> m)" by blast
  with run show ?thesis by (metis not_less_eq_eq)
qed

theorem comes_to_rest_witness:
  "\<not> (\<exists>n w'. answers n (init_world test_search) w' \<and> 18 < n) \<and>
    (\<exists>n w'. answers n (init_world test_search) w' \<and> pending w' = [])"
proof -
  have "length (pending (init_world test_search)) = 3"
    using test_world by force
  then have "6 * length (pending (init_world test_search)) = 18" by simp
  with comes_to_rest [OF reachable.load, where search = test_search] show ?thesis by (auto simp: not_less)
qed

section \<open>What the page shows\<close>

text \<open>The text of a message is the words of its content with one space between them, before the
  close button and the progress bar; a blank content leaves the message without text.\<close>

lemma flash_text:
  "createFlash className s = Elem ''div'' [''flash-msg'', className]
     ((if words s = [] then [] else [Text (join_with (CHR '' '') (words s))]) @
      [Elem ''span'' [''closebtn''] [Raw ''&times;''], Elem ''span'' [''progress''] []])"
proof -
  have "join_with (CHR '' '') (words s) = [] \<longleftrightarrow> words s = []"
    using join_words_ends(1) [of "words s" "CHR '' ''"] words_well_formed [of _ s] by (cases "words s = []") auto
  then show ?thesis unfolding createFlash_def Let_def trim_collapse_words by simp
qed

lemma outputs_fold_append:
  "outputs (fold (\<lambda>x. append_child t (f x)) xs g) t' =
     (if t' = t then outputs g t @ map f xs else outputs g t')"
  by (induction xs arbitrary: g) (simp_all add: append_child_def)

lemma outputs_print [simp]: "outputs (printError e g) = outputs g" "outputs (printSuccess e g) = outputs g"
  by (simp_all add: printError_def printSuccess_def append_flash_def)

text \<open>After the routing table has been fetched the page has one row per entry of the answer, in
  its order, none of the rows it had before, and no other output is changed.\<close>

lemma routes_shown:
  "outputs (show_routes data g) (''routing'', ''table'') =
     (case object_entries data of Inl e \<Rightarrow> [] | Inr kvs \<Rightarrow> map routing_row kvs) \<and>
   (t = (''routing'', ''table'') \<or> outputs (show_routes data g) t = outputs g t)"
  by (cases "object_entries data") (auto simp: show_routes_def Let_def outputs_fold_append set_innerHTML_def)

text \<open>After the catalog has been fetched the page has one entry per chunk with its peers, or the
  remark that there are none, nothing of what it had before, and no other output is changed.\<close>

lemma catalog_shown:
  "outputs (show_catalog data g) (''catalog'', ''content'') =
     (case object_entries data of
        Inl e \<Rightarrow> []
      | Inr kvs \<Rightarrow> (if kvs = [] then [Raw ''<i>no elements</i>''] else map catalog_entry kvs)) \<and>
   (t = (''catalog'', ''content'') \<or> outputs (show_catalog data g) t = outputs g t)"
  by (cases "object_entries data") (auto simp: show_catalog_def Let_def outputs_fold_append set_innerHTML_def)

text \<open>A chain of property reads; \<open>None\<close> when one of them throws.\<close>

definition read_path :: "json \<Rightarrow> string list \<Rightarrow> jsval option" where
  "read_path pkt names =
     fold (\<lambda>p v. case v of None \<Rightarrow> None | Some v \<Rightarrow> (case get_prop v p of Inl e \<Rightarrow> None | Inr v \<Rightarrow> Some v)) names (Some (JV pkt))"

definition shown_packet :: "json \<Rightarrow> dnode" where
  "shown_packet pkt = Elem ''div'' [] [Raw (''<pre>'' @ stringify_pretty 0 pkt @ ''</pre>'')]"

definition shown_chat :: "browser \<Rightarrow> string option \<Rightarrow> jsval \<Rightarrow> jsval \<Rightarrow> jsval \<Rightarrow> dnode" where
  "shown_chat b self stamp source message =
     Elem ''div'' [if loose_eq source self then ''sent'' else ''received'']
       [Raw (''<div><p class=\"msg\">'' @ to_string message @ ''</p><p class=\"details\">from '' @ to_string source @
          '' at '' @ show_time (local_time b stamp) @ ''</p></div>'')]"

lemma read_path_simps [simp]:
  "read_path pkt [p] = (case get_prop (JV pkt) p of Inl e \<Rightarrow> None | Inr v \<Rightarrow> Some v)"
  "read_path pkt [p, q] = (case get_prop (JV pkt) p of Inl e \<Rightarrow> None | Inr v \<Rightarrow>
     (case get_prop v q of Inl e \<Rightarrow> None | Inr v \<Rightarrow> Some v))"
  "read_path pkt [p, q, r] = (case get_prop (JV pkt) p of Inl e \<Rightarrow> None | Inr v \<Rightarrow>
     (case get_prop v q of Inl e \<Rightarrow> None | Inr v \<Rightarrow> (case get_prop v r of Inl e \<Rightarrow> None | Inr v \<Rightarrow> Some v)))"
  by (simp_all add: read_path_def split: sum.split)

lemma chat_element_read:
  "case read_path pkt [''Msg'', ''Type''] of
     None \<Rightarrow> (\<exists>e. chat_element b self (JV pkt) = Inl e)
   | Some type \<Rightarrow>
       if \<not> loose_eq type (Some ''chat'') then chat_element b self (JV pkt) = Inr None
       else (case (read_path pkt [''Header'', ''Timestamp''], read_path pkt [''Header'', ''Source''],
              read_path pkt [''Msg'', ''Payload'', ''Message'']) of
               (Some stamp, Some source, Some message) \<Rightarrow>
                 chat_element b self (JV pkt) = Inr (Some (shown_chat b self stamp source message))
             | _ \<Rightarrow> (\<exists>e. chat_element b self (JV pkt) = Inl e))"
proof (cases "get_prop (JV pkt) ''Msg''")
  case msg: (Inr msg)
  show ?thesis
  proof (cases "get_prop msg ''Type''")
    case type: (Inr type)
    show ?thesis
    proof (cases "loose_eq type (Some ''chat'')")
      case chat: True
      show ?thesis
      proof (cases "get_prop (JV pkt) ''Header''")
        case (Inl e)
        with msg type chat show ?thesis unfolding chat_element_def read_path_simps by simp
      next
        case (Inr header)
        with msg type chat show ?thesis
          unfolding chat_element_def read_path_simps shown_chat_def
          by (cases "get_prop header ''Timestamp''"; cases "get_prop header ''Source''"; cases "get_prop msg ''Payload''")
            (simp_all del: append.simps split: sum.split)
      qed
    qed (use msg type in \<open>simp add: chat_element_def\<close>)
  qed (use msg in \<open>simp add: chat_element_def\<close>)
qed (simp add: chat_element_def)

lemma packetMessage_chat:
  "chat_element b (socketAddr g) (JV pkt) = Inl e \<Longrightarrow> packetMessage b (Inr pkt) g = (g\<lparr>unhandled := unhandled g @ [e]\<rparr>, [])"
  "chat_element b (socketAddr g) (JV pkt) = Inr None \<Longrightarrow>
     snd (packetMessage b (Inr pkt) g) = [] \<and> unhandled (fst (packetMessage b (Inr pkt) g)) = unhandled g \<and>
     outputs (fst (packetMessage b (Inr pkt) g)) =
       (outputs g)((''packets'', ''packets'') := outputs g (''packets'', ''packets'') @ [shown_packet pkt])"
  "chat_element b (socketAddr g) (JV pkt) = Inr (Some el) \<Longrightarrow>
     snd (packetMessage b (Inr pkt) g) = [] \<and> unhandled (fst (packetMessage b (Inr pkt) g)) = unhandled g \<and>
     outputs (fst (packetMessage b (Inr pkt) g)) =
       (outputs g)((''packets'', ''packets'') := outputs g (''packets'', ''packets'') @ [shown_packet pkt],
          (''messaging'', ''messages'') := outputs g (''messaging'', ''messages'') @ [el])"
  by (simp_all add: packetMessage_def unhandled_rejection_def now_def packet_history_def addMsg_def append_child_def
      Let_def shown_packet_def fun_eq_iff)

text \<open>C29: A pushed packet is shown exactly as its type asks: if its type is not chat, the packet is
  appended to the packets in full and no other output changes; a chat packet is appended to the
  packets in full and to the messages with its text, its source and its local time, as sent if
  the source is the peer's own address and as received otherwise. If the type, or of a chat
  packet the time, source or text, cannot be read, or the data is no JSON, the page is left as
  it is but for the exception.\<close>

theorem packet_recorded:
  "case data of
     Inl e \<Rightarrow> packetMessage b data g = (g\<lparr>unhandled := unhandled g @ [e]\<rparr>, [])
   | Inr pkt \<Rightarrow>
       (let r = packetMessage b data g; packets = (''packets'', ''packets''); messages = (''messaging'', ''messages'');
            old = outputs g; fails = (\<exists>e. r = (g\<lparr>unhandled := unhandled g @ [e]\<rparr>, []));
            shown = old(packets := old packets @ [shown_packet pkt])
        in case read_path pkt [''Msg'', ''Type''] of
             None \<Rightarrow> fails
           | Some type \<Rightarrow>
               if \<not> loose_eq type (Some ''chat'')
               then snd r = [] \<and> unhandled (fst r) = unhandled g \<and> outputs (fst r) = shown
               else (case (read_path pkt [''Header'', ''Timestamp''], read_path pkt [''Header'', ''Source''],
                      read_path pkt [''Msg'', ''Payload'', ''Message'']) of
                       (Some stamp, Some source, Some message) \<Rightarrow>
                         snd r = [] \<and> unhandled (fst r) = unhandled g \<and>
                         outputs (fst r) = shown(messages := old messages @ [shown_chat b (socketAddr g) stamp source message])
                     | _ \<Rightarrow> fails))"
proof (cases data)
  case (Inl e)
  then show ?thesis by (simp add: packetMessage_def unhandled_rejection_def now_def)
next
  case (Inr pkt)
  from chat_element_read [where pkt = pkt and b = b and self = "socketAddr g"] packetMessage_chat [where b = b and g = g and pkt = pkt] show ?thesis
    unfolding Inr sum.case Let_def
    by (cases "read_path pkt [''Msg'', ''Type'']"; cases "read_path pkt [''Header'', ''Timestamp'']";
        cases "read_path pkt [''Header'', ''Source'']"; cases "read_path pkt [''Msg'', ''Payload'', ''Message'']")
      (auto simp only: option.case prod.case split: if_splits)
qed

text \<open>A chat packet is appended to the messages with its text, its source and its local time, as
  sent when its source is the peer's own socket address and as received otherwise.\<close>

lemma chat_shown:
  assumes "Map_get pkt ''Msg'' = Some (JObj msg)" "Map_get msg ''Type'' = Some (JStr ''chat'')"
    and "Map_get pkt ''Header'' = Some (JObj header)" "Map_get header ''Source'' = Some (JStr source)"
    and "Map_get msg ''Payload'' = Some (JObj payload)" "Map_get payload ''Message'' = Some (JStr message)"
    and "Map_get header ''Timestamp'' = Some stamp"
  shows "outputs (fst (packetMessage b (Inr (JObj pkt)) g)) (''messaging'', ''messages'') =
    outputs g (''messaging'', ''messages'') @
      [Elem ''div'' [if socketAddr g = Some source then ''sent'' else ''received'']
        [Raw (''<div><p class=\"msg\">'' @ message @ ''</p><p class=\"details\">from '' @ source @ '' at '' @
           show_time (local_time b (JV stamp)) @ ''</p></div>'')]]"
proof -
  have "loose_eq (JV (JStr source)) (socketAddr g) \<longleftrightarrow> socketAddr g = Some source"
    by (cases "socketAddr g") auto
  then have "chat_element b (socketAddr g) (JV (JObj pkt)) = Inr (Some (Elem ''div''
      [if socketAddr g = Some source then ''sent'' else ''received'']
        [Raw (''<div><p class=\"msg\">'' @ message @ ''</p><p class=\"details\">from '' @ source @ '' at '' @
           show_time (local_time b (JV stamp)) @ ''</p></div>'')]))"
    unfolding chat_element_def using assms by (simp del: append.simps)
  then show ?thesis
    by (simp add: packetMessage_def now_def packet_history_def addMsg_def append_child_def Let_def)
qed

text \<open>After any number of clicks a collapsible title is active exactly when the number is even
  and it was active, or odd and it was not, and its content is displayed exactly while it is
  active.\<close>

lemma collapsible_parity:
  "(collapsible_click ^^ n) (initCollapsible_one c) =
     c\<lparr>active := (active c \<noteq> odd n), display := (if active c \<noteq> odd n then ''block'' else ''none'')\<rparr>"
  by (induction n) (auto simp: initCollapsible_one_def collapsible_click_def)

section \<open>What the page sends\<close>



text \<open>C32: The progress shown during an upload, computed with doubles as the browser does, is a whole
  number of at most 100, within half a percent of the share that has been loaded but for the
  error of the two roundings, at most 2^-45; 29 of 200 are shown as 14.\<close>

theorem progress_bounds:
  assumes "0 < loaded" "loaded \<le> tot"
  shows "\<exists>p. upload_progress loaded tot g = (printSuccess (''File upload progress: '' @ show_nat p) g, []) \<and>
    p \<le> 100 \<and> \<bar>rat_of_nat p - 100 * (rat_of_nat loaded / rat_of_nat tot)\<bar> \<le> 1 / 2 + 1 / 2 ^ 45"
proof -
  have t: "0 < tot" using assms by simp
  show ?thesis
    using percentage_le [OF assms(2) t] percentage_close [OF assms(2) t] assms t
    by (intro exI [of _ "percentage loaded tot"]) (simp add: upload_progress_def now_def)
qed

theorem progress_bounds_witness:
  "upload_progress 29 200 test_page = (printSuccess ''File upload progress: 14'' test_page, []) \<and>
   (\<exists>p \<le> 100. upload_progress 29 200 test_page = (printSuccess (''File upload progress: '' @ show_nat p) test_page, []))"
proof -
  have "show_nat 14 = ''14''" by code_simp
  then have "upload_progress 29 200 test_page = (printSuccess ''File upload progress: 14'' test_page, [])"
    by (simp add: upload_progress_def percentage_29_200 now_def)
  then show ?thesis using progress_bounds [of 29 200 test_page] by auto
qed

text \<open>C40: Resolving a file name sends its request even when the field is empty, next to the message
  that the form is incomplete.\<close>

theorem naming_resolve_unchecked:
  "requests (snd (Naming_resolve g)) =
     [(getAPIURL g (''/datasharing/naming?name='' @ value_of (inputs g (''naming'', ''resolveFilename''))), None)] \<and>
   fst (Naming_resolve g) =
     (if filled (inputs g (''naming'', ''resolveFilename'')) then g
      else printError (validation_error (inputs g (''naming'', ''resolveFilename''))) g)"
  by (simp add: Naming_resolve_def Let_def checkInputs_find getAPIURL_def printError_def append_flash_def)

text \<open>Whatever the status of the response to the request for the socket address, its text becomes
  the address of the peer and no message is shown.\<close>

lemma peer_status_ignored:
  "\<exists>c. PeerInfo_response (Inr resp) g = (g, [Read_text resp c]) \<and>
     socketAddr (fst (c (Inr text) g')) = Some text \<and> flashes (fst (c (Inr text) g')) = flashes g'"
  by (simp add: PeerInfo_response_def await_text_def await_def PeerInfo_address_def now_def)

text \<open>A number in a search field is read with leading blanks and a sign and up to the first
  character that is no digit, and the request carries it as the budget.\<close>

lemma budget_parsed:
  assumes "list_all is_space s" "rest = [] \<or> digit_value (hd rest) = None"
  shows "parseInt (s @ show_nat n @ rest) = Num (int n) \<and> parseInt (s @ ''-'' @ show_nat n @ rest) = Num (- int n) \<and>
    Map_get (case searchAll_packet p (s @ show_nat n @ rest) t of JObj kvs \<Rightarrow> kvs | _ \<Rightarrow> []) ''Budget'' =
      Some (JNum (Num (int n)))"
proof -
  obtain c cs where c: "show_nat n = c # cs" by (cases "show_nat n") auto
  have dig: "is_digit_char c" using show_nat_digits [of n] c by simp
  then have ns: "\<not> is_space c" "c \<noteq> CHR ''-''" "c \<noteq> CHR ''+''" "\<not> is_space (CHR ''-'')"
    by (auto simp: is_digit_char_def is_space_def)
  have t: "trimStart (s @ show_nat n @ rest) = show_nat n @ rest"
    "trimStart (s @ ''-'' @ show_nat n @ rest) = ''-'' @ show_nat n @ rest"
    using assms(1) ns c by (simp_all add: trimStart_def list_all_iff dropWhile_append2)
  have "parseInt (s @ show_nat n @ rest) = Num (int n)"
    unfolding parseInt_def t Let_def using ns parse_magnitude_show [OF assms(2), of n] by (simp add: c)
  moreover have "parseInt (s @ ''-'' @ show_nat n @ rest) = Num (- int n)"
    unfolding parseInt_def t Let_def using parse_magnitude_show [OF assms(2), of n] by simp
  ultimately show ?thesis by (simp add: searchAll_packet_def)
qed

text \<open>A page with text in every field.\<close>

definition filled_page :: gui where
  "filled_page = test_page\<lparr>inputs := (\<lambda>t. \<lparr>iname = snd t, ivalue = Some ''text''\<rparr>)\<rparr>"

text \<open>With an origin filled in, setting a routing entry sends one request; a positive answer is
  reported as a deletion exactly when the relay is empty, and makes the page fetch the routing
  table again.\<close>

lemma change_then_refresh:
  assumes "first_empty g [(''routing'', ''origin'')] = None"
  shows "\<exists>args k. Routing_setEntry g = (g, [Fetch (getAPIURL g ''/messaging/routing'') (Some args) k]) \<and>
    (\<forall>resp g'. fst (k (Inr (resp\<lparr>status := 200\<rparr>)) g') =
       printSuccess (if value_of (inputs g (''routing'', ''relay'')) = [] then ''Entry deleted'' else ''Entry set'') g' \<and>
     requests (snd (k (Inr (resp\<lparr>status := 200\<rparr>)) g')) = [(getAPIURL g' ''/messaging/routing'', None)])"
  using assms
  by (auto simp: Routing_setEntry_def checkInputs_find first_empty_def Let_def base_fetch_def await_def now_def
      andThen_def Routing_update_def split_beta getAPIURL_def printSuccess_def append_flash_def)

end
