(* ===== verification/Node_Page.thy ===== *)
theory Node_Page
  imports Dom
begin

text \<open>
  The elements of \<^verbatim>\<open>src/gui/web/node.html\<close>, as a browser parses the file: attribute names in
  lower case, tags in upper case, and the table bodies and rows the parser adds. Text and the
  contents of the drawings (\<^verbatim>\<open>svg\<close>) are left out; the elements are numbered in document order.
\<close>

definition page_flash :: node where
  "page_flash =
    Node 6 ''DIV'' [(''data-controller'', ''flash''), (''id'', ''flash''), (''class'', ''flash'')] [
     Node 7 ''DIV'' [(''data-flash-target'', ''wrapper''), (''id'', ''flash-wrapper'')] []]"

definition page_peerInfo :: node where
  "page_peerInfo =
    Node 10 ''TABLE'' [(''data-controller'', ''peerInfo''), (''id'', ''peerInfo''),
       (''class'', ''peer-info'')] [
     Node 11 ''TBODY'' [] [
      Node 12 ''TR'' [] [
       Node 13 ''TD'' [] [],
       Node 14 ''TD'' [(''data-peerinfo-target'', ''peerAddr'')] []],
      Node 15 ''TR'' [] [
       Node 16 ''TD'' [] [],
       Node 17 ''TD'' [(''data-peerinfo-target'', ''socketAddr'')] []]]]"

definition page_messaging :: node where
  "page_messaging =
    Node 18 ''DIV'' [(''data-controller'', ''messaging''), (''id'', ''messaging''),
       (''class'', ''messaging'')] [
     Node 19 ''H2'' [(''class'', ''collapsible'')] [],
     Node 20 ''DIV'' [(''data-messaging-target'', ''holder''), (''class'', ''holder'')] [
      Node 21 ''DIV'' [(''data-messaging-target'', ''messages''), (''class'', ''chat-messages'')] []]]"

definition page_unicast :: node where
  "page_unicast =
    Node 22 ''DIV'' [(''class'', ''unicast''), (''data-controller'', ''unicast'')] [
     Node 23 ''H2'' [(''class'', ''collapsible'')] [],
     Node 24 ''DIV'' [] [
      Node 25 ''H3'' [] [],
      Node 26 ''DIV'' [(''class'', ''unicast-chat-form'')] [
       Node 27 ''TEXTAREA'' [(''data-unicast-target'', ''message''), (''name'', ''message''),
          (''placeholder'', ''write your message here...'')] [],
       Node 28 ''DIV'' [(''class'', ''message'')] [
        Node 29 ''INPUT'' [(''data-unicast-target'', ''destination''), (''name'', ''destination''),
           (''type'', ''text''), (''placeholder'', ''127.0.0.1:0 (destination)'')] [],
        Node 30 ''BUTTON'' [(''data-action'', ''click->unicast#send'')] [
         Node 31 ''svg'' [] []]]]]]"

definition page_broadcast :: node where
  "page_broadcast =
    Node 32 ''DIV'' [(''data-controller'', ''broadcast''), (''class'', ''broadcast'')] [
     Node 33 ''H2'' [(''class'', ''collapsible'')] [],
     Node 34 ''DIV'' [] [
      Node 35 ''DIV'' [] [
       Node 36 ''H3'' [] [],
       Node 37 ''DIV'' [(''class'', ''broadcast-chat-form'')] [
        Node 38 ''TEXTAREA'' [(''data-broadcast-target'', ''chatMessage''), (''name'', ''message''),
           (''placeholder'', ''write your message here...'')] [],
        Node 39 ''BUTTON'' [(''data-action'', ''click->broadcast#sendChat'')] [
         Node 40 ''svg'' [] []]]],
      Node 41 ''DIV'' [] [
       Node 42 ''H3'' [] [],
       Node 43 ''DIV'' [(''class'', ''broadcast-chat-form'')] [
        Node 44 ''TEXTAREA'' [(''data-broadcast-target'', ''privateMessage''), (''name'', ''message''),
           (''placeholder'', ''write your message here...'')] [],
        Node 45 ''DIV'' [(''class'', ''message'')] [
         Node 46 ''INPUT'' [(''data-broadcast-target'', ''privateRecipients''), (''name'', ''recipients''),
            (''type'', ''text''), (''placeholder'', ''127.0.0.1:0,127.0.0.1:1,...'')] [],
         Node 47 ''BUTTON'' [(''data-action'', ''click->broadcast#sendPrivate'')] [
          Node 48 ''svg'' [] []]]]]]]"

definition page_routing :: node where
  "page_routing =
    Node 49 ''DIV'' [(''data-controller'', ''routing''), (''class'', ''routing'')] [
     Node 50 ''H2'' [(''class'', ''collapsible'')] [],
     Node 51 ''DIV'' [] [
      Node 52 ''TABLE'' [] [
       Node 53 ''THEAD'' [] [
        Node 54 ''TR'' [] [
         Node 55 ''TH'' [] [],
         Node 56 ''TH'' [] []]],
       Node 57 ''TBODY'' [(''data-routing-target'', ''table'')] []],
      Node 58 ''P'' [(''class'', ''collapsible sub'')] [],
      Node 59 ''DIV'' [(''data-routing-target'', ''graphviz''), (''class'', ''graphviz'')] [],
      Node 60 ''BUTTON'' [(''data-action'', ''click->routing#update'')] [
       Node 61 ''svg'' [] []],
      Node 62 ''H3'' [] [],
      Node 63 ''DIV'' [(''class'', ''add-peer'')] [
       Node 64 ''INPUT'' [(''data-routing-target'', ''peer''), (''name'', ''peer''), (''type'', ''text''),
          (''placeholder'', ''127.0.0.1:0'')] [],
       Node 65 ''BUTTON'' [(''data-action'', ''click->routing#addPeer'')] [
        Node 66 ''svg'' [] []]],
      Node 67 ''H3'' [] [],
      Node 68 ''DIV'' [(''class'', ''set-entry'')] [
       Node 69 ''INPUT'' [(''data-routing-target'', ''origin''), (''name'', ''origin''),
          (''type'', ''text''), (''placeholder'', ''127.0.0.1:0 (origin)'')] [],
       Node 70 ''INPUT'' [(''data-routing-target'', ''relay''), (''name'', ''relay''),
          (''type'', ''text''), (''placeholder'', ''127.0.0.1:0 (relay)'')] [],
       Node 71 ''BUTTON'' [(''data-action'', ''click->routing#setEntry'')] [
        Node 72 ''svg'' [] []]]]]"

definition page_catalog :: node where
  "page_catalog =
    Node 73 ''DIV'' [(''data-controller'', ''catalog''), (''class'', ''catalog'')] [
     Node 74 ''H2'' [(''class'', ''collapsible'')] [],
     Node 75 ''DIV'' [] [
      Node 76 ''DIV'' [(''data-catalog-target'', ''content''), (''class'', ''content'')] [],
      Node 77 ''BUTTON'' [(''data-action'', ''click->catalog#update'')] [
       Node 78 ''svg'' [] []],
      Node 79 ''H3'' [] [],
      Node 80 ''DIV'' [(''class'', ''add-catalog-entry'')] [
       Node 81 ''INPUT'' [(''data-catalog-target'', ''key''), (''name'', ''key''), (''type'', ''text''),
          (''placeholder'', ''aef123...'')] [],
       Node 82 ''INPUT'' [(''data-catalog-target'', ''value''), (''name'', ''value''),
          (''type'', ''text''), (''placeholder'', ''127.0.0.1:0'')] [],
       Node 83 ''BUTTON'' [(''data-action'', ''click->catalog#add'')] [
        Node 84 ''svg'' [] []]]]]"

definition page_dataSharing :: node where
  "page_dataSharing =
    Node 85 ''DIV'' [(''data-controller'', ''dataSharing''), (''class'', ''data'')] [
     Node 86 ''H2'' [(''class'', ''collapsible'')] [],
     Node 87 ''DIV'' [] [
      Node 88 ''H3'' [] [],
      Node 89 ''DIV'' [(''data-datasharing-target'', ''uploadResult''), (''class'', ''upload-result'')] [],
      Node 90 ''INPUT'' [(''data-datasharing-target'', ''fileUpload''), (''type'', ''file'')] [],
      Node 91 ''BUTTON'' [(''data-action'', ''click->dataSharing#upload'')] [
       Node 92 ''svg'' [] []],
      Node 93 ''H3'' [] [],
      Node 94 ''INPUT'' [(''data-datasharing-target'', ''downloadMetahash''), (''type'', ''text''),
         (''placeholder'', ''metahash'')] [],
      Node 95 ''BUTTON'' [(''data-action'', ''click->dataSharing#download'')] [
       Node 96 ''svg'' [] []]]]"

definition page_search :: node where
  "page_search =
    Node 97 ''DIV'' [(''data-controller'', ''search''), (''class'', ''search'')] [
     Node 98 ''H2'' [(''class'', ''collapsible'')] [],
     Node 99 ''DIV'' [] [
      Node 100 ''H3'' [] [],
      Node 101 ''DIV'' [(''data-search-target'', ''searchAllResult''), (''class'', ''search-all-result'')] [],
      Node 102 ''INPUT'' [(''data-search-target'', ''searchAllPattern''), (''name'', ''pattern''),
         (''type'', ''type''), (''placeholder'', ''pattern (.*)'')] [],
      Node 103 ''INPUT'' [(''data-search-target'', ''searchAllBudget''), (''name'', ''budget''),
         (''type'', ''number''), (''placeholder'', ''budget (3)'')] [],
      Node 104 ''INPUT'' [(''data-search-target'', ''searchAllTimeout''), (''name'', ''timeout''),
         (''type'', ''type''), (''placeholder'', ''timeout (1s)'')] [],
      Node 105 ''BUTTON'' [(''data-action'', ''click->search#searchAll'')] [
       Node 106 ''svg'' [] []],
      Node 107 ''H3'' [] [],
      Node 108 ''DIV'' [(''data-search-target'', ''searchFirstResult''),
         (''class'', ''search-first-result'')] [],
      Node 109 ''INPUT'' [(''data-search-target'', ''searchFirstPattern''), (''name'', ''pattern''),
         (''type'', ''type''), (''placeholder'', ''pattern (.*)'')] [],
      Node 110 ''INPUT'' [(''data-search-target'', ''searchFirstInitialBudget''), (''name'', ''budget''),
         (''type'', ''number''), (''placeholder'', ''initial budget (1)'')] [],
      Node 111 ''INPUT'' [(''data-search-target'', ''searchFirstFactor''), (''name'', ''factor''),
         (''type'', ''number''), (''placeholder'', ''factor (2)'')] [],
      Node 112 ''INPUT'' [(''data-search-target'', ''searchFirstRetry''), (''name'', ''retry''),
         (''type'', ''number''), (''placeholder'', ''retry (5)'')] [],
      Node 113 ''INPUT'' [(''data-search-target'', ''searchFirstTimeout''), (''name'', ''timeout''),
         (''type'', ''type''), (''placeholder'', ''timeout (1s)'')] [],
      Node 114 ''BUTTON'' [(''data-action'', ''click->search#searchFirst'')] [
       Node 115 ''svg'' [] []]]]"

definition page_naming :: node where
  "page_naming =
    Node 116 ''DIV'' [(''data-controller'', ''naming''), (''class'', ''naming'')] [
     Node 117 ''H2'' [(''class'', ''collapsible'')] [],
     Node 118 ''DIV'' [] [
      Node 119 ''H3'' [] [],
      Node 120 ''DIV'' [(''data-naming-target'', ''resolveResult''), (''class'', ''result'')] [],
      Node 121 ''INPUT'' [(''data-naming-target'', ''resolveFilename''), (''name'', ''filename''),
         (''type'', ''text''), (''placeholder'', ''filename'')] [],
      Node 122 ''BUTTON'' [(''data-action'', ''click->naming#resolve'')] [
       Node 123 ''svg'' [] []],
      Node 124 ''H3'' [] [],
      Node 125 ''INPUT'' [(''data-naming-target'', ''tagFilename''), (''name'', ''filename''),
         (''type'', ''text''), (''placeholder'', ''filename'')] [],
      Node 126 ''INPUT'' [(''data-naming-target'', ''tagMetahash''), (''name'', ''metahash''),
         (''type'', ''text''), (''placeholder'', ''metahash (aef123...)'')] [],
      Node 127 ''BUTTON'' [(''data-action'', ''click->naming#tag'')] [
       Node 128 ''svg'' [] []]]]"

definition page_packets :: node where
  "page_packets =
    Node 129 ''DIV'' [(''data-controller'', ''packets''), (''class'', ''packets-holder'')] [
     Node 130 ''H2'' [(''class'', ''active collapsible'')] [],
     Node 131 ''DIV'' [(''class'', ''checkbox'')] [
      Node 132 ''INPUT'' [(''data-packets-target'', ''follow''), (''type'', ''checkbox''),
         (''id'', ''follow-checkbox''), (''checked'', '''')] [],
      Node 133 ''LABEL'' [(''for'', ''follow-checkbox'')] []],
     Node 134 ''DIV'' [] [
      Node 135 ''DIV'' [(''data-packets-target'', ''holder''), (''class'', ''packets-top-scroll-holder'')] [
       Node 136 ''DIV'' [(''data-packets-target'', ''scroll'')] []],
      Node 137 ''DIV'' [(''data-packets-target'', ''packets''), (''class'', ''packets'')] []]]"

definition node_page :: document where
  "node_page = \<lparr>root = Node 0 ''HTML'' [] [
    Node 1 ''HEAD'' [] [
     Node 2 ''TITLE'' [] [],
     Node 3 ''LINK'' [(''rel'', ''stylesheet''), (''href'', ''assets/stylesheets/main.css'')] [],
     Node 4 ''META'' [(''charset'', ''UTF-8'')] []],
    Node 5 ''BODY'' [] [page_flash,
      Node 8 ''H1'' [] [
 Node 9 ''SUP'' [] []],
      page_peerInfo,
      page_messaging,
      page_unicast,
      page_broadcast,
      page_routing,
      page_catalog,
      page_dataSharing,
      page_search,
      page_naming,
      page_packets,
      Node 138 ''SCRIPT'' [(''src'', ''assets/scripts/stimulus.js'')] [],
      Node 139 ''SCRIPT'' [(''src'', ''assets/scripts/viz.js'')] [],
      Node 140 ''SCRIPT'' [(''src'', ''assets/scripts/viz.lite.render.js'')] [],
      Node 141 ''SCRIPT'' [(''src'', ''assets/scripts/main.js'')] [],
      Node 142 ''SCRIPT'' [(''type'', ''text/javascript'')] []]],
   detached = []\<rparr>"

end
