(* ===== verification/Main_Page.thy ===== *)
theory Main_Page
  imports Gui_World Application_Start Inheritance Node_Page
begin

text \<open>
  The function \<open>main\<close> of \<^verbatim>\<open>src/gui/web/assets/scripts/main.js\<close> on the page
  \<^verbatim>\<open>node.html\<close>: the framework and the controllers of the page together. The classes of
  \<^verbatim>\<open>main.js\<close> declare their targets; the buttons of the page name their methods.
\<close>

section \<open>What the classes declare\<close>

definition Flash_targets :: "string list" where
  "Flash_targets = [''wrapper'']"

definition PeerInfo_targets :: "string list" where
  "PeerInfo_targets = [''peerAddr'', ''socketAddr'']"

definition Messaging_targets :: "string list" where
  "Messaging_targets = [''holder'', ''messages'']"

definition Unicast_targets :: "string list" where
  "Unicast_targets = [''message'', ''destination'']"

definition Routing_targets :: "string list" where
  "Routing_targets = [''table'', ''graphviz'', ''peer'', ''origin'', ''relay'']"

definition Packets_targets :: "string list" where
  "Packets_targets = [''follow'', ''holder'', ''scroll'', ''packets'']"

definition Broadcast_targets :: "string list" where
  "Broadcast_targets = [''chatMessage'', ''privateMessage'', ''privateRecipients'']"

definition Catalog_targets :: "string list" where
  "Catalog_targets = [''content'', ''key'', ''value'']"

definition DataSharing_targets :: "string list" where
  "DataSharing_targets = [''uploadResult'', ''fileUpload'', ''downloadMetahash'']"

definition Search_targets :: "string list" where
  "Search_targets = [''searchAllResult'', ''searchAllPattern'', ''searchAllBudget'', ''searchAllTimeout'',
     ''searchFirstResult'', ''searchFirstPattern'', ''searchFirstInitialBudget'',
     ''searchFirstFactor'', ''searchFirstRetry'', ''searchFirstTimeout'']"

definition Naming_targets :: "string list" where
  "Naming_targets = [''resolveResult'', ''resolveFilename'', ''tagFilename'', ''tagMetahash'']"

section \<open>The classes of the page\<close>

text \<open>
  A class with its static targets, its methods and its getters, and the class it extends.
\<close>

definition page_class_of ::
    "string list option \<Rightarrow> string list \<Rightarrow> string list \<Rightarrow> constructor_fn \<Rightarrow> constructor_fn" where
  "page_class_of targets methods getters parent =
     Constructor
       (\<lambda>p. if p = ''targets'' then map_option Static_array targets else None)
       (map_of ([(m, Data (Own_member m)). m \<leftarrow> ''constructor'' # methods] @
          [(g, Accessor (Some (Own_member g)) None). g \<leftarrow> getters]))
       (Some parent)"

definition BaseElement_class :: constructor_fn where
  "BaseElement_class = page_class_of None [''checkInputs'', ''fetch''] [''flash'', ''peerInfo''] Controller_class"

definition Flash_class :: constructor_fn where
  "Flash_class = page_class_of (Some Flash_targets) [''printError'', ''printSuccess'', ''createFlash''] [] Controller_class"

definition PeerInfo_class :: constructor_fn where
  "PeerInfo_class = page_class_of (Some PeerInfo_targets) [''initialize'', ''getAPIURL'', ''getQueryArgs''] [''flash''] Controller_class"

definition Messaging_class :: constructor_fn where
  "Messaging_class = page_class_of (Some Messaging_targets) [''addMsg''] [] BaseElement_class"

definition Unicast_class :: constructor_fn where
  "Unicast_class = page_class_of (Some Unicast_targets) [''send''] [''messagingController''] BaseElement_class"

definition Routing_class :: constructor_fn where
  "Routing_class = page_class_of (Some Routing_targets) [''initialize'', ''update'', ''addPeer'', ''setEntry''] [] BaseElement_class"

definition Packets_class :: constructor_fn where
  "Packets_class = page_class_of (Some Packets_targets) [''initialize'', ''packetMessage'', ''packetError'', ''packetsScroll'']
     [''messagingController''] BaseElement_class"

definition Broadcast_class :: constructor_fn where
  "Broadcast_class = page_class_of (Some Broadcast_targets) [''sendChat'', ''sendPrivate''] [] BaseElement_class"

definition Catalog_class :: constructor_fn where
  "Catalog_class = page_class_of (Some Catalog_targets) [''initialize'', ''update'', ''add''] [] BaseElement_class"

definition DataSharing_class :: constructor_fn where
  "DataSharing_class = page_class_of (Some DataSharing_targets) [''upload'', ''download'', ''triggerDownload''] [] BaseElement_class"

definition Search_class :: constructor_fn where
  "Search_class = page_class_of (Some Search_targets) [''searchAll'', ''searchFirst''] [] BaseElement_class"

definition Naming_class :: constructor_fn where
  "Naming_class = page_class_of (Some Naming_targets) [''resolve'', ''tag''] [] BaseElement_class"

section \<open>The classes of main\<close>

text \<open>The registrations of \<open>main\<close>, in their order, with the targets of the registered class.\<close>

definition registrations :: "(string \<times> string list) list" where
  "registrations =
     [(''flash'', Flash_targets), (''peerInfo'', PeerInfo_targets), (''messaging'', Messaging_targets),
      (''unicast'', Unicast_targets), (''routing'', Routing_targets), (''packets'', Packets_targets),
      (''broadcast'', Broadcast_targets), (''catalog'', Catalog_targets), (''dataSharing'', DataSharing_targets),
      (''search'', Search_targets), (''naming'', Naming_targets)]"

text \<open>The same registrations with the classes themselves.\<close>

definition registered_classes :: "(string \<times> constructor_fn) list" where
  "registered_classes =
     [(''flash'', Flash_class), (''peerInfo'', PeerInfo_class), (''messaging'', Messaging_class),
      (''unicast'', Unicast_class), (''routing'', Routing_class), (''packets'', Packets_class),
      (''broadcast'', Broadcast_class), (''catalog'', Catalog_class), (''dataSharing'', DataSharing_class),
      (''search'', Search_class), (''naming'', Naming_class)]"

text \<open>
  A class of the page for the framework: it declares no values and has an \<open>initialize\<close> method at
  most. An asynchronous one never throws, its promise is rejected instead.
\<close>

definition page_class :: "(string \<Rightarrow> 'u \<Rightarrow> 'u) \<Rightarrow> string \<Rightarrow> 'u controller_class" where
  "page_class init ident =
     \<lparr>value_declarations = [], changed_method = (\<lambda>_. None),
      initialize_method = (\<lambda>doc sc u. (init ident u, None)), connect_method = (\<lambda>doc sc u. (u, None)),
      disconnect_method = (\<lambda>doc sc u. (u, None))\<rparr>"

definition run_initialize :: "act \<Rightarrow> gui \<times> task list \<Rightarrow> gui \<times> task list" where
  "run_initialize a gts = (let (g, ts) = gts; (g, ts') = a g in (g, ts @ ts'))"

text \<open>The \<open>initialize\<close> methods of the classes.\<close>

definition page_initialize :: "string \<Rightarrow> string \<Rightarrow> gui \<times> task list \<Rightarrow> gui \<times> task list" where
  "page_initialize search ident =
     (if ident = ''peerInfo'' then run_initialize (PeerInfo_initialize search)
      else if ident = ''routing'' then run_initialize Routing_update
      else if ident = ''catalog'' then run_initialize Catalog_update
      else if ident = ''packets'' then run_initialize Packets_initialize
      else id)"

section \<open>Looking around in the page\<close>

definition getElementById :: "document \<Rightarrow> string \<Rightarrow> nat option" where
  "getElementById doc name = List.find (\<lambda>i. getAttribute doc i ''id'' = Some name) (ids (root doc))"

definition getElementsByClassName :: "document \<Rightarrow> string \<Rightarrow> nat list" where
  "getElementsByClassName doc name = filter (\<lambda>i. matches doc i (Has_word ''class'' name)) (ids (root doc))"

fun sibling_after :: "nat \<Rightarrow> node list \<Rightarrow> nat option" where
  "sibling_after i (m # n # ns) = (if nid m = i then Some (nid n) else sibling_after i (n # ns))"
| "sibling_after i ns = None"

definition nextElementSibling :: "document \<Rightarrow> nat \<Rightarrow> nat option" where
  "nextElementSibling doc i =
     (case List.find (\<lambda>n. sibling_after i (nkids n) \<noteq> None) (all_nodes doc) of
        None \<Rightarrow> None | Some n \<Rightarrow> sibling_after i (nkids n))"

text \<open>The getters \<open>flash\<close>, \<open>peerInfo\<close> and \<open>messagingController\<close>.\<close>

definition controller_by_id :: "document \<Rightarrow> 'u application \<Rightarrow> string \<Rightarrow> context_state option" where
  "controller_by_id doc a name =
     (case getElementById doc name of
        None \<Rightarrow> None
      | Some e \<Rightarrow> Application_getControllerForElementAndIdentifier e name a)"

text \<open>
  \<open>initCollapsible\<close>: each collapsible title with its content, which is shown when the title is
  active. A title without a sibling after it makes the function throw.
\<close>

fun initCollapsible_from :: "document \<Rightarrow> nat list \<Rightarrow> string + (nat \<times> nat \<times> collapsible) list" where
  "initCollapsible_from doc [] = Inr []"
| "initCollapsible_from doc (i # is) =
     (case nextElementSibling doc i of
        None \<Rightarrow> Inl ''TypeError: content is null''
      | Some c \<Rightarrow>
          bind_sum (initCollapsible_from doc is) (\<lambda>rest.
            Inr ((i, c, initCollapsible_one
              \<lparr>active = matches doc i (Has_word ''class'' ''active''), display = []\<rparr>) # rest)))"

definition initCollapsible :: "document \<Rightarrow> string + (nat \<times> nat \<times> collapsible) list" where
  "initCollapsible doc = initCollapsible_from doc (getElementsByClassName doc ''collapsible'')"

section \<open>The function main\<close>

text \<open>
  \<open>Application.start\<close> waits for the document to be ready before it starts the dispatcher and the
  router, so the classes are registered, and the titles are prepared, before the first controller
  is made.
\<close>

definition main ::
    "(string \<Rightarrow> 'u \<Rightarrow> 'u) \<Rightarrow> document \<Rightarrow> 'u \<Rightarrow> 'u application \<times> (string + (nat \<times> nat \<times> collapsible) list)" where
  "main init doc u =
     (let application = Application_new (nid (root doc)) defaultSchema u;
          application = fold (\<lambda>ident. Application_register doc ident (page_class init ident))
            (map fst registrations) application;
          titles = initCollapsible doc
      in (Application_start doc application, titles))"

section \<open>The buttons\<close>

text \<open>The actions the page declares, in document order, as the framework reads them.\<close>

definition page_actions :: "document \<Rightarrow> (string + action) list" where
  "page_actions doc = concat (map (\<lambda>e.
     case getAttribute doc e (actionAttribute defaultSchema) of
       None \<Rightarrow> []
     | Some v \<Rightarrow> map (Action_forToken doc) (parseTokenString 0 v e (actionAttribute defaultSchema)))
     (ids (root doc)))"

text \<open>The method a button names, and the event of the page model it stands for.\<close>

fun button_event :: "string \<times> string \<Rightarrow> event option" where
  "button_event (ident, meth) = map_of
     [((''unicast'', ''send''), Click_unicast_send),
      ((''broadcast'', ''sendChat''), Click_broadcast_sendChat),
      ((''broadcast'', ''sendPrivate''), Click_broadcast_sendPrivate),
      ((''routing'', ''update''), Click_routing_update),
      ((''routing'', ''addPeer''), Click_routing_addPeer),
      ((''routing'', ''setEntry''), Click_routing_setEntry),
      ((''catalog'', ''update''), Click_catalog_update),
      ((''catalog'', ''add''), Click_catalog_add),
      ((''dataSharing'', ''upload''), Click_dataSharing_upload),
      ((''dataSharing'', ''download''), Click_dataSharing_download),
      ((''search'', ''searchAll''), Click_search_searchAll),
      ((''search'', ''searchFirst''), Click_search_searchFirst),
      ((''naming'', ''resolve''), Click_naming_resolve),
      ((''naming'', ''tag''), Click_naming_tag)] (ident, meth)"

end
