(* ===== verification/Dom_Query.thy ===== *)
theory Dom_Query
  imports Scope
begin

text \<open>
  Queries that stay inside the tree of one element: the elements below it that match a selector,
  and the nearest of their ancestors that does.
\<close>

section \<open>Paths inside a tree\<close>

lemma path_to_empty: "j \<notin> set (ids n) \<Longrightarrow> path_to j n = []"
proof (induction j n rule: path_to.induct)
  case (1 j i t a ks)
  have "path_to j k = []" if "k \<in> set ks" for k
    using 1 that by (auto simp: ids_def)
  then have "concat (map (path_to j) ks) = []" by simp
  with 1(2) show ?case by (simp add: ids_def del: concat_eq_Nil_conv)
qed

lemma concat_path_to:
  assumes "distinct (map nid (concat (map nodes ks)))" "k \<in> set ks" "j \<in> set (ids k)"
  shows "concat (map (path_to j) ks) = path_to j k"
  using assms
proof (induction ks)
  case (Cons m ks)
  have one: "set (ids m) \<inter> (\<Union>k\<in>set ks. set (ids k)) = {}"
    using Cons.prems(1) by (auto simp: ids_def)
  show ?case
  proof (cases "k = m")
    case True
    with one Cons.prems(3) have "path_to j k' = []" if "k' \<in> set ks" for k'
      using that by (intro path_to_empty) auto
    then have "concat (map (path_to j) ks) = []" by simp
    with True show ?thesis by simp
  next
    case False
    with Cons.prems(2) have k: "k \<in> set ks" by simp
    with one Cons.prems(3) have "path_to j m = []" by (intro path_to_empty) auto
    with Cons.IH [OF _ k Cons.prems(3)] Cons.prems(1) show ?thesis by simp
  qed
qed simp

lemma path_to_last:
  "j \<in> set (ids n) \<Longrightarrow> distinct (map nid (nodes n)) \<Longrightarrow> path_to j n \<noteq> [] \<and> last (path_to j n) = n"
proof (induction j n rule: path_to.induct)
  case (1 j i t a ks)
  show ?case
  proof (cases "i = j")
    case False
    with 1(2) obtain k where k: "k \<in> set ks" "j \<in> set (ids k)" by (auto simp: ids_def)
    have d: "distinct (map nid (concat (map nodes ks)))" using 1(3) by simp
    from 1(1) [OF False k distinct_map_nodesD [OF d k(1)]] concat_path_to [OF d k]
    show ?thesis using False by (auto split: list.split)
  qed simp
qed

lemma path_to_below:
  assumes "distinct (map nid (nodes t))" "n \<in> set (nodes t)" "j \<in> set (ids n)"
  shows "\<exists>rest. path_to j t = path_to j n @ rest"
  using assms
proof (induction j t rule: path_to.induct)
  case (1 j i tag a ks)
  show ?case
  proof (cases "n = Node i tag a ks")
    case False
    with 1(3) obtain k where k: "k \<in> set ks" "n \<in> set (nodes k)" by auto
    then have j: "j \<in> set (ids k)" using 1(4) nodes_trans by (fastforce simp: ids_def)
    have d: "distinct (map nid (concat (map nodes ks)))" and i: "i \<notin> nid ` set (concat (map nodes ks))"
      using 1(2) by simp_all
    from j k(1) have "j \<in> nid ` set (concat (map nodes ks))" by (auto simp: ids_def)
    with i have ij: "i \<noteq> j" by auto
    from 1(1) [OF ij k(1) distinct_map_nodesD [OF d k(1)] k(2) 1(4)]
    obtain rest where rest: "path_to j k = path_to j n @ rest" by blast
    have "path_to j (Node i tag a ks) = path_to j k @ [Node i tag a ks]"
      using ij concat_path_to [OF d k(1) j] path_to_last [OF j distinct_map_nodesD [OF d k(1)]]
      by (auto split: list.split)
    with rest show ?thesis by simp
  qed auto
qed

lemma inclusive_ancestors_below:
  assumes wf: "document_wf doc" and n: "get_node doc i = Some n" and j: "j \<in> set (ids n)"
  shows "\<exists>rest. inclusive_ancestors doc j = path_to j n @ rest"
proof -
  from get_node_SomeD [OF n] obtain t where t: "t \<in> set (trees doc)" "n \<in> set (nodes t)"
    by (auto simp: all_nodes_def)
  then have jt: "j \<in> set (ids t)" using j nodes_trans by (fastforce simp: ids_def)
  have d: "distinct (map nid (concat (map nodes (trees doc))))"
    using wf by (simp add: document_wf_def all_nodes_def)
  from concat_path_to [OF d t(1) jt] path_to_below [OF distinct_map_nodesD [OF d t(1)] t(2) j]
  show ?thesis by (auto simp: inclusive_ancestors_def)
qed

section \<open>Queries inside the element of a scope\<close>

lemma querySelectorAll_nodes:
  assumes wf: "document_wf doc" and n: "get_node doc i = Some n"
  shows "querySelectorAll doc i sel = map nid (filter (node_matches sel) (tl (nodes n)))"
proof -
  have "matches doc (nid m) sel = node_matches sel m" if "m \<in> set (nodes n)" for m
    using get_node_below [OF wf n that] by (simp add: matches_def)
  then have "filter (\<lambda>j. matches doc j sel) (map nid ms) = map nid (filter (node_matches sel) ms)"
    if "set ms \<subseteq> set (nodes n)" for ms
    using that by (induction ms) auto
  from this [of "tl (nodes n)"] n show ?thesis
    by (simp add: querySelectorAll_def ids_def map_tl list.set_sel(2) subsetI)
qed

text \<open>\<open>belongs csel n j\<close>: the nearest element around \<open>j\<close> that matches \<open>csel\<close> is \<open>n\<close> itself.\<close>

definition belongs :: "selector \<Rightarrow> node \<Rightarrow> nat \<Rightarrow> bool" where
  "belongs csel n j \<longleftrightarrow>
     (case List.find (node_matches csel) (path_to j n) of None \<Rightarrow> False | Some m \<Rightarrow> nid m = nid n)"

lemma closest_below:
  assumes wf: "document_wf doc" and n: "get_node doc i = Some n" and j: "j \<in> set (ids n)"
    and csel: "node_matches csel n"
  shows "closest doc j csel = Some i \<longleftrightarrow> belongs csel n j"
proof -
  obtain rest where rest: "inclusive_ancestors doc j = path_to j n @ rest"
    using inclusive_ancestors_below [OF wf n j] by blast
  have "n \<in> set (path_to j n)"
    using path_to_last [OF j distinct_ids [OF wf n]] last_in_set by metis
  then have "List.find (node_matches csel) (path_to j n) \<noteq> None"
    using csel by (auto simp: find_None_iff)
  then obtain m where m: "List.find (node_matches csel) (path_to j n) = Some m" by blast
  have "List.find P (xs @ ys) = Some m" if "List.find P xs = Some m" for P xs and ys :: "node list"
    using that by (induction xs) (auto split: if_splits)
  from this [OF m] m show ?thesis
    using get_node_SomeD [OF n] by (auto simp: closest_def rest belongs_def)
qed

definition local_find :: "selector \<Rightarrow> selector \<Rightarrow> node \<Rightarrow> node list" where
  "local_find csel sel n = filter (\<lambda>m. node_matches sel m \<and> belongs csel n (nid m)) (nodes n)"

lemma findAllElements_local:
  assumes wf: "document_wf doc" and n: "get_node doc (scope_element sc) = Some n"
    and csel: "node_matches (Scope_controllerSelector sch sc) n"
  shows "Scope_findAllElements sch doc sc sel = map nid (local_find (Scope_controllerSelector sch sc) sel n)"
proof -
  let ?csel = "Scope_controllerSelector sch sc"
  have e: "nid n = scope_element sc" using get_node_SomeD [OF n] by simp
  have "Scope_containsElement sch doc sc (nid m) = belongs ?csel n (nid m)" if "m \<in> set (nodes n)" for m
    using closest_below [OF wf n _ csel, of "nid m"] that by (simp add: Scope_containsElement_def ids_def)
  then have below: "filter (Scope_containsElement sch doc sc) (map nid (filter (node_matches sel) ms)) =
      map nid (filter (\<lambda>m. node_matches sel m \<and> belongs ?csel n (nid m)) ms)" if "set ms \<subseteq> set (nodes n)" for ms
    using that by (induction ms) auto
  have "set (tl (nodes n)) \<subseteq> set (nodes n)" by (auto intro: list.set_sel(2) [OF nodes_neq_Nil])
  note below = below [OF this]
  have "belongs ?csel n (nid n)" using csel by (cases n) (simp add: belongs_def)
  moreover obtain ms where ms: "nodes n = n # ms" by (cases n) simp
  ultimately have "map nid (local_find ?csel sel n) = (if node_matches sel n then [nid n] else []) @
      map nid (filter (\<lambda>m. node_matches sel m \<and> belongs ?csel n (nid m)) (tl (nodes n)))"
    unfolding local_find_def ms by simp
  then show ?thesis
    using n by (simp add: Scope_findAllElements_def Scope_queryElements_def querySelectorAll_nodes [OF wf n]
        matches_def below e)
qed

end
