(* ===== verification/Main_Properties.thy ===== *)
theory Main_Properties
  imports Main_Page Dom_Query
begin

text \<open>
  What \<open>main\<close> does with the page \<^verbatim>\<open>node.html\<close>: which controllers it makes and in which
  order, that every target a controller uses and every method a button names is there, that the
  controllers other controllers look up are found, and how the collapsible titles start. The
  facts about the page are computed, from queries that walk over its elements once.
\<close>

section \<open>Making the controllers of the page\<close>

text \<open>Queries by one walk over the elements.\<close>

lemma scope_words_nodes:
  assumes "document_wf doc"
  shows "scope_words sch doc = concat (map (\<lambda>n.
     case node_attribute n (controllerAttribute sch) of None \<Rightarrow> []
     | Some v \<Rightarrow> map (\<lambda>w. \<lparr>scope_element = nid n, scope_identifier = w\<rparr>) (words v)) (nodes (root doc)))"
proof -
  have attr: "getAttribute doc (nid n) a = node_attribute n a" if "n \<in> set (nodes (root doc))" for n a
    using get_node_in_tree [OF assms _ that] by (simp add: trees_def getAttribute_def)
  have "concat (map (element_scopes a doc) (filter (\<lambda>e. hasAttribute doc e a) (map nid ns))) =
      concat (map (\<lambda>n. case node_attribute n a of None \<Rightarrow> []
        | Some v \<Rightarrow> map (\<lambda>w. \<lparr>scope_element = nid n, scope_identifier = w\<rparr>) (words v)) ns)"
    if "set ns \<subseteq> set (nodes (root doc))" for ns a
    using that
  proof (induction ns)
    case (Cons n ns)
    then have "getAttribute doc (nid n) a = node_attribute n a" by (intro attr) auto
    with Cons show ?case by (auto simp: hasAttribute_def element_scopes_def attribute_words_def split: option.split)
  qed simp
  then show ?thesis by (simp add: scope_words_def ids_def)
qed

lemma register_all:
  "fold (\<lambda>ident. Application_register doc ident (cls ident)) idents a =
     Application_load doc (map (\<lambda>ident. (ident, cls ident)) idents) a"
proof (induction idents arbitrary: a)
  case Nil
  then show ?case by (simp add: Application_load_def with_router_def)
next
  case (Cons i idents)
  then show ?case by (simp add: Application_register_def Application_load_def with_router_def)
qed

lemma node_page_wf: "document_wf node_page"
proof -
  have "map nid (all_nodes node_page) = [0..<143]" by code_simp
  then show ?thesis by (simp add: document_wf_def)
qed

lemma node_page_scopes:
  "scopes_in_order defaultSchema node_page =
     map (\<lambda>(e, ident). \<lparr>scope_element = e, scope_identifier = ident\<rparr>)
       [(6, ''flash''), (10, ''peerInfo''), (18, ''messaging''), (22, ''unicast''), (32, ''broadcast''),
        (49, ''routing''), (73, ''catalog''), (85, ''dataSharing''), (97, ''search''), (116, ''naming''), (129, ''packets'')]"
  unfolding scopes_in_order_def scope_words_nodes [OF node_page_wf]
  by code_simp

lemma main_user:
  assumes "document_wf doc"
  shows "env_user (app_env (fst (main init doc u))) =
    fold (\<lambda>ident u. if ident \<in> set (map fst registrations) then init ident u else u)
      (map scope_identifier (scopes_in_order defaultSchema doc)) u"
proof -
  define names where "names = map fst registrations"
  let ?ds = "map (\<lambda>ident. (ident, page_class init ident)) names"
  have m: "map_of (rev ?ds) ident = (if ident \<in> set names then Some (page_class init ident) else None)" for ident
    by (simp only: rev_map map_of_map_restrict restrict_map_def set_map set_rev comp_apply)
  have q: "\<forall>(ident, cls) \<in> set ?ds. changed_method cls = (\<lambda>_. None)" by (auto simp: page_class_def)
  have "setup_scope (map_of (rev ?ds)) doc sc u =
      (if scope_identifier sc \<in> set names then init (scope_identifier sc) u else u)" for sc u
    unfolding setup_scope_def m by (simp add: page_class_def)
  then have "fold (setup_scope (map_of (rev ?ds)) doc) scs u =
    fold (\<lambda>ident u. if ident \<in> set names then init ident u else u) (map scope_identifier scs) u"
    for scs u
    by (induction scs arbitrary: u) simp_all
  then show ?thesis
    using load_start_order [OF assms q, of defaultSchema u]
    unfolding main_def Let_def fst_conv register_all names_def [symmetric] by simp
qed

text \<open>C5: What the framework runs when main starts on node.html is exactly the loading of the page:
  the initialize methods of PeerInfo, Routing, Catalog and Packets in this order, whatever the
  query string is.\<close>

theorem main_loads_page:
  "env_user (app_env (fst (main (page_initialize search) node_page (empty_page, [])))) = page_load search empty_page"
  unfolding main_user [OF node_page_wf] node_page_scopes
  by (simp add: page_initialize_def run_initialize_def registrations_def page_load_def andThen_def split_beta)
section \<open>The controllers of the page and their elements\<close>

lemma page_ids:
  "nid page_flash = 6"
  "nid page_peerInfo = 10"
  "nid page_messaging = 18"
  "nid page_unicast = 22"
  "nid page_broadcast = 32"
  "nid page_routing = 49"
  "nid page_catalog = 73"
  "nid page_dataSharing = 85"
  "nid page_search = 97"
  "nid page_naming = 116"
  "nid page_packets = 129"
  by (simp_all add: page_flash_def page_peerInfo_def page_messaging_def page_unicast_def page_broadcast_def
      page_routing_def page_catalog_def page_dataSharing_def page_search_def page_naming_def page_packets_def)

lemma page_parts:
  "list_all (\<lambda>n. n \<in> set (nodes (root node_page)))
     [page_flash, page_peerInfo, page_messaging, page_unicast, page_broadcast, page_routing, page_catalog,
      page_dataSharing, page_search, page_naming, page_packets]"
  by (simp add: node_page_def)

lemma page_subtrees:
  "get_node node_page 6 = Some page_flash"
  "get_node node_page 10 = Some page_peerInfo"
  "get_node node_page 18 = Some page_messaging"
  "get_node node_page 22 = Some page_unicast"
  "get_node node_page 32 = Some page_broadcast"
  "get_node node_page 49 = Some page_routing"
  "get_node node_page 73 = Some page_catalog"
  "get_node node_page 85 = Some page_dataSharing"
  "get_node node_page 97 = Some page_search"
  "get_node node_page 116 = Some page_naming"
  "get_node node_page 129 = Some page_packets"
proof -
  have "get_node node_page (nid n) = Some n" if "n \<in> set (nodes (root node_page))" for n
    using get_node_in_tree [OF node_page_wf _ that] by (simp add: trees_def)
  with page_parts have "list_all (\<lambda>n. get_node node_page (nid n) = Some n)
     [page_flash, page_peerInfo, page_messaging, page_unicast, page_broadcast, page_routing, page_catalog,
      page_dataSharing, page_search, page_naming, page_packets]" by (simp only: list.pred_inject)
  then show
    "get_node node_page 6 = Some page_flash"
    "get_node node_page 10 = Some page_peerInfo"
    "get_node node_page 18 = Some page_messaging"
    "get_node node_page 22 = Some page_unicast"
    "get_node node_page 32 = Some page_broadcast"
    "get_node node_page 49 = Some page_routing"
    "get_node node_page 73 = Some page_catalog"
    "get_node node_page 85 = Some page_dataSharing"
    "get_node node_page 97 = Some page_search"
    "get_node node_page 116 = Some page_naming"
    "get_node node_page 129 = Some page_packets"
    by (simp_all only: list.pred_inject page_ids)
qed

section \<open>Targets\<close>

text \<open>A target is there exactly once, with the name the page model gives the field.\<close>

definition target_there :: "document \<Rightarrow> scope \<Rightarrow> string \<Rightarrow> bool" where
  "target_there doc sc t \<longleftrightarrow>
     (case snd (TargetSet_findAll defaultSchema doc sc [t] Guide_new) of
        [e] \<Rightarrow> (case map_of field_names (scope_identifier sc, t) of
                  None \<Rightarrow> True
                | Some name \<Rightarrow> getAttribute doc e ''name'' = Some name)
      | _ \<Rightarrow> False)"

text \<open>The same inside one element, for names that are in lower case already.\<close>

definition word_in :: "string \<Rightarrow> string \<Rightarrow> node \<Rightarrow> bool" where
  "word_in lower w n = (case Map_get (nattrs n) lower of None \<Rightarrow> False | Some v \<Rightarrow> w \<in> set (css_words v))"

lemma word_in: "node_matches (Has_word name w) = word_in (asciiLower name) w"
  by (rule ext) (simp add: word_in_def node_attribute_def)

definition find_inside :: "string \<Rightarrow> string \<Rightarrow> string \<Rightarrow> node \<Rightarrow> node list \<Rightarrow> node list" where
  "find_inside ident lower w n ms = filter (\<lambda>m. word_in lower w m \<and>
     (case List.find (word_in ''data-controller'' ident) (path_to (nid m) n) of
        None \<Rightarrow> False | Some c \<Rightarrow> nid c = nid n)) ms"

definition local_target :: "node \<Rightarrow> string \<Rightarrow> string \<Rightarrow> node list \<Rightarrow> string \<Rightarrow> bool" where
  "local_target n ident lower ms t \<longleftrightarrow>
     (case find_inside ident lower t n ms of
        [m] \<Rightarrow> (case map_of field_names (ident, t) of
                  None \<Rightarrow> True
                | Some name \<Rightarrow> Map_get (nattrs m) ''name'' = Some name)
      | _ \<Rightarrow> False)"

definition having :: "string \<Rightarrow> node \<Rightarrow> node list" where
  "having lower n = filter (\<lambda>m. Map_get (nattrs m) lower \<noteq> None) (nodes n)"

lemma find_inside_having: "find_inside ident lower w n (nodes n) = find_inside ident lower w n (having lower n)"
  by (auto simp: find_inside_def having_def word_in_def intro!: filter_cong split: option.splits)

lemma lower_names: "asciiLower ''data-controller'' = ''data-controller''" "asciiLower ''data-target'' = ''data-target''"
  "asciiLower ''name'' = ''name''" "asciiLower ''data-action'' = ''data-action''"
  by code_simp+

lemma target_there_local:
  assumes wf: "document_wf doc" and n: "get_node doc e = Some n"
    and c: "word_in ''data-controller'' ident n" and lower: "asciiLower (''data-'' @ ident @ ''-target'') = lower"
    and l: "local_target n ident lower (having lower n) t" and legacy: "having ''data-target'' n = []"
  shows "target_there doc \<lparr>scope_element = e, scope_identifier = ident\<rparr> t"
proof -
  let ?sc = "\<lparr>scope_element = e, scope_identifier = ident\<rparr>" and ?c = "Has_word ''data-controller'' ident"
  have csel: "Scope_controllerSelector defaultSchema ?sc = ?c"
    by (simp add: Scope_controllerSelector_def attributeValueContainsToken_def defaultSchema_def)
  have all: "Scope_findAllElements defaultSchema doc ?sc sel = map nid (local_find ?c sel n)" for sel
    using findAllElements_local [OF wf, of ?sc n defaultSchema sel] n c by (simp add: csel word_in lower_names)
  have inside: "local_find ?c (Has_word name w) n = find_inside ident (asciiLower name) w n (having (asciiLower name) n)" for name w
    unfolding find_inside_having [symmetric]
    by (simp only: local_find_def find_inside_def belongs_def word_in lower_names)
  have sels: "TargetSet_getSelectorForTargetName ?sc t' = Has_word (''data-'' @ ident @ ''-target'') t'"
    "TargetSet_getLegacySelectorForTargetName defaultSchema ?sc t' = Has_word ''data-target'' (ident @ ''.'' @ t')" for t'
    by (simp_all add: TargetSet_getSelectorForTargetName_def TargetSet_getLegacySelectorForTargetName_def
        attributeValueContainsToken_def defaultSchema_def)
  let ?ms = "find_inside ident lower t n (having lower n)"
  have f: "snd (TargetSet_findAll defaultSchema doc ?sc [t] Guide_new) = map nid ?ms"
    unfolding TargetSet_findAll_def find_all_from_snd targets_named_def all sels inside lower lower_names legacy
    by (simp add: find_inside_def)
  from l obtain m where m: "?ms = [m]" and name: "case map_of field_names (ident, t) of None \<Rightarrow> True
      | Some name \<Rightarrow> Map_get (nattrs m) ''name'' = Some name"
    unfolding local_target_def by (auto split: list.splits)
  from m have "m \<in> set ?ms" by simp
  then have "m \<in> set (nodes n)" by (auto simp: find_inside_def having_def)
  then have "getAttribute doc (nid m) ''name'' = Map_get (nattrs m) ''name''"
    using get_node_below [OF wf n] by (simp add: getAttribute_def node_attribute_def lower_names)
  with name show ?thesis unfolding target_there_def f m by (auto split: option.splits)
qed

definition page_controllers :: "(nat \<times> node \<times> string \<times> string \<times> string list) list" where
  "page_controllers =
     [(6, page_flash, ''flash'', ''data-flash-target'', Flash_targets),
      (10, page_peerInfo, ''peerInfo'', ''data-peerinfo-target'', PeerInfo_targets),
      (18, page_messaging, ''messaging'', ''data-messaging-target'', Messaging_targets),
      (22, page_unicast, ''unicast'', ''data-unicast-target'', Unicast_targets),
      (32, page_broadcast, ''broadcast'', ''data-broadcast-target'', Broadcast_targets),
      (49, page_routing, ''routing'', ''data-routing-target'', Routing_targets),
      (73, page_catalog, ''catalog'', ''data-catalog-target'', Catalog_targets),
      (85, page_dataSharing, ''dataSharing'', ''data-datasharing-target'', DataSharing_targets),
      (97, page_search, ''search'', ''data-search-target'', Search_targets),
      (116, page_naming, ''naming'', ''data-naming-target'', Naming_targets),
      (129, page_packets, ''packets'', ''data-packets-target'', Packets_targets)]"

lemma page_controllers_ok:
  "list_all (\<lambda>(e, n, ident, lower, ts). asciiLower (''data-'' @ ident @ ''-target'') = lower \<and>
     word_in ''data-controller'' ident n \<and> having ''data-target'' n = [] \<and> list_all (local_target n ident lower (having lower n)) ts) page_controllers"
  by code_simp

lemma page_controllers_cover:
  "scopes_in_order defaultSchema node_page =
     map (\<lambda>(e, n, ident, lower, ts). \<lparr>scope_element = e, scope_identifier = ident\<rparr>) page_controllers"
  "list_all (\<lambda>(e, n, ident, lower, ts). map_of registrations ident = Some ts) page_controllers"
  unfolding node_page_scopes by (simp_all add: page_controllers_def registrations_def)

lemma page_controllers_nodes: "list_all (\<lambda>(e, n, ident, lower, ts). get_node node_page e = Some n) page_controllers"
  by (simp add: page_controllers_def page_subtrees)

text \<open>C37: Every target a class of main.js declares is found exactly once in the element of its
  controller in node.html, and a form field has the name the messages of the form show.\<close>

theorem targets_there:
  "list_all (\<lambda>sc. list_all (target_there node_page sc) (the (map_of registrations (scope_identifier sc))))
     (scopes_in_order defaultSchema node_page)"
proof -
  have "list_all (target_there node_page \<lparr>scope_element = e, scope_identifier = ident\<rparr>) ts \<and>
      map_of registrations ident = Some ts"
    if "(e, n, ident, lower, ts) \<in> set page_controllers" for e n ident lower ts
    using that page_controllers_ok page_controllers_cover(2) page_controllers_nodes
      target_there_local [OF node_page_wf, of e n ident lower]
    by (fastforce simp: list_all_iff)
  then show ?thesis by (auto simp: page_controllers_cover(1) list_all_iff)
qed

section \<open>The getters of the targets\<close>

text \<open>A blessed class has the getters of a target, and the methods its class has.\<close>

definition has_getters :: "constructor_fn \<Rightarrow> string \<Rightarrow> bool" where
  "has_getters b t \<longleftrightarrow>
     find_property b (t @ ''Target'') = Some (Accessor (Some (Target_get t)) None) \<and>
     find_property b (t @ ''Targets'') = Some (Accessor (Some (Targets_get t)) None) \<and>
     find_property b (''has'' @ capitalize t @ ''Target'') = Some (Accessor (Some (Target_has t)) None)"

definition has_method :: "constructor_fn \<Rightarrow> string \<Rightarrow> bool" where
  "has_method b m \<longleftrightarrow> find_property b m = Some (Data (Own_member m))"

definition page_methods :: "(string \<times> string) list" where
  "page_methods = [(''unicast'', ''send''), (''broadcast'', ''sendChat''), (''broadcast'', ''sendPrivate''),
     (''routing'', ''update''), (''routing'', ''addPeer''), (''routing'', ''setEntry''), (''catalog'', ''update''),
     (''catalog'', ''add''), (''dataSharing'', ''upload''), (''dataSharing'', ''download''), (''search'', ''searchAll''),
     (''search'', ''searchFirst''), (''naming'', ''resolve''), (''naming'', ''tag'')]"

text \<open>Every class main registers can be blessed, and the blessed class has the getters of every
  target the class declares, none of them hidden by a method, and the methods the buttons of the
  page name.\<close>

lemma page_classes_blessed:
  "map fst registered_classes = map fst registrations \<and>
   list_all (\<lambda>(ident, c). case bless c of
       Inl e \<Rightarrow> False
     | Inr b \<Rightarrow> list_all (has_getters b) (the (map_of registrations ident)) \<and>
         list_all (has_method b) (map snd (filter (\<lambda>im. fst im = ident) page_methods))) registered_classes \<and>
   list_all (\<lambda>im. button_event im \<noteq> None) page_methods"
  by code_simp

section \<open>The controllers other controllers look up\<close>

lemma page_class_life:
  assumes "document_wf doc" 
  shows "app_life True doc (set (map fst registrations)) (fst (main init doc u))"
proof -
  have s: "asciiLower (controllerAttribute defaultSchema) = controllerAttribute defaultSchema"
    "asciiLower (actionAttribute defaultSchema) = actionAttribute defaultSchema"
    by (simp_all add: defaultSchema_def lower_names)
  let ?ds = "map (\<lambda>ident. (ident, page_class init ident)) (map fst registrations)"
  have "fst ` set ?ds = set (map fst registrations)" by force
  with app_life.start [OF app_life.load [OF app_life.new [OF assms s, of u], of ?ds]]
  show ?thesis by (simp add: main_def register_all del: map_map)
qed


section \<open>The buttons\<close>

text \<open>What a declared action of the page stands for: a click on an element inside a controller of
  its identifier.\<close>

definition wired :: "document \<Rightarrow> string + action \<Rightarrow> event option" where
  "wired doc r =
     (case r of
        Inl e \<Rightarrow> None
      | Inr a \<Rightarrow>
          (if eventName a = ''click'' \<and> eventTarget a = Element_target (action_element a) \<and>
              list_ex (\<lambda>sc. scope_identifier sc = action_identifier a \<and>
                  Scope_containsElement defaultSchema doc sc (action_element a)) (scopes_in_order defaultSchema doc)
           then button_event (action_identifier a, methodName a) else None))"

lemma page_actions_nodes:
  assumes "document_wf doc"
  shows "page_actions doc = concat (map (\<lambda>n.
     case node_attribute n (actionAttribute defaultSchema) of None \<Rightarrow> []
     | Some v \<Rightarrow> map (Action_forToken doc) (parseTokenString 0 v (nid n) (actionAttribute defaultSchema)))
     (nodes (root doc)))"
proof -
  have "getAttribute doc (nid n) a = node_attribute n a" if "n \<in> set (nodes (root doc))" for n a
    using get_node_in_tree [OF assms _ that] by (simp add: trees_def getAttribute_def)
  then show ?thesis by (simp add: page_actions_def ids_def comp_def cong: map_cong)
qed

lemma concat_descriptors:
  "concat (map (\<lambda>n. case f n of None \<Rightarrow> [] | Some v \<Rightarrow> g (nid n) v) ns) =
     concat (map (\<lambda>(i, v). g i v) (concat (map (\<lambda>n. case f n of None \<Rightarrow> [] | Some v \<Rightarrow> [(nid n, v)]) ns)))"
  by (induction ns) (simp_all split: option.split)

definition page_buttons :: "(nat \<times> string \<times> string \<times> string) list" where
  "page_buttons =
     [(30, ''click->unicast#send'', ''unicast'', ''send''),
      (39, ''click->broadcast#sendChat'', ''broadcast'', ''sendChat''),
      (47, ''click->broadcast#sendPrivate'', ''broadcast'', ''sendPrivate''),
      (60, ''click->routing#update'', ''routing'', ''update''),
      (65, ''click->routing#addPeer'', ''routing'', ''addPeer''),
      (71, ''click->routing#setEntry'', ''routing'', ''setEntry''),
      (77, ''click->catalog#update'', ''catalog'', ''update''),
      (83, ''click->catalog#add'', ''catalog'', ''add''),
      (91, ''click->dataSharing#upload'', ''dataSharing'', ''upload''),
      (95, ''click->dataSharing#download'', ''dataSharing'', ''download''),
      (105, ''click->search#searchAll'', ''search'', ''searchAll''),
      (114, ''click->search#searchFirst'', ''search'', ''searchFirst''),
      (122, ''click->naming#resolve'', ''naming'', ''resolve''),
      (127, ''click->naming#tag'', ''naming'', ''tag'')]"

lemma page_descriptors:
  "concat (map (\<lambda>n. case node_attribute n (actionAttribute defaultSchema) of None \<Rightarrow> []
      | Some v \<Rightarrow> [(nid n, v)]) (nodes (root node_page))) = map (\<lambda>(i, v, ident, meth). (i, v)) page_buttons"
  by code_simp

lemma button_descriptors:
  "list_all (\<lambda>(i, v, ident, meth). words v = [v] \<and> parseActionDescriptorString v =
     \<lparr>d_eventTarget = None, d_eventName = Some ''click'', d_eventOptions = [], d_identifier = Some ident,
      d_methodName = Some meth\<rparr> \<and> ident \<noteq> [] \<and> meth \<noteq> []) page_buttons"
  by code_simp

lemma button_places:
  "list_all (\<lambda>(i, v, ident, meth). list_ex (\<lambda>(e, n, ident', lower, ts).
     if ident' = ident then i \<in> set (ids n) \<and>
       (case List.find (word_in ''data-controller'' ident) (path_to i n) of
          None \<Rightarrow> False | Some c \<Rightarrow> nid c = nid n) else False) page_controllers) page_buttons"
  by code_simp

definition button_action :: "nat \<times> string \<times> string \<times> string \<Rightarrow> action" where
  "button_action = (\<lambda>(i, v, ident, meth). \<lparr>aid = 0, action_element = i, action_index = 0,
     eventTarget = Element_target i, eventName = ''click'', eventOptions = [],
     action_identifier = ident, methodName = meth\<rparr>)"

lemma node_page_actions: "page_actions node_page = map (\<lambda>b. Inr (button_action b)) page_buttons"
proof -
  let ?a = "actionAttribute defaultSchema"
  let ?g = "\<lambda>i v. map (Action_forToken node_page) (parseTokenString 0 v i ?a)"
  have "page_actions node_page = concat (map (\<lambda>(i, v). ?g i v) (map (\<lambda>(i, v, ident, meth). (i, v)) page_buttons))"
    unfolding page_actions_nodes [OF node_page_wf] concat_descriptors [where g = ?g] page_descriptors ..
  also have "\<dots> = concat (map (\<lambda>(i, v, ident, meth). ?g i v) page_buttons)"
    by (simp add: comp_def case_prod_unfold)
  also have "\<dots> = concat (map (\<lambda>b. [Inr (button_action b)]) page_buttons)"
  proof (intro arg_cong [where f = concat] map_cong refl)
    fix b assume "b \<in> set page_buttons"
    moreover obtain i v ident meth where b: "b = (i, v, ident, meth)" by (cases b)
    ultimately show "(case b of (i, v, ident, meth) \<Rightarrow> ?g i v) = [Inr (button_action b)]"
      using button_descriptors unfolding list_all_iff
      by (auto simp: b parseTokenString_def Action_forToken_def Action_new_def button_action_def truthy_def)
  qed
  finally show ?thesis by simp
qed

text \<open>C6: The actions node.html declares are clicks on buttons inside the element of a controller of
  their identifier, and they name, in this order, the fourteen methods of the page that are
  handlers of a button, each once.\<close>

theorem page_wired:
  "map (wired node_page) (page_actions node_page) =
   map Some [Click_unicast_send, Click_broadcast_sendChat, Click_broadcast_sendPrivate, Click_routing_update,
     Click_routing_addPeer, Click_routing_setEntry, Click_catalog_update, Click_catalog_add,
     Click_dataSharing_upload, Click_dataSharing_download, Click_search_searchAll, Click_search_searchFirst,
     Click_naming_resolve, Click_naming_tag]"
proof -
  have "wired node_page (Inr (button_action (i, v, ident, meth))) = button_event (ident, meth)"
    if b: "(i, v, ident, meth) \<in> set page_buttons" for i v ident meth
  proof -
    obtain e n lower ts where c: "(e, n, ident, lower, ts) \<in> set page_controllers" "i \<in> set (ids n)"
      and near: "case List.find (word_in ''data-controller'' ident) (path_to i n) of
          None \<Rightarrow> False | Some c \<Rightarrow> nid c = nid n"
      using button_places b by (auto simp: list_all_iff list_ex_iff split: if_splits)
    have n: "get_node node_page e = Some n" and w: "word_in ''data-controller'' ident n"
      using page_controllers_nodes page_controllers_ok c(1) by (auto simp: list_all_iff)
    let ?sc = "\<lparr>scope_element = e, scope_identifier = ident\<rparr>" and ?c = "Has_word ''data-controller'' ident"
    have csel: "Scope_controllerSelector defaultSchema ?sc = ?c"
      by (simp add: Scope_controllerSelector_def attributeValueContainsToken_def defaultSchema_def)
    have "belongs ?c n i" using near by (simp only: belongs_def word_in lower_names)
    then have "Scope_containsElement defaultSchema node_page ?sc i"
      using closest_below [OF node_page_wf n c(2), of ?c] w
      by (simp add: Scope_containsElement_def csel word_in lower_names)
    moreover have "?sc \<in> set (scopes_in_order defaultSchema node_page)"
      using c(1) by (force simp: page_controllers_cover(1))
    ultimately have "list_ex (\<lambda>sc. scope_identifier sc = ident \<and> Scope_containsElement defaultSchema node_page sc i)
        (scopes_in_order defaultSchema node_page)"
      unfolding list_ex_iff by (intro bexI [of _ ?sc]) simp_all
    then show ?thesis by (simp add: wired_def button_action_def)
  qed
  then have "map (\<lambda>b. wired node_page (Inr (button_action b))) page_buttons =
      map (\<lambda>(i, v, ident, meth). button_event (ident, meth)) page_buttons"
    by (intro map_cong) auto
  also have "\<dots> = map Some [Click_unicast_send, Click_broadcast_sendChat, Click_broadcast_sendPrivate, Click_routing_update,
     Click_routing_addPeer, Click_routing_setEntry, Click_catalog_update, Click_catalog_add,
     Click_dataSharing_upload, Click_dataSharing_download, Click_search_searchAll, Click_search_searchFirst,
     Click_naming_resolve, Click_naming_tag]"
    by (simp add: page_buttons_def)
  finally show ?thesis by (simp add: node_page_actions comp_def)
qed

section \<open>The controllers other controllers look up\<close>

text \<open>C38: At any time of the life of an application, looking up a controller by the id of its
  element, as the getters flash, peerInfo and messagingController do, gives the controller of
  the first element with that id, if its identifier is registered and the element asks for it.\<close>

theorem getter_finds:
  assumes life: "app_life True doc I a" and name: "name \<in> I"
    and e: "getElementById doc name = Some e"
      "name \<in> set (attribute_words (controllerAttribute (app_schema a)) doc e)"
  shows "\<exists>c. controller_by_id doc a name = Some c \<and> scope_element (context_scope c) = e"
proof -
  have ok: "app_ok a" "identifiers a = I" "app_synced doc a"
    using app_life_ok [OF life] by (simp_all add: life_ok_def)
  have "isConnected doc e"
    using e(1) by (auto simp: getElementById_def find_Some_iff isConnected_def dest: nth_mem)
  then have "\<lparr>scope_element = e, scope_identifier = name\<rparr> \<in> ran (app_scopes a)"
    using e(2) app_synced_scopes [OF ok(3)] by (simp add: document_scopes_def)
  moreover have "Map_has (modulesByIdentifier (app_router a)) name" using ok(2) name by (auto simp: identifiers_def)
  ultimately obtain c where c: "Application_getControllerForElementAndIdentifier e name a = Some c"
    using controller_lookup [OF ok(1), of e name] by blast
  then have "scope_element (context_scope c) = e"
    by (auto simp: Application_getControllerForElementAndIdentifier_def Router_getContextForElementAndIdentifier_def
        find_Some_iff split: option.splits)
  with c show ?thesis by (simp add: controller_by_id_def e(1))
qed

lemma getElementById_nodes:
  assumes "document_wf doc"
  shows "getElementById doc name = map_option nid (List.find (\<lambda>n. node_attribute n ''id'' = Some name) (nodes (root doc)))"
proof -
  have "getAttribute doc (nid n) ''id'' = node_attribute n ''id''" if "n \<in> set (nodes (root doc))" for n
    using get_node_in_tree [OF assms _ that] by (simp add: trees_def getAttribute_def)
  then have "List.find (\<lambda>i. getAttribute doc i ''id'' = Some name) (map nid ns) =
      map_option nid (List.find (\<lambda>n. node_attribute n ''id'' = Some name) ns)" if "set ns \<subseteq> set (nodes (root doc))" for ns
    using that by (induction ns) auto
  then show ?thesis by (simp add: getElementById_def ids_def)
qed

lemma page_elements_by_id:
  "getElementById node_page ''flash'' = Some 6" "getElementById node_page ''peerInfo'' = Some 10"
  "getElementById node_page ''messaging'' = Some 18"
  unfolding getElementById_nodes [OF node_page_wf] by code_simp+

lemma main_schema: "app_schema (fst (main init doc u)) = defaultSchema"
  unfolding main_def Let_def register_all
  by (simp add: Application_start_def Router_start_def map_dispatcher_def observers_same Application_new_def)

theorem getter_finds_witness:
  "\<exists>c. controller_by_id node_page (fst (main (\<lambda>_ n. Suc n) node_page 0)) ''messaging'' = Some c \<and>
     scope_element (context_scope c) = 18"
proof -
  have "getAttribute node_page 18 ''data-controller'' = Some ''messaging''"
    by (simp add: getAttribute_def page_subtrees node_attribute_def lower_names) (simp add: page_messaging_def)
  moreover have "words ''messaging'' = [''messaging'']" by code_simp
  ultimately have "''messaging'' \<in> set (attribute_words (controllerAttribute defaultSchema) node_page 18)"
    by (simp add: attribute_words_def defaultSchema_def)
  moreover have "''messaging'' \<in> set (map fst registrations)" by (simp add: registrations_def)
  ultimately show ?thesis
    using getter_finds [OF page_class_life [OF node_page_wf, of "\<lambda>_ n. Suc n" 0] _ page_elements_by_id(3)]
    by (simp only: main_schema)
qed

section \<open>The collapsible titles\<close>

fun after :: "nat \<Rightarrow> nat list \<Rightarrow> nat option" where
  "after i (j # k # ks) = (if j = i then Some k else after i (k # ks))"
| "after i ks = None"

lemma sibling_after_ids: "sibling_after i ns = after i (map nid ns)"
  by (induction i ns rule: sibling_after.induct) auto

definition kid_ids :: "document \<Rightarrow> nat list list" where
  "kid_ids doc = map (\<lambda>n. map nid (nkids n)) (all_nodes doc)"

definition next_in :: "nat list list \<Rightarrow> nat \<Rightarrow> nat option" where
  "next_in kids i = (case List.find (\<lambda>ks. after i ks \<noteq> None) kids of None \<Rightarrow> None | Some ks \<Rightarrow> after i ks)"

lemma nextElementSibling_ids: "nextElementSibling doc i = next_in (kid_ids doc) i"
proof -
  have "(case List.find (\<lambda>n. after i (map nid (nkids n)) \<noteq> None) ns of None \<Rightarrow> None | Some n \<Rightarrow> after i (map nid (nkids n))) =
      next_in (map (\<lambda>n. map nid (nkids n)) ns) i" for ns
    by (induction ns) (auto simp: next_in_def)
  then show ?thesis unfolding nextElementSibling_def sibling_after_ids kid_ids_def .
qed

definition titles :: "document \<Rightarrow> (nat \<times> bool) list" where
  "titles doc = map (\<lambda>n. (nid n, node_matches (Has_word ''class'' ''active'') n))
     (filter (node_matches (Has_word ''class'' ''collapsible'')) (nodes (root doc)))"

fun prepare_titles :: "nat list list \<Rightarrow> (nat \<times> bool) list \<Rightarrow> string + (nat \<times> nat \<times> collapsible) list" where
  "prepare_titles kids [] = Inr []"
| "prepare_titles kids ((i, b) # ts) =
     (case next_in kids i of
        None \<Rightarrow> Inl ''TypeError: content is null''
      | Some c \<Rightarrow> bind_sum (prepare_titles kids ts) (\<lambda>rest.
          Inr ((i, c, initCollapsible_one \<lparr>active = b, display = []\<rparr>) # rest)))"

lemma initCollapsible_titles:
  assumes "document_wf doc"
  shows "initCollapsible doc = prepare_titles (kid_ids doc) (titles doc)"
proof -
  have m: "matches doc (nid n) sel = node_matches sel n" if "n \<in> set (nodes (root doc))" for n sel
    using get_node_in_tree [OF assms _ that] by (simp add: trees_def matches_def)
  have "initCollapsible_from doc (filter (\<lambda>i. matches doc i sel) (map nid ns)) =
      prepare_titles (kid_ids doc) (map (\<lambda>n. (nid n, node_matches (Has_word ''class'' ''active'') n))
        (filter (node_matches sel) ns))" if "set ns \<subseteq> set (nodes (root doc))" for ns sel
    using that
  proof (induction ns)
    case (Cons n ns)
    then show ?case using m [of n] by (auto simp: nextElementSibling_ids split: option.split)
  qed simp
  then show ?thesis by (simp add: initCollapsible_def getElementsByClassName_def ids_def titles_def)
qed

lemma node_page_titles:
  "titles node_page = [(19, False), (23, False), (33, False), (50, False), (58, False), (74, False), (86, False),
     (98, False), (117, False), (130, True)]"
  by code_simp

text \<open>Of the ten collapsible titles of node.html only the one of the packets starts active; the
  element after each title is displayed exactly if the title is active.\<close>

lemma titles_prepared:
  "snd (main init node_page u) = Inr (map (\<lambda>(i, c, open). (i, c, \<lparr>active = open, display = if open then ''block'' else ''none''\<rparr>))
     [(19, 20, False), (23, 24, False), (33, 34, False), (50, 51, False), (58, 59, False), (74, 75, False),
      (86, 87, False), (98, 99, False), (117, 118, False), (130, 131, True)])"
proof -
  have "prepare_titles (kid_ids node_page) (titles node_page) =
    Inr (map (\<lambda>(i, c, open). (i, c, \<lparr>active = open, display = if open then ''block'' else ''none''\<rparr>))
     [(19, 20, False), (23, 24, False), (33, 34, False), (50, 51, False), (58, 59, False), (74, 75, False),
      (86, 87, False), (98, 99, False), (117, 118, False), (130, 131, True)])"
    unfolding node_page_titles by code_simp
  then show ?thesis by (simp only: main_def Let_def snd_conv initCollapsible_titles [OF node_page_wf])
qed
end
