(* ===== verification/Viz_Render.thy ===== *)
theory Viz_Render
  imports Prelude
begin

text \<open>
  The handwritten part of \<^verbatim>\<open>src/gui/web/assets/scripts/viz.lite.render.js\<close> (lines 32-88): drawing
  a graph with an instance of the compiled Graphviz, and the handler of the worker that does so on
  request. The instance is compiled code: what its functions do to its state is a parameter.
\<close>

section \<open>What is thrown\<close>

text \<open>An \<open>Error\<close> with what it tells of its place, where the browser knows it, or another value as text.\<close>

record js_error =
  error_message :: string
  error_fileName :: "string option"
  error_lineNumber :: "nat option"

datatype thrown = Thrown_error js_error | Thrown_value string

definition plain_error :: "string \<Rightarrow> thrown" where
  "plain_error m = Thrown_error \<lparr>error_message = m, error_fileName = None, error_lineNumber = None\<rparr>"

text \<open>A call of the instance may throw; its state is changed in either case.\<close>

type_synonym ('i, 'a) call = "'i \<Rightarrow> (thrown + 'a) \<times> 'i"

definition call_then :: "('i, 'a) call \<Rightarrow> ('a \<Rightarrow> ('i, 'b) call) \<Rightarrow> ('i, 'b) call" where
  "call_then c f i = (case c i of (Inl e, i) \<Rightarrow> (Inl e, i) | (Inr x, i) \<Rightarrow> f x i)"

definition give :: "thrown + 'a \<Rightarrow> ('i, 'a) call" where
  "give r i = (r, i)"

record 'i graphviz =
  vizCreateFile :: "string \<Rightarrow> string \<Rightarrow> ('i, unit) call"
  vizSetY_invert :: "nat \<Rightarrow> ('i, unit) call"
  vizSetNop :: "nat \<Rightarrow> ('i, unit) call"
  vizRenderFromString :: "string \<Rightarrow> string \<Rightarrow> string \<Rightarrow> ('i, nat) call"
  vizLastErrorMessage :: "('i, nat) call"
  Pointer_stringify :: "nat \<Rightarrow> ('i, string) call"
  free_pointer :: "nat \<Rightarrow> ('i, unit) call"

section \<open>The function render\<close>

record image_option =
  image_path :: string
  image_width :: string
  image_height :: string

record render_options =
  render_format :: string
  render_engine :: string
  render_files :: "(string \<times> string) list"
  render_images :: "image_option list"
  render_yInvert :: bool
  render_nop :: nat

fun create_files :: "'i graphviz \<Rightarrow> (string \<times> string) list \<Rightarrow> ('i, unit) call" where
  "create_files gv [] = give (Inr ())"
| "create_files gv ((path, data) # fs) = call_then (vizCreateFile gv path data) (\<lambda>_. create_files gv fs)"

definition lite_render :: "'i graphviz \<Rightarrow> string \<Rightarrow> render_options \<Rightarrow> ('i, string) call" where
  "lite_render gv src opts =
     call_then (create_files gv (render_files opts)) (\<lambda>_.
     call_then (vizSetY_invert gv (if render_yInvert opts then 1 else 0)) (\<lambda>_.
     call_then (vizSetNop gv (render_nop opts)) (\<lambda>_.
     call_then (vizRenderFromString gv src (render_format opts) (render_engine opts)) (\<lambda>resultPointer.
     call_then (Pointer_stringify gv resultPointer) (\<lambda>resultString.
     call_then (free_pointer gv resultPointer) (\<lambda>_.
     call_then (vizLastErrorMessage gv) (\<lambda>errorMessagePointer.
     call_then (Pointer_stringify gv errorMessagePointer) (\<lambda>errorMessageString.
     call_then (free_pointer gv errorMessagePointer) (\<lambda>_.
       give (if errorMessageString \<noteq> [] then Inl (plain_error errorMessageString) else Inr resultString))))))))))"

section \<open>The worker\<close>

text \<open>A request carries an id, and its answer the same id with an error or a result.\<close>

record request =
  request_id :: nat
  request_src :: string
  request_options :: render_options

record worker_answer =
  answer_id :: nat
  answer_outcome :: "js_error + string"

definition error_of :: "thrown \<Rightarrow> js_error" where
  "error_of e =
     (case e of
        Thrown_error e \<Rightarrow> e
      | Thrown_value v \<Rightarrow> \<lparr>error_message = v, error_fileName = None, error_lineNumber = None\<rparr>)"

definition worker_onmessage :: "'i graphviz \<Rightarrow> request \<Rightarrow> 'i \<Rightarrow> worker_answer \<times> 'i" where
  "worker_onmessage gv r i =
     (case lite_render gv (request_src r) (request_options r) i of
        (Inr result, i) \<Rightarrow> (\<lparr>answer_id = request_id r, answer_outcome = Inr result\<rparr>, i)
      | (Inl e, i) \<Rightarrow> (\<lparr>answer_id = request_id r, answer_outcome = Inl (error_of e)\<rparr>, i))"

section \<open>The globals\<close>

text \<open>
  The last lines of the script hang its functions on \<open>Viz\<close>, if \<^verbatim>\<open>viz.js\<close> has defined it; that
  script defines it anew, without them.
\<close>

datatype script = Viz_script | Lite_script | Other_script

record viz_globals =
  viz_defined :: bool
  viz_renderer :: bool

fun run_script :: "script \<Rightarrow> viz_globals \<Rightarrow> viz_globals" where
  "run_script Viz_script g = \<lparr>viz_defined = True, viz_renderer = False\<rparr>"
| "run_script Lite_script g = (if viz_defined g then g\<lparr>viz_renderer := True\<rparr> else g)"
| "run_script Other_script g = g"

end
