(* ===== verification/Viz.thy ===== *)
theory Viz
  imports Viz_Render Json_Parse
begin

text \<open>
  The classes of \<^verbatim>\<open>src/gui/web/assets/scripts/viz.js\<close> (lines 72-142, 238-330): the two wrappers of
  a renderer, one that sends the requests to a worker and one that calls a module, and \<open>Viz\<close>, which
  chooses one and turns its options into requests.
\<close>

section \<open>Promises\<close>

datatype 'a promise = Pending | Fulfilled 'a | Rejected_with thrown

text \<open>The promises of a page, by their numbers; one that is settled stays as it is.\<close>

definition settle :: "nat \<Rightarrow> 'a promise \<Rightarrow> 'a promise list \<Rightarrow> 'a promise list" where
  "settle k p ps = (if k < length ps \<and> ps ! k = Pending then ps[k := p] else ps)"

definition promise_of :: "thrown + 'a \<Rightarrow> 'a promise" where
  "promise_of r = (case r of Inl e \<Rightarrow> Rejected_with e | Inr x \<Rightarrow> Fulfilled x)"

text \<open>\<open>then\<close> with a callback that may throw.\<close>

definition promise_then :: "'a promise \<Rightarrow> ('a \<Rightarrow> 'b promise) \<Rightarrow> 'b promise" where
  "promise_then p f = (case p of Pending \<Rightarrow> Pending | Rejected_with e \<Rightarrow> Rejected_with e | Fulfilled x \<Rightarrow> f x)"

section \<open>The class WorkerWrapper\<close>

text \<open>A listener settles the promise of its request, whose number it holds.\<close>

record worker_wrapper =
  wrapper_listeners :: "(nat \<times> nat) list"
  nextId :: nat

definition WorkerWrapper_new :: worker_wrapper where
  "WorkerWrapper_new = \<lparr>wrapper_listeners = [], nextId = 0\<rparr>"

definition WorkerWrapper_render ::
    "string \<Rightarrow> render_options \<Rightarrow> worker_wrapper \<times> string promise list \<Rightarrow>
       (worker_wrapper \<times> string promise list) \<times> request" where
  "WorkerWrapper_render src opts wp =
     (let (w, ps) = wp; i = nextId w;
          w = w\<lparr>nextId := i + 1, wrapper_listeners := Map_set i (length ps) (wrapper_listeners w)\<rparr>
      in ((w, ps @ [Pending]), \<lparr>request_id = i, request_src = src, request_options = opts\<rparr>))"

definition outcome_promise :: "js_error + string \<Rightarrow> string promise" where
  "outcome_promise outcome =
     (case outcome of Inl e \<Rightarrow> Rejected_with (Thrown_error e) | Inr result \<Rightarrow> Fulfilled result)"

definition listener :: "nat \<Rightarrow> js_error + string \<Rightarrow> string promise list \<Rightarrow> string promise list" where
  "listener k outcome = settle k (outcome_promise outcome)"

text \<open>The handler of the worker's messages throws for an id without a listener.\<close>

definition WorkerWrapper_onmessage ::
    "worker_answer \<Rightarrow> worker_wrapper \<times> string promise list \<Rightarrow> (worker_wrapper \<times> string promise list) \<times> thrown option" where
  "WorkerWrapper_onmessage a wp =
     (let (w, ps) = wp
      in case Map_get (wrapper_listeners w) (answer_id a) of
           None \<Rightarrow> ((w, ps), Some (plain_error ''_this.listeners[id] is not a function''))
         | Some k \<Rightarrow>
             ((w\<lparr>wrapper_listeners := Map_delete (answer_id a) (wrapper_listeners w)\<rparr>, listener k (answer_outcome a) ps),
              None))"

section \<open>The class ModuleWrapper\<close>

text \<open>Rendering catches what is thrown.\<close>

definition ModuleWrapper_render ::
    "(string \<Rightarrow> render_options \<Rightarrow> ('i, string) call) \<Rightarrow> string \<Rightarrow> render_options \<Rightarrow> 'i \<Rightarrow> string promise \<times> 'i" where
  "ModuleWrapper_render render src opts i = (case render src opts i of (r, i) \<Rightarrow> (promise_of r, i))"

section \<open>The class Viz\<close>

text \<open>
  Which renderer the constructor chooses. The wrapper of a module makes the instance of the compiled
  code, which is not modelled and taken to succeed.
\<close>

datatype renderer = New_worker string | Given_worker | Given_module | Global_module

record viz_config =
  config_workerURL :: "string option"
  config_worker :: bool
  config_Module :: bool
  config_render :: bool

definition Viz_new :: "viz_globals \<Rightarrow> viz_config \<Rightarrow> thrown + renderer" where
  "Viz_new g c =
     (case config_workerURL c of
        Some url \<Rightarrow> Inr (New_worker url)
      | None \<Rightarrow>
          if config_worker c then Inr Given_worker
          else if config_Module c \<and> config_render c then Inr Given_module
          else if viz_renderer g then Inr Global_module
          else Inl (plain_error (''Must specify workerURL or worker option, Module and render options, '' @
            ''or include one of full.render.js or lite.render.js after viz.js.'')))"

definition no_config :: viz_config where
  "no_config = \<lparr>config_workerURL = None, config_worker = False, config_Module = False, config_render = False\<rparr>"

text \<open>The options a caller passes; what it leaves out is \<open>None\<close>.\<close>

record viz_options =
  opt_format :: "string option"
  opt_engine :: "string option"
  opt_files :: "(string \<times> string) list option"
  opt_images :: "image_option list option"
  opt_yInvert :: "bool option"
  opt_nop :: "nat option"

definition default_to :: "'a \<Rightarrow> 'a option \<Rightarrow> 'a" where
  "default_to d x = (case x of None \<Rightarrow> d | Some x \<Rightarrow> x)"

definition image_file :: "image_option \<Rightarrow> string \<times> string" where
  "image_file im =
     (image_path im,
      ''<?xml version=\"1.0\" encoding=\"UTF-8\" standalone=\"no\"?>'' @ [CHR 0x0A] @
      ''<!DOCTYPE svg PUBLIC \"-//W3C//DTD SVG 1.1//EN\" \"http://www.w3.org/Graphics/SVG/1.1/DTD/svg11.dtd\">'' @ [CHR 0x0A] @
      ''<svg width=\"'' @ image_width im @ ''\" height=\"'' @ image_height im @ ''\"></svg>'')"

text \<open>
  The files of the images are pushed onto the array of files, which is the caller's own if there is
  one: the first component is the options object afterwards, the second what the wrapper is given.
\<close>

definition Viz_renderString :: "viz_options \<Rightarrow> viz_options \<times> render_options" where
  "Viz_renderString opts =
     (let images = default_to [] (opt_images opts);
          files = default_to [] (opt_files opts) @ map image_file images
      in (opts\<lparr>opt_files := map_option (\<lambda>_. files) (opt_files opts)\<rparr>,
          \<lparr>render_format = default_to ''svg'' (opt_format opts), render_engine = default_to ''dot'' (opt_engine opts),
           render_files = files, render_images = images, render_yInvert = default_to False (opt_yInvert opts),
           render_nop = default_to 0 (opt_nop opts)\<rparr>))"

text \<open>A copy of the options with another format has the same array of files.\<close>

definition with_format :: "string \<Rightarrow> viz_options \<Rightarrow> viz_options \<times> render_options" where
  "with_format f opts =
     (let (copy, r) = Viz_renderString (opts\<lparr>opt_format := Some f\<rparr>)
      in (opts\<lparr>opt_files := opt_files copy\<rparr>, r))"

definition Viz_renderSVGElement :: "viz_options \<Rightarrow> viz_options \<times> render_options" where
  "Viz_renderSVGElement opts = with_format ''svg'' opts"

definition Viz_renderImageElement :: "viz_options \<Rightarrow> viz_options \<times> render_options" where
  "Viz_renderImageElement opts = with_format ''svg'' opts"

definition Viz_renderJSONObject :: "viz_options \<Rightarrow> viz_options \<times> render_options" where
  "Viz_renderJSONObject opts =
     (let format = opt_format opts;
          format = (if format \<noteq> Some ''json'' \<or> format \<noteq> Some ''json0'' then Some ''json'' else format)
      in with_format (default_to ''svg'' format) opts)"

text \<open>What is made of the text: an element by the browser's parser (\<open>parse\<close>), or a value.\<close>

definition svg_element :: "(string \<Rightarrow> 'e) \<Rightarrow> string promise \<Rightarrow> 'e promise" where
  "svg_element parse p = promise_then p (\<lambda>s. Fulfilled (parse s))"

definition json_object :: "string promise \<Rightarrow> parsed promise" where
  "json_object p =
     promise_then p (\<lambda>s. case JSON_parse s of Rejected \<Rightarrow> Rejected_with (plain_error ''SyntaxError'') | r \<Rightarrow> Fulfilled r)"

end
