(* ===== verification/Viz_Worker.thy ===== *)
theory Viz_Worker
  imports Viz
begin

text \<open>
  A page and a worker that runs \<^verbatim>\<open>viz.lite.render.js\<close>, with the messages between them, and the
  proof that the page gets what it would get from a module: each promise is settled as a
  \<open>ModuleWrapper\<close> on the same instance settles it, in the order of the requests.
\<close>

section \<open>Requests and answers\<close>

record 'i worker_world =
  ww_wrapper :: worker_wrapper
  ww_promises :: "string promise list"
  to_worker :: "request list"
  from_worker :: "worker_answer list"
  ww_instance :: 'i
  ww_uncaught :: "thrown list"

definition worker_world_new :: "'i \<Rightarrow> 'i worker_world" where
  "worker_world_new i = \<lparr>ww_wrapper = WorkerWrapper_new, ww_promises = [], to_worker = [], from_worker = [],
     ww_instance = i, ww_uncaught = []\<rparr>"

definition send_request :: "string \<Rightarrow> render_options \<Rightarrow> 'i worker_world \<Rightarrow> 'i worker_world" where
  "send_request src opts w =
     (let ((wrapper, ps), r) = WorkerWrapper_render src opts (ww_wrapper w, ww_promises w)
      in w\<lparr>ww_wrapper := wrapper, ww_promises := ps, to_worker := to_worker w @ [r]\<rparr>)"

fun worker_turn :: "'i graphviz \<Rightarrow> 'i worker_world \<Rightarrow> 'i worker_world option" where
  "worker_turn gv w =
     (case to_worker w of
        [] \<Rightarrow> None
      | r # rs \<Rightarrow>
          (let (a, i) = worker_onmessage gv r (ww_instance w)
           in Some (w\<lparr>to_worker := rs, from_worker := from_worker w @ [a], ww_instance := i\<rparr>)))"

fun page_turn :: "'i worker_world \<Rightarrow> 'i worker_world option" where
  "page_turn w =
     (case from_worker w of
        [] \<Rightarrow> None
      | a # as \<Rightarrow>
          (let ((wrapper, ps), thrown) = WorkerWrapper_onmessage a (ww_wrapper w, ww_promises w)
           in Some (w\<lparr>ww_wrapper := wrapper, ww_promises := ps, from_worker := as,
                ww_uncaught := ww_uncaught w @ (case thrown of None \<Rightarrow> [] | Some e \<Rightarrow> [e])\<rparr>)))"

declare worker_turn.simps [simp del] page_turn.simps [simp del]

text \<open>A turn of either side, and the life of the two after the requests \<open>rs\<close> of the page.\<close>

inductive turn :: "'i graphviz \<Rightarrow> 'i worker_world \<Rightarrow> 'i worker_world \<Rightarrow> bool" for gv where
  work: "worker_turn gv w = Some w' \<Longrightarrow> turn gv w w'"
| answered: "page_turn w = Some w' \<Longrightarrow> turn gv w w'"

inductive worker_life ::
    "'i graphviz \<Rightarrow> 'i \<Rightarrow> (string \<times> render_options) list \<Rightarrow> 'i worker_world \<Rightarrow> bool" for gv i where
  new: "worker_life gv i [] (worker_world_new i)"
| request: "worker_life gv i rs w \<Longrightarrow> worker_life gv i (rs @ [(src, opts)]) (send_request src opts w)"
| turn: "worker_life gv i rs w \<Longrightarrow> turn gv w w' \<Longrightarrow> worker_life gv i rs w'"

inductive turns :: "'i graphviz \<Rightarrow> nat \<Rightarrow> 'i worker_world \<Rightarrow> 'i worker_world \<Rightarrow> bool" for gv where
  none: "turns gv 0 w w"
| more: "turns gv n w w' \<Longrightarrow> turn gv w' w'' \<Longrightarrow> turns gv (Suc n) w w''"

inductive_cases turnE: "turn gv w w'"

section \<open>The same requests to a module\<close>

fun module_run ::
    "(string \<Rightarrow> render_options \<Rightarrow> ('i, string) call) \<Rightarrow> (string \<times> render_options) list \<Rightarrow> 'i \<Rightarrow> string promise list \<times> 'i" where
  "module_run render [] i = ([], i)"
| "module_run render ((src, opts) # rs) i =
     (let (p, i) = ModuleWrapper_render render src opts i; (ps, i) = module_run render rs i in (p # ps, i))"

text \<open>What a worker's answer keeps of an exception: it makes an \<open>Error\<close> of every one.\<close>

definition as_answered :: "string promise \<Rightarrow> string promise" where
  "as_answered p = (case p of Rejected_with e \<Rightarrow> Rejected_with (Thrown_error (error_of e)) | p \<Rightarrow> p)"

definition settled_as ::
    "'i graphviz \<Rightarrow> 'i \<Rightarrow> (string \<times> render_options) list \<Rightarrow> nat \<Rightarrow> string promise" where
  "settled_as gv i rs k = as_answered (fst (module_run (lite_render gv) rs i) ! k)"

lemma module_run_append:
  "module_run render (rs @ rs') i =
     (let (ps, i) = module_run render rs i; (ps', i) = module_run render rs' i in (ps @ ps', i))"
  by (induction rs arbitrary: i) (auto simp: Let_def split: prod.split)

lemma length_module_run [simp]: "length (fst (module_run render rs i)) = length rs"
  by (induction rs arbitrary: i) (auto simp: Let_def split_beta)

lemma settled_as_append: "k < length rs \<Longrightarrow> settled_as gv i (rs @ rs') k = settled_as gv i rs k"
  by (simp add: settled_as_def module_run_append Let_def split_beta nth_append)

text \<open>The worker does with a request what the module does.\<close>

lemma worker_as_next:
  assumes b: "b < length rs" "i' = snd (module_run (lite_render gv) (take b rs) i)"
    and r: "worker_onmessage gv \<lparr>request_id = b, request_src = fst (rs ! b), request_options = snd (rs ! b)\<rparr> i' = (a, i'')"
  shows "answer_id a = b \<and> outcome_promise (answer_outcome a) = settled_as gv i rs b \<and>
    i'' = snd (module_run (lite_render gv) (take (Suc b) rs) i)"
proof -
  obtain x j where x: "lite_render gv (fst (rs ! b)) (snd (rs ! b)) i' = (x, j)"
    by (cases "lite_render gv (fst (rs ! b)) (snd (rs ! b)) i'")
  have step: "module_run (lite_render gv) (take (Suc b) rs) i =
      (fst (module_run (lite_render gv) (take b rs) i) @ [promise_of x], j)"
    using b x by (cases "rs ! b")
      (simp add: take_Suc_conv_app_nth module_run_append ModuleWrapper_render_def Let_def split_beta)
  have "settled_as gv i rs b = settled_as gv i (take (Suc b) rs) b"
    using settled_as_append [of b "take (Suc b) rs" gv i "drop (Suc b) rs"] b(1) by simp
  also have "\<dots> = as_answered (promise_of x)"
    using b(1) by (simp add: settled_as_def step nth_append)
  finally show ?thesis
    using r x step by (cases x) (auto simp: worker_onmessage_def outcome_promise_def as_answered_def promise_of_def)
qed

section \<open>The invariant\<close>

text \<open>
  Of the requests the first \<open>a\<close> are answered, and the worker has worked on the first \<open>b\<close>.
\<close>

definition progress ::
    "'i graphviz \<Rightarrow> 'i \<Rightarrow> (string \<times> render_options) list \<Rightarrow> nat \<Rightarrow> nat \<Rightarrow> 'i worker_world \<Rightarrow> bool" where
  "progress gv i rs a b w \<longleftrightarrow> a \<le> b \<and> b \<le> length rs \<and>
     ww_wrapper w = \<lparr>wrapper_listeners = map (\<lambda>k. (k, k)) [a..<length rs], nextId = length rs\<rparr> \<and>
     ww_promises w = map (\<lambda>k. if k < a then settled_as gv i rs k else Pending) [0..<length rs] \<and>
     to_worker w = map (\<lambda>k. \<lparr>request_id = k, request_src = fst (rs ! k), request_options = snd (rs ! k)\<rparr>) [b..<length rs] \<and>
     map answer_id (from_worker w) = [a..<b] \<and>
     map (\<lambda>x. outcome_promise (answer_outcome x)) (from_worker w) = map (settled_as gv i rs) [a..<b] \<and>
     ww_instance w = snd (module_run (lite_render gv) (take b rs) i) \<and> ww_uncaught w = []"

lemma progress_lengths:
  "progress gv i rs a b w \<Longrightarrow> length (to_worker w) = length rs - b \<and> length (from_worker w) = b - a"
  by (auto simp: progress_def dest: arg_cong [of "map _ _" _ length])

lemma progress_new: "progress gv i [] 0 0 (worker_world_new i)"
  by (simp add: progress_def worker_world_new_def WorkerWrapper_new_def)

lemma progress_request:
  assumes "progress gv i rs a b w"
  shows "progress gv i (rs @ [(src, opts)]) a b (send_request src opts w)"
proof -
  let ?m = "length rs"
  have old: "map (settled_as gv i (rs @ [(src, opts)])) ks = map (settled_as gv i rs) ks" if "set ks \<subseteq> {..<?m}" for ks
    using that by (auto simp: settled_as_append intro!: map_cong)
  have "Map_set ?m ?m (map (\<lambda>k. (k, k)) [a..<?m]) = map (\<lambda>k. (k, k)) [a..<Suc ?m]"
    using assms by (subst update_absent) (auto simp: progress_def)
  moreover have "[0..<Suc ?m] = [0..<?m] @ [?m]" by simp
  moreover have "map (settled_as gv i (rs @ [(src, opts)])) [a..<b] = map (settled_as gv i rs) [a..<b]"
    using assms by (intro old) (auto simp: progress_def)
  ultimately show ?thesis
    using assms
    by (auto simp: progress_def send_request_def WorkerWrapper_render_def Let_def settled_as_append nth_append)
qed

lemma progress_work:
  assumes p: "progress gv i rs a b w" and t: "worker_turn gv w = Some w'"
  shows "b < length rs \<and> progress gv i rs a (Suc b) w'"
proof -
  let ?r = "\<lparr>request_id = b, request_src = fst (rs ! b), request_options = snd (rs ! b)\<rparr>"
  have "to_worker w \<noteq> []" using t by (auto simp: worker_turn.simps split: list.splits)
  then have b: "b < length rs" using progress_lengths [OF p] by (metis length_greater_0_conv zero_less_diff)
  then have q: "to_worker w = ?r # map (\<lambda>k. \<lparr>request_id = k, request_src = fst (rs ! k), request_options = snd (rs ! k)\<rparr>) [Suc b..<length rs]"
    using p by (simp add: progress_def upt_conv_Cons)
  obtain x j where x: "worker_onmessage gv ?r (ww_instance w) = (x, j)" by (cases "worker_onmessage gv ?r (ww_instance w)")
  have "ww_instance w = snd (module_run (lite_render gv) (take b rs) i)" using p by (simp add: progress_def)
  note step = worker_as_next [OF b this x]
  have w': "w' = w\<lparr>to_worker := map (\<lambda>k. \<lparr>request_id = k, request_src = fst (rs ! k), request_options = snd (rs ! k)\<rparr>) [Suc b..<length rs],
      from_worker := from_worker w @ [x], ww_instance := j\<rparr>"
    using t q x by (simp add: worker_turn.simps)
  show ?thesis using p b step by (simp add: progress_def w')
qed

lemma progress_answer:
  assumes p: "progress gv i rs a b w" and t: "page_turn w = Some w'"
  shows "a < b \<and> progress gv i rs (Suc a) b w'"
proof -
  obtain x as where q: "from_worker w = x # as" using t by (auto simp: page_turn.simps split: list.splits)
  then have ab: "a < b" using progress_lengths [OF p] by auto
  have m: "b \<le> length rs" using p by (simp add: progress_def)
  have x: "answer_id x = a" "map answer_id as = [Suc a..<b]"
    "outcome_promise (answer_outcome x) = settled_as gv i rs a"
    "map (\<lambda>x. outcome_promise (answer_outcome x)) as = map (settled_as gv i rs) [Suc a..<b]"
    using p q ab by (simp_all add: progress_def upt_conv_Cons)
  let ?ps = "map (\<lambda>k. if k < a then settled_as gv i rs k else Pending) [0..<length rs]"
  have l: "map (\<lambda>k. (k, k)) [a..<length rs] = (a, a) # map (\<lambda>k. (k, k)) [Suc a..<length rs]"
    using ab m by (simp add: upt_conv_Cons)
  have "Map_delete a (map (\<lambda>k. (k, k)) [Suc a..<length rs]) = map (\<lambda>k. (k, k)) [Suc a..<length rs]"
    by (rule delete_id) auto
  then have w': "w' = w\<lparr>ww_wrapper := \<lparr>wrapper_listeners = map (\<lambda>k. (k, k)) [Suc a..<length rs], nextId = length rs\<rparr>,
      ww_promises := listener a (answer_outcome x) ?ps, from_worker := as, ww_uncaught := []\<rparr>"
    using t p q x(1) by (simp add: page_turn.simps progress_def WorkerWrapper_onmessage_def l Let_def)
  have "listener a (answer_outcome x) ?ps = map (\<lambda>k. if k < Suc a then settled_as gv i rs k else Pending) [0..<length rs]"
    using ab m x(3) by (auto simp: listener_def settle_def less_Suc_eq intro!: nth_equalityI)
  with p ab x show ?thesis by (simp add: progress_def w')
qed

lemma life_progress: "worker_life gv i rs w \<Longrightarrow> \<exists>a b. progress gv i rs a b w"
proof (induction rule: worker_life.induct)
  case (turn rs w w')
  then show ?case by (auto elim!: turnE dest: progress_work progress_answer)
qed (auto intro: progress_new progress_request)

text \<open>How many turns are left.\<close>

definition turns_left :: "'i worker_world \<Rightarrow> nat" where
  "turns_left w = 2 * length (to_worker w) + length (from_worker w)"

lemma turns_progress:
  assumes "turns gv n w w'" "progress gv i rs a b w"
  shows "(\<exists>a' b'. progress gv i rs a' b' w') \<and> turns_left w' + n = turns_left w"
  using assms
proof (induction rule: turns.induct)
  case (more n w w' w'')
  then obtain a' b' where p: "progress gv i rs a' b' w'" and n: "turns_left w' + n = turns_left w" by blast
  have ab: "a' \<le> b'" "b' \<le> length rs" using p by (simp_all add: progress_def)
  from more.hyps(2) show ?case
  proof (cases rule: turn.cases)
    case work
    note step = progress_work [OF p work]
    from n step progress_lengths [OF p] progress_lengths [OF conjunct2 [OF step]] ab show ?thesis
      unfolding turns_left_def by (intro conjI exI) (rule conjunct2 [OF step], linarith)
  next
    case answered
    note step = progress_answer [OF p answered]
    from n step progress_lengths [OF p] progress_lengths [OF conjunct2 [OF step]] ab show ?thesis
      unfolding turns_left_def by (intro conjI exI) (rule conjunct2 [OF step], linarith)
  qed
qed (auto intro: turns.none)

lemma turn_possible: "turns_left w \<noteq> 0 \<Longrightarrow> \<exists>w'. turn gv w w'"
proof -
  assume "turns_left w \<noteq> 0"
  then consider r rs where "to_worker w = r # rs" | a as where "from_worker w = a # as"
    by (auto simp: turns_left_def neq_Nil_conv)
  then show ?thesis
  proof cases
    case (1 r rs)
    then have "worker_turn gv w \<noteq> None" by (simp add: worker_turn.simps split: prod.split)
    then show ?thesis using turn.work by blast
  next
    case (2 a as)
    then have "page_turn w \<noteq> None" by (simp add: page_turn.simps split: prod.split)
    then show ?thesis using turn.answered by blast
  qed
qed

end
