(* ===== verification/Viz_Image.thy ===== *)
theory Viz_Image
  imports Viz Double
begin

text \<open>
  The functions of \<^verbatim>\<open>src/gui/web/assets/scripts/viz.js\<close> that turn the text of a drawing into an
  image (lines 129-236). A JavaScript string is a list of 16-bit units here, since a drawing can
  contain any character; \<open>units\<close> gives those of a string of the rest of the development.
\<close>

section \<open>Text as bytes\<close>

definition units :: "string \<Rightarrow> nat list" where
  "units s = map of_char s"

text \<open>Pairs of surrogates are characters; a surrogate on its own is an \<open>URIError\<close>.\<close>

fun code_points :: "nat list \<Rightarrow> nat list option" where
  "code_points [] = Some []"
| "code_points (u # us) =
     (if u < 0xD800 \<or> 0xDFFF < u then map_option (Cons u) (code_points us)
      else if 0xDBFF < u then None
      else case us of
        [] \<Rightarrow> None
      | v # vs \<Rightarrow>
          if 0xDC00 \<le> v \<and> v \<le> 0xDFFF
          then map_option (Cons (0x10000 + (u - 0xD800) * 0x400 + (v - 0xDC00))) (code_points vs) else None)"

definition utf8 :: "nat \<Rightarrow> nat list" where
  "utf8 c =
     (if c < 0x80 then [c]
      else if c < 0x800 then [0xC0 + c div 0x40, 0x80 + c mod 0x40]
      else if c < 0x10000 then [0xE0 + c div 0x1000, 0x80 + c div 0x40 mod 0x40, 0x80 + c mod 0x40]
      else [0xF0 + c div 0x40000, 0x80 + c div 0x1000 mod 0x40, 0x80 + c div 0x40 mod 0x40, 0x80 + c mod 0x40])"

definition unreserved :: "nat \<Rightarrow> bool" where
  "unreserved c \<longleftrightarrow> c < 0x80 \<and> (char_of c :: char) \<in> set
     (''ABCDEFGHIJKLMNOPQRSTUVWXYZabcdefghijklmnopqrstuvwxyz0123456789-_.!~*()'' @ [CHR 0x27])"

definition hex_digits :: string where
  "hex_digits = ''0123456789ABCDEF''"

definition percent :: "nat \<Rightarrow> string" where
  "percent b = [CHR ''%'', hex_digits ! (b div 16), hex_digits ! (b mod 16)]"

definition encodeURIComponent :: "nat list \<Rightarrow> string option" where
  "encodeURIComponent us =
     map_option (\<lambda>cs. concat (map (\<lambda>c. if unreserved c then [char_of c] else concat (map percent (utf8 c))) cs))
       (code_points us)"

text \<open>The replacement of every match of \<^verbatim>\<open>/%([0-9A-F]{2})/g\<close> by the character of that code.\<close>

definition percent_value :: "char \<Rightarrow> nat option" where
  "percent_value c = find_index (\<lambda>d. d = c) hex_digits"

fun replace_percents :: "string \<Rightarrow> string" where
  "replace_percents (p # h # l # s) =
     (if p = CHR ''%'' then
        (case (percent_value h, percent_value l) of
           (Some x, Some y) \<Rightarrow> char_of (16 * x + y) # replace_percents s
         | _ \<Rightarrow> p # replace_percents (h # l # s))
      else p # replace_percents (h # l # s))"
| "replace_percents s = s"

section \<open>Base64\<close>

definition base64_digits :: string where
  "base64_digits = ''ABCDEFGHIJKLMNOPQRSTUVWXYZabcdefghijklmnopqrstuvwxyz0123456789+/''"

fun btoa :: "string \<Rightarrow> string" where
  "btoa [] = []"
| "btoa [a] =
     (let n = of_char a * 0x10
      in [base64_digits ! (n div 0x40), base64_digits ! (n mod 0x40), CHR ''='', CHR ''=''])"
| "btoa [a, b] =
     (let n = (of_char a * 0x100 + of_char b) * 4
      in [base64_digits ! (n div 0x1000), base64_digits ! (n div 0x40 mod 0x40), base64_digits ! (n mod 0x40), CHR ''=''])"
| "btoa (a # b # c # s) =
     (let n = (of_char a * 0x100 + of_char b) * 0x100 + of_char c
      in [base64_digits ! (n div 0x40000), base64_digits ! (n div 0x1000 mod 0x40), base64_digits ! (n div 0x40 mod 0x40),
          base64_digits ! (n mod 0x40)] @ btoa s)"

definition b64EncodeUnicode :: "nat list \<Rightarrow> string option" where
  "b64EncodeUnicode str = map_option (\<lambda>s. btoa (replace_percents s)) (encodeURIComponent str)"

section \<open>Images\<close>

text \<open>
  The width and height of an image and of a canvas are whole pixels: the browser drops the fraction of
  a number that is assigned. A scale is a number that is not negative; its product with a size
  is a double. Sizes past those of a canvas are left out.
\<close>

definition defaultScale :: "rat option \<Rightarrow> rat" where
  "defaultScale devicePixelRatio = (case devicePixelRatio of None \<Rightarrow> 1 | Some r \<Rightarrow> if 1 < r then r else 1)"

record image_options =
  scale :: "rat option"
  mimeType :: "string option"
  quality :: "rat option"

record 'b image =
  image_src :: 'b
  width :: nat
  height :: nat

definition canvas_size :: "rat \<Rightarrow> nat \<Rightarrow> nat" where
  "canvas_size s n = (case quotient_of s of (a, b) \<Rightarrow> double (nat a * n * one_double) (nat b) div one_double)"

text \<open>
  What the browser does is a parameter: loading the image gives its size or an event that may
  hold an error; the drawing on a canvas of a size becomes a \<open>Blob\<close> or none, for which making a
  URL throws in the callback, after which nobody settles the promise.
\<close>

datatype load_event = Loaded nat nat | Load_failed "thrown option"

definition svgXmlToImageElement ::
    "rat option \<Rightarrow> (string \<Rightarrow> load_event) \<Rightarrow> (nat \<Rightarrow> nat \<Rightarrow> string \<Rightarrow> rat \<Rightarrow> 'b option) \<Rightarrow>
       nat list \<Rightarrow> image_options \<Rightarrow> 'b image promise" where
  "svgXmlToImageElement ratio load draw svgXml opts =
     (let s = default_to (defaultScale ratio) (scale opts); mime = default_to ''image/png'' (mimeType opts);
          q = default_to 1 (quality opts)
      in case b64EncodeUnicode svgXml of
           None \<Rightarrow> Rejected_with (plain_error ''URIError'')
         | Some b64 \<Rightarrow>
             (case load (''data:image/svg+xml;base64,'' @ b64) of
                Loaded w h \<Rightarrow>
                  (case draw (canvas_size s w) (canvas_size s h) mime q of
                     None \<Rightarrow> Pending
                   | Some blob \<Rightarrow> Fulfilled \<lparr>image_src = blob, width = w, height = h\<rparr>)
              | Load_failed (Some e) \<Rightarrow> Rejected_with e
              | Load_failed None \<Rightarrow> Rejected_with (plain_error ''Error loading SVG'')))"

text \<open>
  Fabric gives the objects of the drawing and its size. Without objects the promise is rejected, but
  the callback goes on; what it does then changes no promise.
\<close>

definition fabric_format :: "string \<Rightarrow> string option" where
  "fabric_format mime =
     (if mime = ''image/jpeg'' then Some ''jpeg'' else if mime = ''image/png'' then Some ''png'' else None)"

definition svgXmlToImageElementFabric ::
    "rat option \<Rightarrow> (nat list \<Rightarrow> 'o list \<times> rat \<times> rat) \<Rightarrow> ('o list \<Rightarrow> nat \<Rightarrow> nat \<Rightarrow> string option \<Rightarrow> rat \<Rightarrow> rat \<Rightarrow> 'b) \<Rightarrow>
       nat list \<Rightarrow> image_options \<Rightarrow> 'b image promise" where
  "svgXmlToImageElementFabric ratio loadSVGFromString toDataURL svgXml opts =
     (let multiplier = default_to (defaultScale ratio) (scale opts); mime = default_to ''image/png'' (mimeType opts);
          q = default_to 1 (quality opts); format = fabric_format mime;
          (objects, options_width, options_height) = loadSVGFromString svgXml;
          w = nat \<lfloor>options_width\<rfloor>; h = nat \<lfloor>options_height\<rfloor>
      in if objects = [] then Rejected_with (plain_error ''Error loading SVG with Fabric'')
         else Fulfilled \<lparr>image_src = toDataURL objects w h format multiplier q, width = w, height = h\<rparr>)"

text \<open>The callback of \<open>renderImageElement\<close> uses Fabric if the page has it.\<close>

definition image_element ::
    "(nat list \<Rightarrow> image_options \<Rightarrow> 'b image promise) option \<Rightarrow> (nat list \<Rightarrow> image_options \<Rightarrow> 'b image promise) \<Rightarrow>
       image_options \<Rightarrow> string promise \<Rightarrow> 'b image promise" where
  "image_element fabric plain opts p =
     promise_then p (\<lambda>str. case fabric of Some f \<Rightarrow> f (units str) opts | None \<Rightarrow> plain (units str) opts)"

end
