(* ===== verification/Viz_Encoding.thy ===== *)
theory Viz_Encoding
  imports Viz_Image
begin

text \<open>
  What the browser decodes of the data URL of a drawing (\<open>Viz_Image\<close>): Base64 to bytes, UTF-8 to
  characters, and those to the units of a JavaScript string; and the proof that it is the text.
\<close>

section \<open>Decoding\<close>

definition base64_value :: "char \<Rightarrow> nat" where
  "base64_value c = the (find_index (\<lambda>d. d = c) base64_digits)"

fun base64_decode :: "string \<Rightarrow> nat list" where
  "base64_decode (a # b # c # d # s) =
     (if d = CHR ''='' then
        if c = CHR ''='' then [(base64_value a * 0x40 + base64_value b) div 0x10]
        else
          (let n = (base64_value a * 0x40 + base64_value b) * 0x40 + base64_value c
           in [n div 0x400, n div 4 mod 0x100])
      else
        (let n = ((base64_value a * 0x40 + base64_value b) * 0x40 + base64_value c) * 0x40 + base64_value d
         in [n div 0x10000, n div 0x100 mod 0x100, n mod 0x100] @ base64_decode s))"
| "base64_decode s = []"

fun utf8_decode :: "nat list \<Rightarrow> nat list" where
  "utf8_decode [] = []"
| "utf8_decode (b # bs) =
     (if b < 0x80 then b # utf8_decode bs
      else if b < 0xE0 then
        (case bs of c # bs \<Rightarrow> ((b - 0xC0) * 0x40 + (c - 0x80)) # utf8_decode bs | _ \<Rightarrow> [])
      else if b < 0xF0 then
        (case bs of c # d # bs \<Rightarrow> (((b - 0xE0) * 0x40 + (c - 0x80)) * 0x40 + (d - 0x80)) # utf8_decode bs | _ \<Rightarrow> [])
      else
        (case bs of
           c # d # e # bs \<Rightarrow>
             ((((b - 0xF0) * 0x40 + (c - 0x80)) * 0x40 + (d - 0x80)) * 0x40 + (e - 0x80)) # utf8_decode bs
         | _ \<Rightarrow> []))"

definition utf16 :: "nat \<Rightarrow> nat list" where
  "utf16 c =
     (if c < 0x10000 then [c] else [0xD800 + (c - 0x10000) div 0x400, 0xDC00 + (c - 0x10000) mod 0x400])"

definition scalar :: "nat \<Rightarrow> bool" where
  "scalar c \<longleftrightarrow> c < 0x110000 \<and> (c < 0xD800 \<or> 0xDFFF < c)"

section \<open>Digits\<close>

lemma split_digits:
  "x div 4096 * 64 + x div 64 mod 64 = (x div 64 :: nat)"
  "x div 262144 * 64 + x div 4096 mod 64 = (x div 4096 :: nat)"
  "x div 64 * 64 + x mod 64 = (x :: nat)"
  using div_mult2_eq [of x 64 64] div_mult2_eq [of x 4096 64]
    div_mult_mod_eq [of "x div 64" 64] div_mult_mod_eq [of "x div 4096" 64] by simp_all

lemma surrogates:
  "y < 0x400 \<Longrightarrow> (0x10000 + x * 0x400 + y - 0x10000) div 0x400 = (x :: nat)"
  "y < 0x400 \<Longrightarrow> (0x10000 + x * 0x400 + y - 0x10000) mod 0x400 = (y :: nat)"
  by (simp_all add: div_mult_self3 add.assoc)

section \<open>Units and characters\<close>

lemma code_points_scalar:
  "code_points us = Some cs \<Longrightarrow> \<forall>u\<in>set us. u < 0x10000 \<Longrightarrow> list_all scalar cs \<and> concat (map utf16 cs) = us"
proof (induction us arbitrary: cs rule: code_points.induct)
  case (2 u us)
  show ?case
  proof (cases "u < 0xD800 \<or> 0xDFFF < u")
    case True
    with 2 show ?thesis by (auto simp: scalar_def utf16_def)
  next
    case False
    with 2 obtain v vs cs' where v: "u \<le> 0xDBFF" "us = v # vs" "0xDC00 \<le> v" "v \<le> 0xDFFF" "code_points vs = Some cs'"
      "cs = (0x10000 + (u - 0xD800) * 0x400 + (v - 0xDC00)) # cs'"
      by (auto split: list.splits if_splits)
    let ?c = "0x10000 + (u - 0xD800) * 0x400 + (v - 0xDC00)"
    have "scalar ?c" using v False by (simp add: scalar_def)
    moreover have "utf16 ?c = [u, v]"
      using v False surrogates [of "v - 0xDC00" "u - 0xD800"] by (simp add: utf16_def del: add_diff_cancel_left')
    moreover have "list_all scalar cs' \<and> concat (map utf16 cs') = vs"
      using 2(2) [OF _ _ v(2)] 2(3,4) False v by simp
    ultimately show ?thesis using v by simp
  qed
qed simp

lemma code_points_utf16: "list_all scalar cs \<Longrightarrow> code_points (concat (map utf16 cs)) = Some cs"
proof (induction cs)
  case (Cons c cs)
  show ?case
  proof (cases "c < 0x10000")
    case True
    with Cons show ?thesis by (auto simp: utf16_def scalar_def)
  next
    case False
    let ?u = "0xD800 + (c - 0x10000) div 0x400" and ?v = "0xDC00 + (c - 0x10000) mod 0x400"
    have "c < 0x110000" using Cons.prems by (simp add: scalar_def)
    then have "?u < 0xDC00" by linarith
    moreover have "?v \<le> 0xDFFF" by simp
    moreover have "0x10000 + (?u - 0xD800) * 0x400 + (?v - 0xDC00) = c" using False by simp
    ultimately show ?thesis using Cons False by (simp add: utf16_def)
  qed
qed simp

section \<open>UTF-8\<close>

lemma utf8_bytes: "c < 0x110000 \<Longrightarrow> b \<in> set (utf8 c) \<Longrightarrow> b < 0x100"
  by (auto simp: utf8_def split: if_splits)

lemma utf8_round: "c < 0x110000 \<Longrightarrow> utf8_decode (utf8 c @ bs) = c # utf8_decode bs"
proof -
  assume "c < 0x110000"
  then consider "c < 0x80" | "0x80 \<le> c" "c < 0x800" | "0x800 \<le> c" "c < 0x10000" | "0x10000 \<le> c" "c < 0x110000"
    by linarith
  then show ?thesis
  proof cases
    case 3
    then have "c div 0x1000 < 0x10" by linarith
    with 3 show ?thesis by (simp add: utf8_def split_digits)
  next
    case 4
    then have "c div 0x40000 < 8" by linarith
    moreover have "4096 * (c div 4096) + c div 64 mod 64 * 64 + c mod 64 = c"
      using split_digits(1,3) [of c] by linarith
    ultimately show ?thesis using 4 by (simp add: utf8_def split_digits)
  qed (auto simp: utf8_def)
qed

lemma utf8_decode_encoded: "list_all scalar cs \<Longrightarrow> utf8_decode (concat (map utf8 cs)) = cs"
  by (induction cs) (simp_all add: scalar_def utf8_round)

section \<open>Percent encoding\<close>

lemma percent_value_digit: "n < 16 \<Longrightarrow> percent_value (hex_digits ! n) = Some n"
proof -
  have d: "distinct hex_digits" "length hex_digits = 16" by code_simp+
  assume "n < 16"
  with d show ?thesis unfolding percent_value_def by (intro find_index_SomeI) (auto simp: nth_eq_iff_index_eq)
qed

lemma replace_percent: "b < 0x100 \<Longrightarrow> replace_percents (percent b @ s) = char_of b # replace_percents s"
  by (simp add: percent_def percent_value_digit)

lemma replace_other: "c \<noteq> CHR ''%'' \<Longrightarrow> replace_percents (c # s) = c # replace_percents s"
  by (cases s; cases "tl s") auto

lemma replace_bytes:
  "\<forall>b\<in>set bs. b < 0x100 \<Longrightarrow> replace_percents (concat (map percent bs) @ s) = map char_of bs @ replace_percents s"
  by (induction bs) (simp_all add: replace_percent)

lemma unreserved_byte:
  assumes "unreserved c"
  shows "char_of c \<noteq> CHR ''%''" "utf8 c = [c]"
proof -
  have "CHR ''%'' \<notin> set (''ABCDEFGHIJKLMNOPQRSTUVWXYZabcdefghijklmnopqrstuvwxyz0123456789-_.!~*()'' @ [CHR 0x27])"
    by code_simp
  with assms show "char_of c \<noteq> CHR ''%''" unfolding unreserved_def by metis
  show "utf8 c = [c]" using assms by (simp add: unreserved_def utf8_def)
qed

lemma replace_encoded:
  assumes "encodeURIComponent us = Some s" "code_points us = Some cs" "list_all scalar cs"
  shows "map of_char (replace_percents s) = concat (map utf8 cs)"
proof -
  let ?f = "\<lambda>c. if unreserved c then [char_of c] else concat (map percent (utf8 c))"
  have one: "replace_percents (?f c @ t) = map char_of (utf8 c) @ replace_percents t" if "scalar c" for c t
    using that unreserved_byte [of c] replace_bytes [of "utf8 c" t] utf8_bytes [of c]
    by (auto simp: scalar_def replace_other)
  have "replace_percents (concat (map ?f cs)) = map char_of (concat (map utf8 cs))"
    using assms(3)
  proof (induction cs)
    case (Cons c cs)
    then show ?case by (simp add: one del: if_split)
  qed simp
  moreover have "s = concat (map ?f cs)" using assms(1,2) by (simp add: encodeURIComponent_def)
  moreover have "map of_char (map char_of bs :: string) = bs" if "\<forall>b\<in>set bs. b < 0x100" for bs :: "nat list"
    using that by (induction bs) simp_all
  moreover have "\<forall>b\<in>set (concat (map utf8 cs)). b < 0x100"
    using assms(3) utf8_bytes by (auto simp: list_all_iff scalar_def)
  ultimately show ?thesis by simp
qed

section \<open>Base64\<close>

lemma base64_value_digit: "n < 0x40 \<Longrightarrow> base64_value (base64_digits ! n) = n \<and> base64_digits ! n \<noteq> CHR ''=''"
proof -
  have d: "distinct base64_digits" "length base64_digits = 0x40" "CHR ''='' \<notin> set base64_digits" by code_simp+
  assume n: "n < 0x40"
  with d have "find_index (\<lambda>x. x = base64_digits ! n) base64_digits = Some n"
    by (intro find_index_SomeI) (auto simp: nth_eq_iff_index_eq)
  moreover have "base64_digits ! n \<in> set base64_digits" using n d(2) by simp
  ultimately show ?thesis using d(3) unfolding base64_value_def by auto
qed

lemma base64_round: "base64_decode (btoa s) = map of_char s"
proof (induction s rule: btoa.induct)
  case (2 a)
  define n :: nat where "n = of_char a * 0x10"
  have "of_char a < (0x100 :: nat)" by simp
  then have "n div 0x40 < 0x40" unfolding n_def by linarith
  moreover have "n div 0x10 = of_char a" unfolding n_def by simp
  ultimately show ?case by (simp add: base64_value_digit split_digits n_def [symmetric] del: div_mult_mod_eq)
next
  case (3 a b)
  define n :: nat where "n = (of_char a * 0x100 + of_char b) * 4"
  have ab: "of_char a < (0x100 :: nat)" "of_char b < (0x100 :: nat)" by simp_all
  have two: "z * 4 div 0x1000 = z div 0x400" "z * 4 div 0x400 = z div 0x100" "z * 4 div 4 = z" for z :: nat
    using div_mult_mult2 [of 4 z "0x400"] div_mult_mult2 [of 4 z "0x100"] by simp_all
  have "of_char a * 0x100 + of_char b < (0x40 * 0x400 :: nat)" using ab by linarith
  then have "(of_char a * 0x100 + of_char b) div 0x400 < (0x40 :: nat)" by simp
  then have "n div 0x1000 < 0x40" by (simp only: n_def two)
  moreover have "n div 0x400 = of_char a" "n div 4 mod 0x100 = of_char b" unfolding n_def two using ab by simp_all
  moreover have "btoa [a, b] = [base64_digits ! (n div 0x1000), base64_digits ! (n div 0x40 mod 0x40), base64_digits ! (n mod 0x40), CHR ''='']"
    by (simp only: btoa.simps Let_def n_def)
  ultimately show ?case by (simp add: base64_value_digit split_digits del: btoa.simps)
next
  case (4 a b c s)
  define z :: nat where "z = of_char a * 0x100 + of_char b"
  define n :: nat where "n = z * 0x100 + of_char c"
  have abc: "of_char a < (0x100 :: nat)" "of_char b < (0x100 :: nat)" "of_char c < (0x100 :: nat)" by simp_all
  have z: "z < 0x10000" "z div 0x100 = of_char a" "z mod 0x100 = of_char b"
    using abc unfolding z_def by (linarith, simp_all)
  have "n < 0x1000000" using z(1) abc(3) unfolding n_def by linarith
  then have "n div 0x40000 < 0x40" by simp
  moreover have c: "n div 0x100 = z" "n mod 0x100 = of_char c" using abc unfolding n_def by simp_all
  moreover have "n div 0x10000 = of_char a" using div_mult2_eq [of n "0x100" "0x100"] c z by simp
  moreover have "btoa (a # b # c # s) = [base64_digits ! (n div 0x40000), base64_digits ! (n div 0x1000 mod 0x40),
      base64_digits ! (n div 0x40 mod 0x40), base64_digits ! (n mod 0x40)] @ btoa s"
    by (simp only: btoa.simps Let_def n_def z_def)
  ultimately show ?case using 4 z by (simp add: base64_value_digit split_digits del: btoa.simps)
qed simp

text \<open>What the URL of a text holds is the text.\<close>

lemma b64_round:
  assumes "\<forall>u\<in>set us. u < 0x10000" "b64EncodeUnicode us = Some t"
  shows "concat (map utf16 (utf8_decode (base64_decode t))) = us"
proof -
  from assms(2) obtain s where s: "encodeURIComponent us = Some s" "t = btoa (replace_percents s)"
    by (auto simp: b64EncodeUnicode_def)
  then obtain cs where cs: "code_points us = Some cs" by (auto simp: encodeURIComponent_def)
  note sc = code_points_scalar [OF cs assms(1)]
  have "base64_decode t = concat (map utf8 cs)"
    using replace_encoded [OF s(1) cs] sc by (simp add: s(2) base64_round)
  with sc show ?thesis by (simp add: utf8_decode_encoded)
qed

lemma b64_None_iff:
  assumes "\<forall>u\<in>set us. u < 0x10000"
  shows "b64EncodeUnicode us = None \<longleftrightarrow> \<not> (\<exists>cs. list_all scalar cs \<and> concat (map utf16 cs) = us)"
proof -
  have "code_points us = None \<longleftrightarrow> \<not> (\<exists>cs. list_all scalar cs \<and> concat (map utf16 cs) = us)"
    using code_points_scalar [OF _ assms] code_points_utf16 by (cases "code_points us") force+
  then show ?thesis by (simp add: b64EncodeUnicode_def encodeURIComponent_def)
qed

end
