(* ===== verification/Viz_Properties.thy ===== *)
theory Viz_Properties
  imports Viz_Worker Viz_Encoding Node_Page
begin

text \<open>
  The properties of \<^verbatim>\<open>src/gui/web/assets/scripts/viz.js\<close> and \<^verbatim>\<open>viz.lite.render.js\<close>: a worker serves
  the page as a module does, and comes to an end; what the methods of \<open>Viz\<close> ask the renderer for;
  which scripts a page needs; and what the URL of an image holds.
\<close>

section \<open>The worker\<close>

text \<open>A Graphviz for the examples: it knows one mistake, and its state is what it did last.\<close>

definition example_graphviz :: "(string \<times> string) graphviz" where
  "example_graphviz =
     \<lparr>vizCreateFile = (\<lambda>p d. give (Inr ())), vizSetY_invert = (\<lambda>y. give (Inr ())), vizSetNop = (\<lambda>n. give (Inr ())),
      vizRenderFromString = (\<lambda>src f e i. (Inr 1, if src = ''}'' then ([], ''syntax error'') else (f @ '':'' @ src, []))),
      vizLastErrorMessage = give (Inr 2), Pointer_stringify = (\<lambda>p i. (Inr (if p = 1 then fst i else snd i), i)),
      free_pointer = (\<lambda>p. give (Inr ()))\<rparr>"

definition example_options :: render_options where
  "example_options = snd (Viz_renderString
     \<lparr>opt_format = None, opt_engine = None, opt_files = None, opt_images = None, opt_yInvert = None, opt_nop = None\<rparr>)"

definition example_requests :: "(string \<times> render_options) list" where
  "example_requests = [(''{}'', example_options), (''}'', example_options)]"

definition example_world :: "(string \<times> string) worker_world" where
  "example_world = send_request ''}'' example_options (send_request ''{}'' example_options (worker_world_new ([], [])))"

definition example_end :: "(string \<times> string) worker_world" where
  "example_end = the (page_turn (the (page_turn (the (worker_turn example_graphviz
     (the (worker_turn example_graphviz example_world)))))))"

lemma example_life: "worker_life example_graphviz ([], []) example_requests example_world"
  using worker_life.request [OF worker_life.request [OF worker_life.new]]
  unfolding example_requests_def example_world_def by fastforce

text \<open>C14: A page that renders with a worker gets what it would get from a module in the page, one
  promise for each request and in the order of the requests, except that a thrown value which is
  no Error arrives as an Error with its text: at any time the promises are settled as the module
  settles them up to some request, and those after it are pending. No message throws.\<close>

theorem worker_as_module:
  assumes "worker_life gv i rs w"
  shows "\<exists>a \<le> length rs.
    ww_promises w =
      take a (map as_answered (fst (module_run (lite_render gv) rs i))) @ replicate (length rs - a) Pending \<and>
    ww_uncaught w = []"
proof -
  obtain a b where p: "progress gv i rs a b w" using life_progress [OF assms] by blast
  then have "ww_promises w =
      take a (map as_answered (fst (module_run (lite_render gv) rs i))) @ replicate (length rs - a) Pending"
    by (auto simp: progress_def settled_as_def nth_append intro!: nth_equalityI)
  with p show ?thesis by (intro exI [of _ a]) (simp add: progress_def)
qed

theorem worker_as_module_witness:
  "\<exists>a \<le> length example_requests. ww_promises example_world =
      take a (map as_answered (fst (module_run (lite_render example_graphviz) example_requests ([], [])))) @
      replicate (length example_requests - a) Pending \<and> ww_uncaught example_world = []"
  by (rule worker_as_module [OF example_life])

lemma example_ends: "turns example_graphviz 4 example_world example_end"
proof -
  let ?t = "worker_turn example_graphviz" and ?w = example_world
  have "?t ?w \<noteq> None" "?t (the (?t ?w)) \<noteq> None" "page_turn (the (?t (the (?t ?w)))) \<noteq> None"
    "page_turn (the (page_turn (the (?t (the (?t ?w)))))) \<noteq> None"
    by code_simp+
  then obtain w1 w2 w3 w4 where w: "?t ?w = Some w1" "?t w1 = Some w2" "page_turn w2 = Some w3" "page_turn w3 = Some w4"
    by auto
  note turn.work [OF w(1)] turn.work [OF w(2)] turn.answered [OF w(3)] turn.answered [OF w(4)]
  then have "turns example_graphviz (Suc (Suc (Suc (Suc 0)))) ?w w4" by (meson turns.intros)
  moreover have "example_end = w4" by (simp add: example_end_def w)
  ultimately have "turns example_graphviz (Suc (Suc (Suc (Suc 0)))) ?w example_end" by simp
  then show ?thesis by (simp add: eval_nat_numeral)
qed

text \<open>C15: The worker and the page come to an end with any requests, and always after the same number
  of turns, two for each request that has not reached the worker and one for each answer that
  has not reached the page, in whichever order the turns are taken: before that another turn can
  be taken, and after them every promise is settled, as the module settles it, with nothing left
  to be sent and no listener left behind.\<close>

theorem worker_finishes:
  assumes "worker_life gv i rs w" "turns gv n w w'"
  shows "n \<le> turns_left w \<and>
    (n < turns_left w \<longrightarrow> (\<exists>w''. turns gv (Suc n) w w'')) \<and>
    (n = turns_left w \<longrightarrow>
      ww_promises w' = map as_answered (fst (module_run (lite_render gv) rs i)) \<and>
      to_worker w' = [] \<and> from_worker w' = [] \<and> wrapper_listeners (ww_wrapper w') = [])"
proof (intro conjI impI)
  obtain a b where "progress gv i rs a b w" using life_progress [OF assms(1)] by blast
  note end_state = turns_progress [OF assms(2) this]
  then have n: "turns_left w' + n = turns_left w" by blast
  from end_state obtain a' b' where p: "progress gv i rs a' b' w'" by blast
  show "n \<le> turns_left w" using n by linarith
  show "\<exists>w''. turns gv (Suc n) w w''" if "n < turns_left w"
    using turn_possible [of w' gv] assms(2) n that by (metis add_cancel_left_left less_irrefl turns.more)
  assume "n = turns_left w"
  then have e: "to_worker w' = []" "from_worker w' = []" using n by (simp_all add: turns_left_def)
  then have "b' = length rs" "a' = b'" using p progress_lengths [OF p] by (auto simp: progress_def)
  with p show "ww_promises w' = map as_answered (fst (module_run (lite_render gv) rs i))"
    "wrapper_listeners (ww_wrapper w') = []" "to_worker w' = []" "from_worker w' = []"
    using e by (auto simp: progress_def settled_as_def intro!: nth_equalityI)
qed

theorem worker_finishes_witness:
  "turns_left example_world = 4 \<and>
    ww_promises example_end = map as_answered (fst (module_run (lite_render example_graphviz) example_requests ([], []))) \<and>
    ww_promises example_end = [Fulfilled ''svg:{}'', Rejected_with (plain_error ''syntax error'')] \<and>
    wrapper_listeners (ww_wrapper example_end) = []"
proof -
  have "turns_left example_world = 4"
    "ww_promises example_end = [Fulfilled ''svg:{}'', Rejected_with (plain_error ''syntax error'')]" by code_simp+
  with worker_finishes [OF example_life example_ends] show ?thesis by simp
qed

section \<open>What the renderer is asked for\<close>

text \<open>What one of the methods of \<open>Viz\<close> leaves in the options it is called with, after several calls.\<close>

definition after_calls :: "(viz_options \<Rightarrow> viz_options \<times> render_options) list \<Rightarrow> viz_options \<Rightarrow> viz_options" where
  "after_calls ms opts = fold (\<lambda>m opts. fst (m opts)) ms opts"

definition viz_methods :: "(viz_options \<Rightarrow> viz_options \<times> render_options) set" where
  "viz_methods = {Viz_renderString, Viz_renderSVGElement, Viz_renderImageElement, Viz_renderJSONObject}"

lemma method_options:
  "m \<in> viz_methods \<Longrightarrow>
     opt_images (fst (m opts)) = opt_images opts \<and>
     opt_files (fst (m opts)) = map_option (\<lambda>fs. fs @ map image_file (default_to [] (opt_images opts))) (opt_files opts) \<and>
     render_files (snd (m opts)) = default_to [] (opt_files opts) @ map image_file (default_to [] (opt_images opts))"
  by (cases "opt_files opts")
    (auto simp: viz_methods_def Viz_renderSVGElement_def Viz_renderImageElement_def Viz_renderJSONObject_def
      with_format_def Viz_renderString_def Let_def default_to_def)

lemma after_calls_options:
  "set ms \<subseteq> viz_methods \<Longrightarrow>
     opt_images (after_calls ms opts) = opt_images opts \<and>
     opt_files (after_calls ms opts) =
       map_option (\<lambda>fs. fs @ concat (replicate (length ms) (map image_file (default_to [] (opt_images opts))))) (opt_files opts)"
proof (induction ms arbitrary: opts)
  case (Cons m ms)
  then have "m \<in> viz_methods" "set ms \<subseteq> viz_methods" by simp_all
  with Cons.IH [of "fst (m opts)"] method_options [of m opts] show ?case
    by (simp add: after_calls_def option.map_comp comp_def)
qed (simp add: after_calls_def option.map_ident)

text \<open>C30: With an array of files in its options, every method of Viz leaves the files of the images
  in that array, so that after some calls with the same options the next one asks the renderer
  to make each of these files once for each call; without such an array it makes each once.
  Images and elements are drawn as SVG, and the JSON object asks for the format json whatever
  the options say.\<close>

theorem files_accumulate:
  assumes "set ms \<subseteq> viz_methods" "m \<in> viz_methods"
  shows "render_files (snd (m (after_calls ms opts))) =
      default_to [] (opt_files opts) @
      concat (replicate (if opt_files opts = None then 1 else Suc (length ms)) (map image_file (default_to [] (opt_images opts)))) \<and>
    render_format (snd (Viz_renderSVGElement opts)) = ''svg'' \<and>
    render_format (snd (Viz_renderImageElement opts)) = ''svg'' \<and>
    render_format (snd (Viz_renderJSONObject opts)) = ''json''"
proof -
  have "concat (replicate k xs) @ xs = xs @ concat (replicate k xs)" for k and xs :: "(string \<times> string) list"
    by (induction k) auto
  with method_options [OF assms(2), of "after_calls ms opts"] after_calls_options [OF assms(1), of opts]
  have "render_files (snd (m (after_calls ms opts))) =
      default_to [] (opt_files opts) @
      concat (replicate (if opt_files opts = None then 1 else Suc (length ms)) (map image_file (default_to [] (opt_images opts))))"
    by (cases "opt_files opts") (simp_all add: default_to_def)
  then show ?thesis
    by (simp add: Viz_renderSVGElement_def Viz_renderImageElement_def Viz_renderJSONObject_def with_format_def
        Viz_renderString_def Let_def default_to_def)
qed

theorem files_accumulate_witness:
  "let im = \<lparr>image_path = ''a.png'', image_width = ''10px'', image_height = ''8px''\<rparr>;
       opts = \<lparr>opt_format = Some ''json0'', opt_engine = None, opt_files = Some [(''b'', ''c'')], opt_images = Some [im],
                opt_yInvert = None, opt_nop = None\<rparr>
   in render_files (snd (Viz_renderJSONObject (after_calls [Viz_renderString, Viz_renderSVGElement] opts))) =
        [(''b'', ''c''), image_file im, image_file im, image_file im] \<and>
      render_format (snd (Viz_renderJSONObject opts)) = ''json''"
proof -
  have "set [Viz_renderString, Viz_renderSVGElement] \<subseteq> viz_methods" "Viz_renderJSONObject \<in> viz_methods"
    by (simp_all add: viz_methods_def)
  from files_accumulate [OF this] show ?thesis by (simp add: Let_def default_to_def)
qed

section \<open>The scripts of a page\<close>

definition viz_script :: "string \<Rightarrow> script" where
  "viz_script src =
     (if src = ''assets/scripts/viz.js'' then Viz_script
      else if src = ''assets/scripts/viz.lite.render.js'' then Lite_script else Other_script)"

definition page_scripts :: "document \<Rightarrow> script list" where
  "page_scripts d =
     map (\<lambda>x. case node_attribute x ''src'' of None \<Rightarrow> Other_script | Some src \<Rightarrow> viz_script src)
       (filter (\<lambda>x. ntag x = ''SCRIPT'') (all_nodes d))"

definition globals_after :: "script list \<Rightarrow> viz_globals" where
  "globals_after ss = fold run_script ss \<lparr>viz_defined = False, viz_renderer = False\<rparr>"

definition renderer_loaded :: "script list \<Rightarrow> bool" where
  "renderer_loaded ss \<longleftrightarrow> Lite_script \<in> set (takeWhile (\<lambda>s. s \<noteq> Viz_script) (rev ss)) \<and> Viz_script \<in> set ss"

lemma globals_after_snoc: "globals_after (ss @ [s]) = run_script s (globals_after ss)"
  by (simp add: globals_after_def)

lemma globals_after_eq:
  "viz_defined (globals_after ss) = (Viz_script \<in> set ss) \<and> viz_renderer (globals_after ss) = renderer_loaded ss"
proof (induction ss rule: rev_induct)
  case (snoc s ss)
  then show ?case by (cases s) (auto simp: globals_after_snoc renderer_loaded_def)
qed (simp add: globals_after_def renderer_loaded_def)

text \<open>C31: A Viz made without options takes the module of the page exactly when the page has run
  viz.js and then viz.lite.render.js, with no viz.js after it; otherwise making it throws. The
  scripts of node.html are in that order, so the routing graph of the page has a renderer.\<close>

theorem page_has_renderer:
  "(Viz_new (globals_after ss) no_config = Inr Global_module \<longleftrightarrow> renderer_loaded ss) \<and>
   (\<exists>m. Viz_new (globals_after ss) no_config = Inl (plain_error m)) = (\<not> renderer_loaded ss) \<and>
   page_scripts node_page = [Other_script, Viz_script, Lite_script, Other_script, Other_script] \<and>
   Viz_new (globals_after (page_scripts node_page)) no_config = Inr Global_module"
proof -
  have p: "page_scripts node_page = [Other_script, Viz_script, Lite_script, Other_script, Other_script]" by code_simp
  have "Viz_new (globals_after ss) no_config =
      (if renderer_loaded ss then Inr Global_module else Viz_new \<lparr>viz_defined = False, viz_renderer = False\<rparr> no_config)" for ss
    by (simp add: Viz_new_def no_config_def globals_after_eq)
  moreover have "\<exists>m. Viz_new \<lparr>viz_defined = False, viz_renderer = False\<rparr> no_config = Inl (plain_error m)"
    by (intro exI) (simp add: Viz_new_def no_config_def)
  moreover have "renderer_loaded (page_scripts node_page)" unfolding p by (simp add: renderer_loaded_def)
  ultimately show ?thesis using p by auto
qed

section \<open>The URL of an image\<close>

text \<open>The units of a text whose surrogates come in pairs.\<close>

definition well_formed :: "nat list \<Rightarrow> bool" where
  "well_formed us \<longleftrightarrow> (\<exists>cs. list_all scalar cs \<and> concat (map utf16 cs) = us)"

text \<open>C16: The Base64 text that the data URL of a drawing carries holds exactly the text of the
  drawing: decoding it, as UTF-8, gives the text back, whatever characters it has; there is no
  such text, and encodeURIComponent throws, exactly when the drawing has a surrogate without its
  partner.\<close>

theorem image_url_round_trip:
  assumes "\<forall>u\<in>set us. u < 0x10000"
  shows "case b64EncodeUnicode us of
      None \<Rightarrow> \<not> well_formed us
    | Some t \<Rightarrow> well_formed us \<and> concat (map utf16 (utf8_decode (base64_decode t))) = us"
  using b64_round [OF assms] b64_None_iff [OF assms]
  by (cases "b64EncodeUnicode us") (auto simp: well_formed_def)

lemma example_encoded: "encodeURIComponent [0x3C, 0xE9, 0x20AC, 0xD83D, 0xDE00] = Some ''%3C%C3%A9%E2%82%AC%F0%9F%98%80''"
proof -
  have "\<not> unreserved 0x3C" by code_simp
  moreover have "\<not> unreserved 0xE9" "\<not> unreserved 0x20AC" "\<not> unreserved 0x1F600" by (simp_all add: unreserved_def)
  moreover have "map percent [0x3C, 0xC3, 0xA9, 0xE2, 0x82, 0xAC, 0xF0, 0x9F, 0x98, 0x80] =
    [''%3C'', ''%C3'', ''%A9'', ''%E2'', ''%82'', ''%AC'', ''%F0'', ''%9F'', ''%98'', ''%80'']" by code_simp
  ultimately show ?thesis by (simp add: encodeURIComponent_def utf8_def)
qed

lemma example_bytes: "replace_percents ''%3C%C3%A9%E2%82%AC%F0%9F%98%80'' =
   [CHR ''<'', CHR 0xC3, CHR 0xA9, CHR 0xE2, CHR 0x82, CHR 0xAC, CHR 0xF0, CHR 0x9F, CHR 0x98, CHR 0x80]"
  by code_simp

lemma example_digits: "btoa [CHR ''<'', CHR 0xC3, CHR 0xA9, CHR 0xE2, CHR 0x82, CHR 0xAC, CHR 0xF0, CHR 0x9F, CHR 0x98, CHR 0x80] = ''PMOp4oKs8J+YgA==''"
  by (simp add: base64_digits_def)

theorem image_url_round_trip_witness:
  "b64EncodeUnicode [0x3C, 0xE9, 0x20AC, 0xD83D, 0xDE00] = Some ''PMOp4oKs8J+YgA=='' \<and>
   concat (map utf16 (utf8_decode (base64_decode ''PMOp4oKs8J+YgA==''))) = [0x3C, 0xE9, 0x20AC, 0xD83D, 0xDE00]"
proof -
  have "b64EncodeUnicode [0x3C, 0xE9, 0x20AC, 0xD83D, 0xDE00] = Some ''PMOp4oKs8J+YgA==''"
    by (simp only: b64EncodeUnicode_def example_encoded option.map example_bytes example_digits)
  moreover have "\<forall>u\<in>set [0x3C, 0xE9, 0x20AC, 0xD83D, 0xDE00]. u < (0x10000 :: nat)" by simp
  note round = image_url_round_trip [OF this]
  ultimately show ?thesis using round by (simp only: option.case)
qed

text \<open>
  The image that is made of a drawing: the browser loads a URL that holds the drawing, draws it on a
  canvas that is larger by the scale, which is at least 1 unless the caller chooses it, and the image
  has the size of the drawing.
\<close>

lemma image_of_drawing:
  assumes "svgXmlToImageElement ratio load draw us opts = Fulfilled im" "\<forall>u\<in>set us. u < 0x10000"
  shows "\<exists>t s. concat (map utf16 (utf8_decode (base64_decode t))) = us \<and>
    load (''data:image/svg+xml;base64,'' @ t) = Loaded (width im) (height im) \<and>
    draw (canvas_size s (width im)) (canvas_size s (height im)) (default_to ''image/png'' (mimeType opts)) (default_to 1 (quality opts)) =
      Some (image_src im) \<and>
    (case scale opts of None \<Rightarrow> 1 \<le> s | Some s' \<Rightarrow> s = s')"
proof -
  define s where "s = default_to (defaultScale ratio) (scale opts)"
  have "case scale opts of None \<Rightarrow> 1 \<le> s | Some s' \<Rightarrow> s = s'"
    by (auto simp: s_def default_to_def defaultScale_def split: option.split)
  moreover obtain t where t: "b64EncodeUnicode us = Some t"
    using assms(1) by (auto simp: svgXmlToImageElement_def Let_def split: option.splits)
  moreover note b64_round [OF assms(2) t]
  ultimately show ?thesis
    using assms(1)
    by (auto simp: svgXmlToImageElement_def Let_def s_def [symmetric] split: option.splits load_event.splits
        intro!: exI [of _ t] exI [of _ s])
qed

end
